(* ===== verification/Corba_Prelude.thy ===== *)
theory Corba_Prelude
  imports Main "HOL-Library.Word" "HOL-Library.Sublist"
begin

text \<open>
  Shared vocabulary of the development: bytes and byte strings, host byte order, the errors
  a C++ operation can end with, the error/state plumbing of the decoders, and generic
  lemmas on lists.

  A \<open>char\<close>, \<open>uint8_t\<close> or \<open>char8_t\<close> of the source is an \<^typ>\<open>8 word\<close>, and a
  \<open>std::string\<close>, \<open>std::string_view\<close>, \<open>blob\<close> or \<open>blob_view\<close> is a list of
  them. String literals of the source are written \<open>lit ''...''\<close>.
\<close>

section \<open>Bytes and strings\<close>

type_synonym byte = "8 word"
type_synonym bytes = "byte list"
type_synonym u16 = "16 word"
type_synonym u32 = "32 word"
type_synonym u64 = "64 word"

definition lit :: "string \<Rightarrow> bytes" where
  "lit s = map of_char s"

lemma length_lit [simp]: "length (lit s) = length s"
  by (simp add: lit_def)

lemma lit_simps [simp]:
  "lit [] = []"
  "lit (c # s) = of_char c # lit s"
  by (simp_all add: lit_def)

section \<open>Byte order\<close>

text \<open>
  \<open>std::endian::native\<close> is a property of the host the code runs on and is a parameter
  \<open>h\<close> of every operation that depends on it. A decoder's \<open>_endian\<close> can also hold
  \<open>(std::endian)0\<close>, the default argument of its constructor, which is neither order.
\<close>

datatype host = LE | BE

datatype endian = Endian_little | Endian_big | Endian_0

fun native :: "host \<Rightarrow> endian" where
  "native LE = Endian_little"
| "native BE = Endian_big"

lemma native_eq_iff [simp]: "native h = native h' \<longleftrightarrow> h = h'"
  by (cases h; cases h') simp_all

lemma native_not_0 [simp]: "native h \<noteq> Endian_0"
  by (cases h) simp_all

section \<open>How an operation can fail\<close>

text \<open>
  \<open>OutOfRange\<close>, \<open>LengthError\<close> and \<open>RuntimeError\<close> are the C++ exceptions
  \<open>std::out_of_range\<close>, \<open>std::length_error\<close> and \<open>std::runtime_error\<close> (with the
  text of the message or of its format string). The last six are no exceptions: the code
  reads outside the memory it was given, dereferences a null pointer, uses the value of a
  variable that was never set, converts a number to an integer type or an enumeration that
  cannot hold it, uses a local variable of a function that has returned, or calls a library
  function where its documentation forbids it.
  \<open>undefined_behaviour\<close> tells them apart.
\<close>

datatype error =
    OutOfRange
  | LengthError
  | RuntimeError string
  | BadRead
  | NullDeref
  | Uninitialised
  | BadConversion
  | DanglingReference
  | LibraryMisuse

fun undefined_behaviour :: "error \<Rightarrow> bool" where
  "undefined_behaviour BadRead = True"
| "undefined_behaviour NullDeref = True"
| "undefined_behaviour Uninitialised = True"
| "undefined_behaviour BadConversion = True"
| "undefined_behaviour DanglingReference = True"
| "undefined_behaviour LibraryMisuse = True"
| "undefined_behaviour _ = False"

section \<open>Operations that return a value, change a state, or fail\<close>

text \<open>
  A reader maps a state to an error or to a value and the next state. \<open>rd_bind\<close> runs one
  after the other as consecutive statements do: the first error ends the whole.
\<close>

type_synonym ('a, 's) reader = "'s \<Rightarrow> error + 'a \<times> 's"

definition rd_return :: "'a \<Rightarrow> ('a, 's) reader" where
  "rd_return v s = Inr (v, s)"

definition rd_throw :: "error \<Rightarrow> ('a, 's) reader" where
  "rd_throw err s = Inl err"

definition rd_bind :: "('a, 's) reader \<Rightarrow> ('a \<Rightarrow> ('b, 's) reader) \<Rightarrow> ('b, 's) reader" where
  "rd_bind m f s = (case m s of Inl err \<Rightarrow> Inl err | Inr (v, s') \<Rightarrow> f v s')"

definition rd_get :: "('s \<Rightarrow> 'a) \<Rightarrow> ('a, 's) reader" where
  "rd_get f s = Inr (f s, s)"

definition rd_upd :: "('s \<Rightarrow> 's) \<Rightarrow> (unit, 's) reader" where
  "rd_upd f s = Inr ((), f s)"

text \<open>Repeats a reader and collects the values, as a counting loop with \<open>emplace_back\<close> does.\<close>

fun rd_times :: "nat \<Rightarrow> ('a, 's) reader \<Rightarrow> ('a list, 's) reader" where
  "rd_times 0 m = rd_return []"
| "rd_times (Suc n) m = rd_bind m (\<lambda>v. rd_bind (rd_times n m) (\<lambda>vs. rd_return (v # vs)))"

lemma rd_bind_Inl: "m s = Inl err \<Longrightarrow> rd_bind m f s = Inl err"
  by (simp add: rd_bind_def)

lemma rd_bind_Inr: "m s = Inr (v, s') \<Longrightarrow> rd_bind m f s = f v s'"
  by (simp add: rd_bind_def)

lemma rd_bind_eq_Inr:
  "rd_bind m f s = Inr (w, s'') \<longleftrightarrow> (\<exists>v s'. m s = Inr (v, s') \<and> f v s' = Inr (w, s''))"
  by (auto simp: rd_bind_def split: sum.splits)

lemma rd_bind_eq_Inl:
  "rd_bind m f s = Inl err \<longleftrightarrow>
     m s = Inl err \<or> (\<exists>v s'. m s = Inr (v, s') \<and> f v s' = Inl err)"
  by (auto simp: rd_bind_def split: sum.splits)

lemma rd_simps [simp]:
  "rd_return v s = Inr (v, s)"
  "rd_throw err s = Inl err"
  "rd_get g s = Inr (g s, s)"
  "rd_upd k s = Inr ((), k s)"
  by (simp_all add: rd_return_def rd_throw_def rd_get_def rd_upd_def)

text \<open>Writers that can fail map a state to an error or to the next state.\<close>

type_synonym 's writer = "'s \<Rightarrow> error + 's"

definition wr_ok :: "('s \<Rightarrow> 's) \<Rightarrow> 's writer" where
  "wr_ok f s = Inr (f s)"

definition wr_then :: "'s writer \<Rightarrow> 's writer \<Rightarrow> 's writer" where
  "wr_then m k s = (case m s of Inl err \<Rightarrow> Inl err | Inr s' \<Rightarrow> k s')"

definition wr_throw :: "error \<Rightarrow> 's writer" where
  "wr_throw err s = Inl err"

lemma wr_simps [simp]:
  "wr_ok f s = Inr (f s)"
  "wr_throw err s = Inl err"
  by (simp_all add: wr_ok_def wr_throw_def)

lemma wr_then_ok [simp]: "wr_then (wr_ok f) k s = k (f s)"
  by (simp add: wr_then_def)

lemma wr_then_Inr: "m s = Inr s' \<Longrightarrow> wr_then m k s = k s'"
  by (simp add: wr_then_def)

lemma wr_then_Inl: "m s = Inl err \<Longrightarrow> wr_then m k s = Inl err"
  by (simp add: wr_then_def)

lemma wr_then_eq_Inr: "wr_then m k s = Inr s'' \<longleftrightarrow> (\<exists>s'. m s = Inr s' \<and> k s' = Inr s'')"
  by (auto simp: wr_then_def split: sum.splits)

section \<open>Lists\<close>

text \<open>Overwrites a part of a list from a position on, as a store through a pointer does.\<close>

definition overwrite :: "nat \<Rightarrow> 'a list \<Rightarrow> 'a list \<Rightarrow> 'a list" where
  "overwrite p bs xs = take p xs @ bs @ drop (p + length bs) xs"

lemma length_overwrite [simp]:
  "p + length bs \<le> length xs \<Longrightarrow> length (overwrite p bs xs) = length xs"
  by (simp add: overwrite_def)

lemma overwrite_end: "length xs = p + length bs \<Longrightarrow> overwrite p bs xs = take p xs @ bs"
  by (simp add: overwrite_def)

lemma take_overwrite: "n \<le> p \<Longrightarrow> p \<le> length xs \<Longrightarrow> take n (overwrite p bs xs) = take n xs"
  by (simp add: overwrite_def)

lemma drop_overwrite:
  "p + length bs \<le> n \<Longrightarrow> p + length bs \<le> length xs \<Longrightarrow> drop n (overwrite p bs xs) = drop n xs"
  by (simp add: overwrite_def)

lemma overwrite_append:
  "p + length bs \<le> length xs \<Longrightarrow> overwrite p bs (xs @ ys) = overwrite p bs xs @ ys"
  by (simp add: overwrite_def)

lemma overwrite_middle: "overwrite (length xs) bs (xs @ ms @ ys) = xs @ bs @ ys"
  if "length ms = length bs"
  using that by (simp add: overwrite_def)

lemma prefix_drop_take: "prefix bs (drop p xs) \<Longrightarrow> take (length bs) (drop p xs) = bs"
  by (auto simp: prefix_def)

lemma prefix_drop_length: "prefix bs (drop p xs) \<Longrightarrow> bs \<noteq> [] \<Longrightarrow> p + length bs \<le> length xs"
  by (cases bs) (auto dest!: prefix_length_le)

lemma prefix_drop_split:
  "prefix (as @ bs) (drop p xs) \<longleftrightarrow>
     prefix as (drop p xs) \<and> prefix bs (drop (p + length as) xs)"
  unfolding prefix_def
  by (metis (no_types, lifting) add.commute append.assoc append_eq_conv_conj drop_drop)

lemma list_eq_Cons_drop: "prefix (b # bs) (drop p xs) \<Longrightarrow> p < length xs \<and> xs ! p = b"
  by (metis Cons_prefix_Cons Nil_is_append_conv drop_all drop_eq_Nil hd_drop_conv_nth
      linorder_not_less list.sel(1) neq_Nil_conv prefix_Nil)

end
