(* ===== verification/CDR_Words.thy ===== *)
theory CDR_Words
  imports Corba_Prelude
begin

unbundle bit_operations_syntax

text \<open>
  How a value of a fixed-width integer type lies in memory: what a store through
  \<open>reinterpret_cast<uintN_t *>\<close> leaves there and what a load through it reads, on a host of
  either byte order, and the builtins \<open>__builtin_bswapN\<close>. Also the alignment arithmetic of
  \<open>align2\<close>, \<open>align4\<close> and \<open>align8\<close>, which encoder and decoder share.
\<close>

section \<open>Numbers as little-endian digits\<close>

fun digits :: "nat \<Rightarrow> nat \<Rightarrow> bytes" where
  "digits 0 x = []"
| "digits (Suc n) x = of_nat (x mod 256) # digits n (x div 256)"

fun undigits :: "bytes \<Rightarrow> nat" where
  "undigits [] = 0"
| "undigits (b # bs) = unat b + 256 * undigits bs"

lemma length_digits [simp]: "length (digits n x) = n"
  by (induction n arbitrary: x) simp_all

lemma unat_of_nat_mod_256: "unat (of_nat (x mod 256) :: byte) = x mod 256"
  by (simp add: unat_of_nat)

lemma undigits_digits: "undigits (digits n x) = x mod 256 ^ n"
proof (induction n arbitrary: x)
  case 0
  show ?case by simp
next
  case (Suc n)
  show ?case
    by (simp add: Suc unat_of_nat_mod_256 mod_mult2_eq del: unat_of_nat)
qed

lemma undigits_less: "undigits bs < 256 ^ length bs"
proof (induction bs)
  case Nil
  show ?case by simp
next
  case (Cons b bs)
  have "unat b < 256" using unsigned_less [of b] by simp
  then have "unat b + 256 * undigits bs < 256 * (undigits bs + 1)" by simp
  also have "\<dots> \<le> 256 * 256 ^ length bs" using Cons by (intro mult_le_mono2) simp
  finally show ?case by simp
qed

lemma digits_undigits: "digits (length bs) (undigits bs) = bs"
proof (induction bs)
  case Nil
  show ?case by simp
next
  case (Cons b bs)
  have b: "unat b < 256" using unsigned_less [of b] by simp
  then have "(unat b + 256 * undigits bs) div 256 = undigits bs" by simp
  moreover have "of_nat ((unat b + 256 * undigits bs) mod 256) = b"
    using b by simp
  ultimately show ?case using Cons by simp
qed

section \<open>Words in memory\<close>

definition native_bytes :: "host \<Rightarrow> nat \<Rightarrow> 'a::len word \<Rightarrow> bytes" where
  "native_bytes h n w = (case h of LE \<Rightarrow> digits n (unat w) | BE \<Rightarrow> rev (digits n (unat w)))"

definition native_word :: "host \<Rightarrow> bytes \<Rightarrow> 'a::len word" where
  "native_word h bs = of_nat (case h of LE \<Rightarrow> undigits bs | BE \<Rightarrow> undigits (rev bs))"

definition bswap :: "nat \<Rightarrow> 'a::len word \<Rightarrow> 'a word" where
  "bswap n w = of_nat (undigits (rev (digits n (unat w))))"

text \<open>
  The abstract reading of bytes in a stated order: what the wire format means by them. A
  decoder whose order is unknown (\<open>Endian_0\<close>) has no such reading.
\<close>

fun order_bytes :: "endian \<Rightarrow> nat \<Rightarrow> 'a::len word \<Rightarrow> bytes" where
  "order_bytes Endian_big n w = rev (digits n (unat w))"
| "order_bytes _ n w = digits n (unat w)"

lemma length_native_bytes [simp]: "length (native_bytes h n w) = n"
  by (cases h) (simp_all add: native_bytes_def)

lemma length_order_bytes [simp]: "length (order_bytes en n w) = n"
  by (cases en) simp_all

lemma native_bytes_order: "native_bytes h n w = order_bytes (native h) n w"
  by (cases h) (simp_all add: native_bytes_def)

lemma unat_less_256_pow:
  fixes w :: "'a::len word"
  assumes "LENGTH('a) = 8 * n"
  shows "unat w < 256 ^ n"
proof -
  have "(2::nat) ^ LENGTH('a) = 256 ^ n"
    using assms by (simp add: power_mult)
  moreover have "unat w < 2 ^ LENGTH('a)" by (rule unsigned_less)
  ultimately show ?thesis by simp
qed

lemma undigits_digits_unat:
  fixes w :: "'a::len word"
  assumes "LENGTH('a) = 8 * n"
  shows "undigits (digits n (unat w)) = unat w"
  using unat_less_256_pow [OF assms, of w] by (simp add: undigits_digits)

lemma native_word_bytes:
  fixes w :: "'a::len word"
  assumes "LENGTH('a) = 8 * n"
  shows "native_word h (native_bytes h n w) = w"
  by (cases h) (simp_all add: native_word_def native_bytes_def undigits_digits_unat [OF assms])

lemma unat_of_nat_undigits:
  assumes "LENGTH('a) = 8 * n" and "length bs = n"
  shows "unat (of_nat (undigits bs) :: 'a::len word) = undigits bs"
proof -
  have "(2::nat) ^ LENGTH('a) = 256 ^ n"
    using assms by (simp add: power_mult)
  then show ?thesis
    using undigits_less [of bs] assms by (simp add: unat_of_nat)
qed

text \<open>
  The decoders load in host order and swap when the stream's order differs from the host's:
  together that is a read in the stream's order, on any host.
\<close>

lemma bswap_of_nat:
  assumes "LENGTH('a) = 8 * n" and "length bs = n"
  shows "bswap n (of_nat (undigits bs) :: 'a::len word) = of_nat (undigits (rev bs))"
  using unat_of_nat_undigits [OF assms] digits_undigits [of bs] assms by (simp add: bswap_def)

lemma bswap_native_word:
  assumes "LENGTH('a) = 8 * n" and "length bs = n"
  shows "bswap n (native_word h bs :: 'a::len word) = native_word h (rev bs)"
  using bswap_of_nat [OF assms] bswap_of_nat [OF assms(1), of "rev bs"] assms(2)
  by (cases h) (simp_all add: native_word_def)

definition load_ordered :: "host \<Rightarrow> endian \<Rightarrow> nat \<Rightarrow> bytes \<Rightarrow> 'a::len word" where
  "load_ordered h en n bs =
     (let value = native_word h bs in if native h \<noteq> en then bswap n value else value)"

lemma load_ordered_order_bytes:
  fixes w :: "'a::len word"
  assumes "LENGTH('a) = 8 * n" and "en \<noteq> Endian_0"
  shows "load_ordered h en n (order_bytes en n w) = w"
  using assms
  by (cases h; cases en)
     (simp_all add: load_ordered_def Let_def bswap_of_nat native_word_def
        undigits_digits_unat [OF assms(1)])

lemma bswap_involution:
  fixes w :: "'a::len word"
  assumes "LENGTH('a) = 8 * n"
  shows "bswap n (bswap n w) = w"
proof -
  have w: "w = native_word LE (native_bytes LE n w)"
    by (simp add: native_word_bytes [OF assms])
  have "bswap n (bswap n (native_word LE (native_bytes LE n w) :: 'a word))
      = native_word LE (native_bytes LE n w)"
    by (simp add: bswap_native_word assms)
  then show ?thesis by (simp flip: w)
qed

section \<open>Alignment\<close>

text \<open>\<open>if (offset & m) { offset |= m; ++offset; }\<close> for \<open>m\<close> = 1, 3, 7.\<close>

definition align_mask :: "nat \<Rightarrow> nat \<Rightarrow> nat" where
  "align_mask m off = (if off AND m \<noteq> 0 then (off OR m) + 1 else off)"

text \<open>The encoder's \<open>align2\<close> skips the \<open>|=\<close>: \<open>if (offset & 1) ++offset\<close>.\<close>

definition align_mask2 :: "nat \<Rightarrow> nat" where
  "align_mask2 off = (if off AND 1 \<noteq> 0 then off + 1 else off)"

definition padding :: "nat \<Rightarrow> nat \<Rightarrow> nat" where
  "padding n off = (n - off mod n) mod n"

lemma and_1_nat: "(off::nat) AND 1 = off mod 2"
  by (simp add: and_one_eq)

lemma and_mask_nat: "(off::nat) AND (2 ^ k - 1) = off mod 2 ^ k"
  by (metis mask_eq_exp_minus_1 take_bit_eq_mask take_bit_eq_mod)

lemma or_1_nat: "(off::nat) OR 1 = 2 * (off div 2) + 1"
  by (subst or_nat_rec) simp

lemma or_3_nat: "(off::nat) OR 3 = 4 * (off div 4) + 3"
proof -
  have "off OR 3 = 1 + 2 * (off div 2 OR 1)"
    by (subst or_nat_rec) simp
  also have "\<dots> = 4 * (off div 2 div 2) + 3"
    by (simp only: or_1_nat) simp
  finally show ?thesis by (simp add: div_mult2_eq [symmetric])
qed

lemma or_7_nat: "(off::nat) OR 7 = 8 * (off div 8) + 7"
proof -
  have "off OR 7 = 1 + 2 * (off div 2 OR 3)"
    by (subst or_nat_rec) simp
  also have "\<dots> = 8 * (off div 2 div 4) + 7"
    by (simp only: or_3_nat) simp
  finally show ?thesis by (simp add: div_mult2_eq [symmetric])
qed

lemma padding_unfold: "0 < n \<Longrightarrow> padding n off = (if off mod n = 0 then 0 else n - off mod n)"
  by (simp add: padding_def)

lemma align_mask2_padding: "align_mask2 off = off + padding 2 off"
  unfolding align_mask2_def and_1_nat by (simp add: padding_unfold)

lemma align_mask_1_padding: "align_mask 1 off = off + padding 2 off"
  unfolding align_mask_def and_1_nat or_1_nat by (simp add: padding_unfold) arith

lemma align_mask_3_padding: "align_mask 3 off = off + padding 4 off"
  using and_mask_nat [of off 2] unfolding align_mask_def or_3_nat
  by (simp add: padding_unfold) arith

lemma align_mask_7_padding: "align_mask 7 off = off + padding 8 off"
  using and_mask_nat [of off 3] unfolding align_mask_def or_7_nat
  by (simp add: padding_unfold) arith

lemma padding_less: "0 < n \<Longrightarrow> padding n off < n"
  by (simp add: padding_def)

lemma padding_aligned: "0 < n \<Longrightarrow> n dvd off + padding n off"
  unfolding padding_def
  by (metis add.commute dvd_eq_mod_eq_0 le_add_diff_inverse2 mod_add_left_eq mod_add_self1
      mod_add_right_eq mod_less_divisor less_or_eq_imp_le mod_mod_trivial mod_self)

lemma padding_0: "n dvd off \<Longrightarrow> padding n off = 0"
  by (auto simp: padding_def)

end
