(* ===== verification/CDR_Encoder.thy ===== *)
theory CDR_Encoder
  imports CDR_Words
begin

text \<open>
  \<open>CDREncoder\<close> (src/corba/cdr.hh, src/corba/cdr.cc): a growing byte vector with a write
  offset that alignment and the header skips may move past its end, and the stack of the
  sizes still to be filled in.

  The second half states what the encoder promises. While nothing has been written beyond
  the offset (\<open>append_mode\<close>) the encoder stands for the \<open>stream\<close> of the octets
  before its offset, and each operation appends to it the octets that CDR prescribes: the
  abstract marshalling functions \<open>cdr_*\<close>, which map the position at which a value is
  written to the octets that stand there. \<open>emits\<close> is that refinement.
\<close>

section \<open>State and operations\<close>

record cdr_encoder =
  edata :: bytes
  eoffset :: nat
  sizeStack :: "nat list"

definition enc_init :: cdr_encoder where
  "enc_init = \<lparr>edata = [], eoffset = 0, sizeStack = []\<rparr>"

definition reserve :: "nat \<Rightarrow> cdr_encoder \<Rightarrow> cdr_encoder" where
  "reserve nbytes e =
     (if length (edata e) < nbytes
      then e\<lparr>edata := edata e @ replicate (nbytes - length (edata e)) 0\<rparr>
      else e)"

definition reserve_all :: "cdr_encoder \<Rightarrow> cdr_encoder" where
  "reserve_all e = reserve (eoffset e) e"

definition enc_align2 :: "cdr_encoder \<Rightarrow> cdr_encoder" where
  "enc_align2 e = e\<lparr>eoffset := align_mask2 (eoffset e)\<rparr>"

definition enc_align4 :: "cdr_encoder \<Rightarrow> cdr_encoder" where
  "enc_align4 e = e\<lparr>eoffset := align_mask 3 (eoffset e)\<rparr>"

definition enc_align8 :: "cdr_encoder \<Rightarrow> cdr_encoder" where
  "enc_align8 e = e\<lparr>eoffset := align_mask 7 (eoffset e)\<rparr>"

text \<open>
  \<open>store\<close> is the store through a pointer to \<open>_data->data() + offset\<close> together with the
  advance of the offset; \<open>put\<close> is the pattern of all the writers: make room, then store.
\<close>

definition store :: "bytes \<Rightarrow> cdr_encoder \<Rightarrow> cdr_encoder" where
  "store bs e = e\<lparr>edata := overwrite (eoffset e) bs (edata e), eoffset := eoffset e + length bs\<rparr>"

definition put :: "bytes \<Rightarrow> cdr_encoder \<Rightarrow> cdr_encoder" where
  "put bs e = store bs (reserve (eoffset e + length bs) e)"

definition writeBoolean :: "bool \<Rightarrow> cdr_encoder \<Rightarrow> cdr_encoder" where
  "writeBoolean value e = put [if value then 1 else 0] e"

definition writeOctet :: "byte \<Rightarrow> cdr_encoder \<Rightarrow> cdr_encoder" where
  "writeOctet value e = put [value] e"

definition writeEndian :: "host \<Rightarrow> cdr_encoder \<Rightarrow> cdr_encoder" where
  "writeEndian h e = writeOctet (if native h = Endian_big then 0 else 1) e"

definition writeUshort :: "host \<Rightarrow> u16 \<Rightarrow> cdr_encoder \<Rightarrow> cdr_encoder" where
  "writeUshort h value e = put (native_bytes h 2 value) (enc_align2 e)"

definition writeUlong :: "host \<Rightarrow> u32 \<Rightarrow> cdr_encoder \<Rightarrow> cdr_encoder" where
  "writeUlong h value e = put (native_bytes h 4 value) (enc_align4 e)"

definition writeUlonglong :: "host \<Rightarrow> u64 \<Rightarrow> cdr_encoder \<Rightarrow> cdr_encoder" where
  "writeUlonglong h value e = put (native_bytes h 8 value) (enc_align8 e)"

text \<open>
  The signed integers are the words of the same width read by \<open>sint\<close>; \<open>float\<close> and
  \<open>double\<close> are the words of their object representation.
\<close>

definition writeShort :: "host \<Rightarrow> u16 \<Rightarrow> cdr_encoder \<Rightarrow> cdr_encoder" where
  "writeShort h value e = put (native_bytes h 2 value) (enc_align2 e)"

definition writeLong :: "host \<Rightarrow> u32 \<Rightarrow> cdr_encoder \<Rightarrow> cdr_encoder" where
  "writeLong h value e = put (native_bytes h 4 value) (enc_align4 e)"

definition writeLonglong :: "host \<Rightarrow> u64 \<Rightarrow> cdr_encoder \<Rightarrow> cdr_encoder" where
  "writeLonglong h value e = put (native_bytes h 8 value) (enc_align8 e)"

definition writeFloat :: "host \<Rightarrow> u32 \<Rightarrow> cdr_encoder \<Rightarrow> cdr_encoder" where
  "writeFloat h value e = put (native_bytes h 4 value) (enc_align4 e)"

definition writeDouble :: "host \<Rightarrow> u64 \<Rightarrow> cdr_encoder \<Rightarrow> cdr_encoder" where
  "writeDouble h value e = put (native_bytes h 8 value) (enc_align8 e)"

definition writeBlob :: "host \<Rightarrow> bytes \<Rightarrow> cdr_encoder \<Rightarrow> cdr_encoder" where
  "writeBlob h value e = put value (writeUlong h (of_nat (length value)) e)"

definition writeString :: "host \<Rightarrow> bytes \<Rightarrow> cdr_encoder \<Rightarrow> cdr_encoder" where
  "writeString h value e =
     (let e1 = writeUlong h (of_nat (length value + 1)) e;
          e2 = reserve (eoffset e1 + length value + 1) e1
      in store [0] (store value e2))"

text \<open>\<open>writeString(const char *)\<close> takes the characters before the terminator.\<close>

definition writeCString :: "host \<Rightarrow> bytes \<Rightarrow> cdr_encoder \<Rightarrow> cdr_encoder" where
  "writeCString h value e = writeString h (takeWhile (\<lambda>c. c \<noteq> 0) value) e"

definition writeSequenceFloat :: "host \<Rightarrow> u32 list \<Rightarrow> cdr_encoder \<Rightarrow> cdr_encoder" where
  "writeSequenceFloat h value e =
     put (concat (map (native_bytes h 4) value)) (writeUlong h (of_nat (length value)) e)"

definition writeSequenceDouble :: "host \<Rightarrow> u64 list \<Rightarrow> cdr_encoder \<Rightarrow> cdr_encoder" where
  "writeSequenceDouble h value e =
     put (concat (map (native_bytes h 8) value))
       (enc_align8 (writeUlong h (of_nat (length value)) e))"

definition reserveSize :: "cdr_encoder \<Rightarrow> cdr_encoder" where
  "reserveSize e =
     (let e1 = enc_align4 e;
          e2 = e1\<lparr>eoffset := eoffset e1 + 4\<rparr>
      in e2\<lparr>sizeStack := eoffset e2 # sizeStack e2\<rparr>)"

definition fillInSize :: "host \<Rightarrow> cdr_encoder writer" where
  "fillInSize h e =
     (case sizeStack e of
        [] \<Rightarrow> Inl (RuntimeError ''internal error: fillinSize() misses reserveSize()'')
      | savedOffset # rest \<Rightarrow>
          (let currentOffset = eoffset e;
               e1 = e\<lparr>sizeStack := rest, eoffset := savedOffset - 4\<rparr>;
               e2 = writeUlong h (of_nat (currentOffset - savedOffset)) e1
           in Inr (e2\<lparr>eoffset := currentOffset\<rparr>)))"

section \<open>The marshalling CDR prescribes\<close>

type_synonym marshal = "nat \<Rightarrow> bytes"

definition cdr_pad :: "nat \<Rightarrow> marshal" where
  "cdr_pad n p = replicate (padding n p) 0"

definition cdr_raw :: "bytes \<Rightarrow> marshal" where
  "cdr_raw bs p = bs"

text \<open>One marshalled value after another: the second starts where the first ends.\<close>

definition cdr_seq :: "marshal \<Rightarrow> marshal \<Rightarrow> marshal" where
  "cdr_seq f g p = f p @ g (p + length (f p))"

fun cdr_list :: "('a \<Rightarrow> marshal) \<Rightarrow> 'a list \<Rightarrow> marshal" where
  "cdr_list f [] = cdr_raw []"
| "cdr_list f (x # xs) = cdr_seq (f x) (cdr_list f xs)"

definition cdr_word :: "endian \<Rightarrow> nat \<Rightarrow> 'a::len word \<Rightarrow> marshal" where
  "cdr_word en n w = cdr_seq (cdr_pad n) (cdr_raw (order_bytes en n w))"

definition cdr_ulong :: "endian \<Rightarrow> u32 \<Rightarrow> marshal" where
  "cdr_ulong en = cdr_word en 4"

definition cdr_blob :: "endian \<Rightarrow> bytes \<Rightarrow> marshal" where
  "cdr_blob en bs = cdr_seq (cdr_ulong en (of_nat (length bs))) (cdr_raw bs)"

definition cdr_string :: "endian \<Rightarrow> bytes \<Rightarrow> marshal" where
  "cdr_string en s = cdr_blob en (s @ [0])"

lemma cdr_raw_apply [simp]: "cdr_raw bs p = bs"
  by (simp add: cdr_raw_def)

lemma length_cdr_pad [simp]: "length (cdr_pad n p) = padding n p"
  by (simp add: cdr_pad_def)

lemma length_cdr_seq [simp]:
  "length (cdr_seq f g p) = length (f p) + length (g (p + length (f p)))"
  by (simp add: cdr_seq_def)

lemma cdr_seq_assoc: "cdr_seq (cdr_seq f g) k = cdr_seq f (cdr_seq g k)"
  by (rule ext) (simp add: cdr_seq_def add.assoc)

lemma cdr_seq_raw_Nil [simp]: "cdr_seq (cdr_raw []) f = f" "cdr_seq f (cdr_raw []) = f"
  by (rule ext, simp add: cdr_seq_def)+

lemma cdr_seq_raw_raw: "cdr_seq (cdr_raw as) (cdr_raw bs) = cdr_raw (as @ bs)"
  by (rule ext) (simp add: cdr_seq_def)

lemma length_cdr_word [simp]: "length (cdr_word en n w p) = padding n p + n"
  by (simp add: cdr_word_def)

section \<open>The stream an encoder stands for\<close>

definition append_mode :: "cdr_encoder \<Rightarrow> bool" where
  "append_mode e \<longleftrightarrow> length (edata e) \<le> eoffset e"

definition stream :: "cdr_encoder \<Rightarrow> bytes" where
  "stream e = edata e @ replicate (eoffset e - length (edata e)) 0"

definition emits :: "(cdr_encoder \<Rightarrow> cdr_encoder) \<Rightarrow> marshal \<Rightarrow> bool" where
  "emits w f \<longleftrightarrow>
     (\<forall>e. append_mode e \<longrightarrow>
        append_mode (w e) \<and> stream (w e) = stream e @ f (eoffset e) \<and>
        sizeStack (w e) = sizeStack e)"

lemma append_mode_init [simp]: "append_mode enc_init" "stream enc_init = []"
  by (simp_all add: append_mode_def enc_init_def stream_def)

lemma length_stream: "append_mode e \<Longrightarrow> length (stream e) = eoffset e"
  by (simp add: append_mode_def stream_def)

lemma edata_reserve_all: "append_mode e \<Longrightarrow> edata (reserve_all e) = stream e"
  by (simp add: append_mode_def stream_def reserve_all_def reserve_def)

lemma emitsD:
  assumes "emits w f" and "append_mode e"
  shows "append_mode (w e)" and "stream (w e) = stream e @ f (eoffset e)"
    and "sizeStack (w e) = sizeStack e" and "eoffset (w e) = eoffset e + length (f (eoffset e))"
proof -
  show 1: "append_mode (w e)" and 2: "stream (w e) = stream e @ f (eoffset e)"
    and "sizeStack (w e) = sizeStack e"
    using assms by (simp_all add: emits_def)
  from 2 have "length (stream (w e)) = length (stream e) + length (f (eoffset e))" by simp
  then show "eoffset (w e) = eoffset e + length (f (eoffset e))"
    using length_stream [OF 1] length_stream [OF assms(2)] by simp
qed

lemma emits_comp:
  assumes "emits w1 f1" and "emits w2 f2"
  shows "emits (\<lambda>e. w2 (w1 e)) (cdr_seq f1 f2)"
  unfolding emits_def cdr_seq_def
proof (intro allI impI)
  fix e
  assume e: "append_mode e"
  note 1 = emitsD [OF assms(1) e]
  note 2 = emitsD [OF assms(2) 1(1)]
  show "append_mode (w2 (w1 e)) \<and>
      stream (w2 (w1 e)) = stream e @ f1 (eoffset e) @ f2 (eoffset e + length (f1 (eoffset e))) \<and>
      sizeStack (w2 (w1 e)) = sizeStack e"
    using 1 2 by simp
qed

lemma emits_id: "emits (\<lambda>e. e) (cdr_raw [])"
  by (simp add: emits_def)

lemma emits_skip:
  assumes "\<And>e. w e = e\<lparr>eoffset := eoffset e + n (eoffset e)\<rparr>"
  shows "emits w (\<lambda>p. replicate (n p) 0)"
  using assms
  by (auto simp: emits_def append_mode_def stream_def replicate_add [symmetric])

lemma emits_align:
  "emits enc_align2 (cdr_pad 2)" "emits enc_align4 (cdr_pad 4)" "emits enc_align8 (cdr_pad 8)"
proof -
  show "emits enc_align2 (cdr_pad 2)" "emits enc_align4 (cdr_pad 4)" "emits enc_align8 (cdr_pad 8)"
    using emits_skip [of enc_align2 "padding 2"] emits_skip [of enc_align4 "padding 4"]
      emits_skip [of enc_align8 "padding 8"]
    by (simp_all add: enc_align2_def enc_align4_def enc_align8_def align_mask2_padding
        align_mask_3_padding align_mask_7_padding cdr_pad_def [abs_def])
qed

lemma reserve_append:
  assumes "append_mode e"
  shows "edata (reserve (eoffset e + n) e) = stream e @ replicate n 0"
    and "eoffset (reserve m e) = eoffset e" and "sizeStack (reserve m e) = sizeStack e"
    and "reserve m e = e\<lparr>edata := edata (reserve m e)\<rparr>"
proof -
  have "eoffset e + n - length (edata e) = (eoffset e - length (edata e)) + n"
    using assms by (simp add: append_mode_def)
  then have "replicate (eoffset e + n - length (edata e)) (0::byte) =
      replicate (eoffset e - length (edata e)) 0 @ replicate n 0"
    by (simp only: replicate_add)
  moreover have "\<not> length (edata e) < eoffset e + n \<Longrightarrow> n = 0 \<and> length (edata e) = eoffset e"
    using assms by (simp add: append_mode_def)
  ultimately show "edata (reserve (eoffset e + n) e) = stream e @ replicate n 0"
    by (auto simp: reserve_def stream_def)
qed (simp_all add: reserve_def)

lemma put_append:
  assumes "append_mode e"
  shows "put bs e = e\<lparr>edata := stream e @ bs, eoffset := eoffset e + length bs\<rparr>"
proof -
  have "overwrite (length (stream e)) bs (stream e @ replicate (length bs) 0 @ []) =
      stream e @ bs @ []"
    by (rule overwrite_middle) simp
  then show ?thesis
    using reserve_append [OF assms] length_stream [OF assms]
    by (simp add: put_def store_def)
qed

lemma emits_put: "emits (put bs) (cdr_raw bs)"
  unfolding emits_def
  by (auto simp: put_append append_mode_def stream_def)

lemma emits_cong: "emits w f \<Longrightarrow> (\<And>e. w e = w' e) \<Longrightarrow> f = f' \<Longrightarrow> emits w' f'"
  by (simp add: emits_def)

lemma emits_word:
  "emits (writeUshort h v2) (cdr_word (native h) 2 v2)"
  "emits (writeUlong h v4) (cdr_ulong (native h) v4)"
  "emits (writeUlonglong h v8) (cdr_word (native h) 8 v8)"
  "emits (writeShort h v2) (cdr_word (native h) 2 v2)"
  "emits (writeLong h v4) (cdr_word (native h) 4 v4)"
  "emits (writeLonglong h v8) (cdr_word (native h) 8 v8)"
  "emits (writeFloat h v4) (cdr_word (native h) 4 v4)"
  "emits (writeDouble h v8) (cdr_word (native h) 8 v8)"
  unfolding cdr_ulong_def cdr_word_def
  by (rule emits_cong [OF emits_comp [OF emits_align(1) emits_put] _ refl]
        emits_cong [OF emits_comp [OF emits_align(2) emits_put] _ refl]
        emits_cong [OF emits_comp [OF emits_align(3) emits_put] _ refl],
      simp add: writeUshort_def writeUlong_def writeUlonglong_def writeShort_def writeLong_def
        writeLonglong_def writeFloat_def writeDouble_def native_bytes_order)+

lemma emits_octet: "emits (writeOctet v) (cdr_raw [v])"
  by (rule emits_cong [OF emits_put _ refl]) (simp add: writeOctet_def)

lemma emits_boolean: "emits (writeBoolean v) (cdr_raw [if v then 1 else 0])"
  by (rule emits_cong [OF emits_put _ refl]) (simp add: writeBoolean_def)

definition endian_octet :: "endian \<Rightarrow> byte" where
  "endian_octet en = (if en = Endian_big then 0 else 1)"

lemma emits_endian: "emits (writeEndian h) (cdr_raw [endian_octet (native h)])"
  by (rule emits_cong [OF emits_octet _ refl]) (simp add: writeEndian_def endian_octet_def)

lemma emits_blob: "emits (writeBlob h v) (cdr_blob (native h) v)"
  unfolding cdr_blob_def
  by (rule emits_cong [OF emits_comp [OF emits_word(2) emits_put] _ refl])
     (simp add: writeBlob_def)

text \<open>
  \<open>writeString\<close> reserves once for the characters and the terminator: the checked access
  \<open>_data->at(offset) = 0\<close> is always in range, and the result is that of one \<open>put\<close>.
\<close>

lemma store_store: "store cs (store bs e) = store (bs @ cs) e"
  if "eoffset e + length bs + length cs \<le> length (edata e)"
  using that by (simp add: store_def overwrite_def drop_take add.commute add.left_commute)

lemma writeString_at_in_range:
  "e1 = writeUlong h (of_nat (length s + 1)) e \<Longrightarrow>
   e2 = reserve (eoffset e1 + length s + 1) e1 \<Longrightarrow>
   eoffset (store s e2) < length (edata (store s e2))"
  by (auto simp: store_def reserve_def)

lemma writeString_eq_put:
  "writeString h s e = put (s @ [0]) (writeUlong h (of_nat (length s + 1)) e)"
proof -
  let ?e1 = "writeUlong h (of_nat (length s + 1)) e"
  let ?e2 = "reserve (eoffset ?e1 + length s + 1) ?e1"
  have "eoffset ?e2 + length s + length [0::byte] \<le> length (edata ?e2)"
    by (simp add: reserve_def)
  from store_store [OF this] show ?thesis
    by (simp add: writeString_def put_def Let_def)
qed

lemma emits_string: "emits (writeString h s) (cdr_string (native h) s)"
  unfolding cdr_string_def cdr_blob_def
  by (rule emits_cong [OF emits_comp [OF emits_word(2) emits_put] _ refl])
     (simp add: writeString_eq_put)

lemma emits_cstring:
  "emits (writeCString h s) (cdr_string (native h) (takeWhile (\<lambda>c. c \<noteq> 0) s))"
  by (rule emits_cong [OF emits_string _ refl]) (simp add: writeCString_def)

lemma emits_sequence_float:
  "emits (writeSequenceFloat h v)
     (cdr_seq (cdr_ulong (native h) (of_nat (length v)))
       (cdr_raw (concat (map (order_bytes (native h) 4) v))))"
  by (rule emits_cong [OF emits_comp [OF emits_word(2) emits_put] _ refl])
     (simp add: writeSequenceFloat_def native_bytes_order [abs_def])

lemma emits_sequence_double:
  "emits (writeSequenceDouble h v)
     (cdr_seq (cdr_ulong (native h) (of_nat (length v)))
       (cdr_seq (cdr_pad 8) (cdr_raw (concat (map (order_bytes (native h) 8) v)))))"
  by (rule emits_cong [OF emits_comp
        [OF emits_word(2) emits_comp [OF emits_align(3) emits_put]] _ refl])
     (simp add: writeSequenceDouble_def native_bytes_order [abs_def])

lemmas emits_intros =
  emits_word emits_octet emits_boolean emits_endian emits_blob emits_string emits_cstring
  emits_sequence_float emits_sequence_double emits_align emits_put

section \<open>Writing back into the stream\<close>

text \<open>
  Sizes and headers are filled in after what follows them: the offset goes back, a value is
  written there, and the offset returns. On the stream that replaces the octets in place.
\<close>

lemma patch_stream:
  assumes "append_mode e" and "p + length bs \<le> eoffset e"
  shows "append_mode ((put bs (e\<lparr>eoffset := p\<rparr>))\<lparr>eoffset := eoffset e\<rparr>)"
    and "stream ((put bs (e\<lparr>eoffset := p\<rparr>))\<lparr>eoffset := eoffset e\<rparr>) = overwrite p bs (stream e)"
proof -
  let ?d = "edata (reserve (p + length bs) e)"
  have len: "length ?d = max (length (edata e)) (p + length bs)"
    by (auto simp: reserve_def)
  have d: "?d @ replicate (eoffset e - length ?d) 0 = stream e"
    using assms
    by (auto simp: reserve_def stream_def append_mode_def replicate_add [symmetric])
  have put: "edata (put bs (e\<lparr>eoffset := p\<rparr>)) = overwrite p bs ?d"
    by (simp add: put_def store_def reserve_def)
  show "append_mode ((put bs (e\<lparr>eoffset := p\<rparr>))\<lparr>eoffset := eoffset e\<rparr>)"
    using assms len by (simp add: append_mode_def put)
  have "stream ((put bs (e\<lparr>eoffset := p\<rparr>))\<lparr>eoffset := eoffset e\<rparr>) =
      overwrite p bs ?d @ replicate (eoffset e - length ?d) 0"
    using len by (simp add: stream_def put)
  also have "\<dots> = overwrite p bs (stream e)"
    using overwrite_append [of p bs ?d] len by (simp flip: d)
  finally show "stream ((put bs (e\<lparr>eoffset := p\<rparr>))\<lparr>eoffset := eoffset e\<rparr>) =
      overwrite p bs (stream e)" .
qed

lemma put_frame:
  "sizeStack (put bs e) = sizeStack e" "eoffset (put bs e) = eoffset e + length bs"
  by (simp_all add: put_def store_def reserve_def)

definition cdr_sized :: "endian \<Rightarrow> marshal \<Rightarrow> marshal" where
  "cdr_sized en f p =
     cdr_seq (cdr_ulong en (of_nat (length (f (p + padding 4 p + 4))))) f p"

lemma reserveSize_append:
  assumes "append_mode e"
  shows "append_mode (reserveSize e)"
    and "stream (reserveSize e) = stream e @ replicate (padding 4 (eoffset e) + 4) 0"
    and "eoffset (reserveSize e) = eoffset e + padding 4 (eoffset e) + 4"
    and "sizeStack (reserveSize e) = eoffset (reserveSize e) # sizeStack e"
  using assms
  by (auto simp: reserveSize_def enc_align4_def align_mask_3_padding append_mode_def
      stream_def replicate_add [symmetric])

lemma fillInSize_frame:
  assumes e: "append_mode e"
    and e2: "append_mode e2" "stream e2 = stream (reserveSize e) @ f (eoffset (reserveSize e))"
      "sizeStack e2 = sizeStack (reserveSize e)"
  obtains e3 where "fillInSize h e2 = Inr e3" "append_mode e3"
    "stream e3 = stream e @ cdr_sized (native h) f (eoffset e)" "sizeStack e3 = sizeStack e"
proof -
  note rs = reserveSize_append [OF e]
  let ?q = "eoffset (reserveSize e)" and ?body = "f (eoffset (reserveSize e))"
  let ?n = "of_nat (length ?body) :: u32"
  let ?e1 = "e2\<lparr>sizeStack := sizeStack e\<rparr>"
  have off: "eoffset e2 = ?q + length ?body"
    using length_stream [OF e2(1)] length_stream [OF rs(1)] e2(2) by simp
  have "4 dvd eoffset e + padding 4 (eoffset e)" by (rule padding_aligned) simp
  then have "align_mask 3 (?q - 4) = ?q - 4"
    using rs(3) by (simp add: align_mask_3_padding padding_0)
  then have wr: "fillInSize h e2 =
      Inr ((put (native_bytes h 4 ?n) (?e1\<lparr>eoffset := ?q - 4\<rparr>))\<lparr>eoffset := eoffset ?e1\<rparr>)"
    using e2(3) rs(4) off by (simp add: fillInSize_def Let_def writeUlong_def enc_align4_def)
  have fits: "?q - 4 + length (native_bytes h 4 ?n) \<le> eoffset ?e1"
    using off rs(3) by simp
  have am: "append_mode ?e1" using e2(1) by (simp add: append_mode_def)
  note ps = patch_stream [OF am fits]
  let ?z = "stream e @ replicate (padding 4 (eoffset e)) 0"
  have "stream ?e1 = ?z @ replicate 4 0 @ ?body"
    using e2(2) rs(2) by (simp add: stream_def replicate_add)
  moreover have "length ?z = ?q - 4" using rs(3) length_stream [OF e] by simp
  ultimately have "overwrite (?q - 4) (native_bytes h 4 ?n) (stream ?e1) =
      ?z @ native_bytes h 4 ?n @ ?body"
    using overwrite_middle [of "replicate 4 0" "native_bytes h 4 ?n" ?z ?body] by simp
  also have "\<dots> = stream e @ cdr_sized (native h) f (eoffset e)"
    using rs(3) by (simp add: cdr_sized_def cdr_seq_def cdr_ulong_def cdr_word_def cdr_pad_def
        native_bytes_order add.assoc)
  finally show ?thesis
    using that [OF wr] ps by (simp add: put_frame)
qed

end
