(* ===== verification/CDR_Decoder.thy ===== *)
theory CDR_Decoder
  imports CDR_Encoder
begin

text \<open>
  \<open>CDRDecoder\<close> (src/corba/cdr.hh, src/corba/cdr.cc): a read offset into a range of bytes
  and the byte order of the stream. \<open>ddata\<close> is the range \<open>[_data, _data + length)\<close>; an
  access beyond it is \<open>BadRead\<close> even where the bytes behind it belong to a bigger buffer.
\<close>

section \<open>State and operations\<close>

record cdr_decoder =
  ddata :: bytes
  m_offset :: nat
  dendian :: endian

type_synonym 'a cdr_reader = "('a, cdr_decoder) reader"

definition dec_init :: "bytes \<Rightarrow> endian \<Rightarrow> cdr_decoder" where
  "dec_init data en = \<lparr>ddata = data, m_offset = 0, dendian = en\<rparr>"

definition dec_of_encoder :: "host \<Rightarrow> cdr_encoder \<Rightarrow> cdr_decoder" where
  "dec_of_encoder h e = dec_init (edata e) (native h)"

definition setLittleEndian :: "bool \<Rightarrow> cdr_decoder \<Rightarrow> cdr_decoder" where
  "setLittleEndian little d = d\<lparr>dendian := (if little then Endian_little else Endian_big)\<rparr>"

definition setOffset :: "nat \<Rightarrow> cdr_decoder \<Rightarrow> cdr_decoder" where
  "setOffset off d = d\<lparr>m_offset := off\<rparr>"

definition dec_skip :: "nat \<Rightarrow> cdr_decoder \<Rightarrow> cdr_decoder" where
  "dec_skip n d = d\<lparr>m_offset := m_offset d + n\<rparr>"

definition dec_align2 :: "cdr_decoder \<Rightarrow> cdr_decoder" where
  "dec_align2 d = d\<lparr>m_offset := align_mask 1 (m_offset d)\<rparr>"

definition dec_align4 :: "cdr_decoder \<Rightarrow> cdr_decoder" where
  "dec_align4 d = d\<lparr>m_offset := align_mask 3 (m_offset d)\<rparr>"

definition dec_align8 :: "cdr_decoder \<Rightarrow> cdr_decoder" where
  "dec_align8 d = d\<lparr>m_offset := align_mask 7 (m_offset d)\<rparr>"

text \<open>The load of \<open>n\<close> bytes through a pointer into the data.\<close>

definition load :: "nat \<Rightarrow> nat \<Rightarrow> bytes cdr_reader" where
  "load n ptr d =
     (if ptr + n \<le> length (ddata d) then Inr (take n (drop ptr (ddata d)), d) else Inl BadRead)"

definition ptr2 :: "nat cdr_reader" where
  "ptr2 d =
     (let d1 = dec_align2 d; ptr = m_offset d1; d2 = dec_skip 2 d1
      in if length (ddata d2) < m_offset d2 then Inl OutOfRange else Inr (ptr, d2))"

definition ptr4 :: "nat cdr_reader" where
  "ptr4 d =
     (let d1 = dec_align4 d; ptr = m_offset d1; d2 = dec_skip 4 d1
      in if length (ddata d2) < m_offset d2 then Inl OutOfRange else Inr (ptr, d2))"

definition ptr8 :: "nat cdr_reader" where
  "ptr8 d =
     (let d1 = dec_align8 d; ptr = m_offset d1; d2 = dec_skip 8 d1
      in if length (ddata d2) < m_offset d2 then Inl OutOfRange else Inr (ptr, d2))"

text \<open>\<open>_data[m_offset]\<close>, then \<open>m_offset += 1\<close>: there is no check.\<close>

definition readOctet :: "byte cdr_reader" where
  "readOctet =
     rd_bind (rd_get m_offset) (\<lambda>off.
     rd_bind (load 1 off) (\<lambda>bs.
     rd_bind (rd_upd (dec_skip 1)) (\<lambda>_.
     rd_return (hd bs))))"

definition readBoolean :: "bool cdr_reader" where
  "readBoolean = rd_bind readOctet (\<lambda>b. rd_return (b \<noteq> 0))"

definition readChar :: "byte cdr_reader" where
  "readChar = readOctet"

definition readEndian :: "unit cdr_reader" where
  "readEndian = rd_bind readOctet (\<lambda>b. rd_upd (setLittleEndian (b AND 1 \<noteq> 0)))"

definition read_ordered :: "host \<Rightarrow> nat \<Rightarrow> nat cdr_reader \<Rightarrow> 'a::len word cdr_reader" where
  "read_ordered h n ptr =
     rd_bind ptr (\<lambda>p.
     rd_bind (load n p) (\<lambda>bs.
     rd_bind (rd_get dendian) (\<lambda>en.
     rd_return (load_ordered h en n bs))))"

definition readUshort :: "host \<Rightarrow> u16 cdr_reader" where
  "readUshort h = read_ordered h 2 ptr2"

definition readUlong :: "host \<Rightarrow> u32 cdr_reader" where
  "readUlong h = read_ordered h 4 ptr4"

definition readUlonglong :: "host \<Rightarrow> u64 cdr_reader" where
  "readUlonglong h = read_ordered h 8 ptr8"

definition readShort :: "host \<Rightarrow> u16 cdr_reader" where
  "readShort h = read_ordered h 2 ptr2"

definition readLong :: "host \<Rightarrow> u32 cdr_reader" where
  "readLong h = read_ordered h 4 ptr4"

definition readLonglong :: "host \<Rightarrow> u64 cdr_reader" where
  "readLonglong h = read_ordered h 8 ptr8"

text \<open>
  \<open>readFloat\<close> and \<open>readDouble\<close> load a floating point value in host order and pass that
  value to \<open>__builtin_bswap32\<close> or \<open>__builtin_bswap64\<close>: the argument is converted to an
  unsigned integer (towards zero, undefined where it does not fit) and the swapped integer
  back to floating point (to nearest, ties to even). The two conversions, for IEEE 754
  formats of \<open>fb\<close> fraction bits and \<open>eb\<close> exponent bits:
\<close>

definition fp_to_uint :: "nat \<Rightarrow> nat \<Rightarrow> nat \<Rightarrow> nat \<Rightarrow> nat option" where
  "fp_to_uint fb eb width bits =
     (let frac = bits mod 2 ^ fb;
          ex = bits div 2 ^ fb mod 2 ^ eb;
          neg = bits div 2 ^ (fb + eb) = 1;
          one = 2 ^ (eb - 1) - 1 + fb;
          m = 2 ^ fb + frac;
          mag = (if ex = 0 then 0
                 else if one \<le> ex then m * 2 ^ (ex - one) else m div 2 ^ (one - ex))
      in if ex = 2 ^ eb - 1 \<or> (neg \<and> mag \<noteq> 0) \<or> 2 ^ width \<le> mag then None else Some mag)"

fun ilog2 :: "nat \<Rightarrow> nat" where
  "ilog2 n = (if n < 2 then 0 else Suc (ilog2 (n div 2)))"

declare ilog2.simps [simp del]

definition uint_to_fp :: "nat \<Rightarrow> nat \<Rightarrow> nat \<Rightarrow> nat" where
  "uint_to_fp fb eb x =
     (if x = 0 then 0
      else let k = ilog2 x; ex = 2 ^ (eb - 1) - 1 + k in
        if k \<le> fb then ex * 2 ^ fb + (x * 2 ^ (fb - k) - 2 ^ fb)
        else let s = k - fb; q = x div 2 ^ s; r = x mod 2 ^ s; half = 2 ^ (s - 1);
                 m = (if half < r \<or> (half = r \<and> odd q) then q + 1 else q)
             in ex * 2 ^ fb + (m - 2 ^ fb))"

definition read_fp :: "host \<Rightarrow> nat \<Rightarrow> nat \<Rightarrow> nat \<Rightarrow> nat cdr_reader \<Rightarrow> 'a::len word cdr_reader" where
  "read_fp h fb eb n ptr =
     rd_bind ptr (\<lambda>p.
     rd_bind (load n p) (\<lambda>bs.
     rd_bind (rd_get dendian) (\<lambda>en.
       (let value = native_word h bs :: 'a word in
        if native h \<noteq> en then
          (case fp_to_uint fb eb (8 * n) (unat value) of
             None \<Rightarrow> rd_throw BadConversion
           | Some x \<Rightarrow>
               rd_return (of_nat (uint_to_fp fb eb (unat (bswap n (of_nat x :: 'a word))))))
        else rd_return value))))"

definition readFloat :: "host \<Rightarrow> u32 cdr_reader" where
  "readFloat h = read_fp h 23 8 4 ptr4"

definition readDouble :: "host \<Rightarrow> u64 cdr_reader" where
  "readDouble h = read_fp h 52 11 8 ptr8"

text \<open>
  The common part of the length-prefixed reads: remember the pointer, advance, check. The
  check precedes every use of the pointer.
\<close>

definition take_range :: "nat \<Rightarrow> nat cdr_reader" where
  "take_range len d =
     (let buffer = m_offset d; d1 = dec_skip len d
      in if length (ddata d1) < m_offset d1 then Inl OutOfRange else Inr (buffer, d1))"

definition readBlob :: "host \<Rightarrow> bytes cdr_reader" where
  "readBlob h =
     rd_bind (readUlong h) (\<lambda>n.
     rd_bind (take_range (unat n)) (\<lambda>buffer.
     load (unat n) buffer))"

definition readBlobView :: "host \<Rightarrow> bytes cdr_reader" where
  "readBlobView h =
     rd_bind (readUlong h) (\<lambda>n.
     rd_bind (take_range (unat n)) (\<lambda>buffer.
     load (unat n) buffer))"

text \<open>
  \<open>std::string(buffer, len - 1)\<close>: with \<open>len = 0\<close> the count is the largest \<open>size_t\<close>
  and the constructor throws \<open>std::length_error\<close>. \<open>std::string_view(buffer, len - 1)\<close>
  does not check: the view would cover the whole address space.
\<close>

definition readStringN :: "nat \<Rightarrow> bytes cdr_reader" where
  "readStringN len =
     rd_bind (take_range len) (\<lambda>buffer.
     if len = 0 then rd_throw LengthError else load (len - 1) buffer)"

definition readStringViewN :: "nat \<Rightarrow> bytes cdr_reader" where
  "readStringViewN len =
     rd_bind (take_range len) (\<lambda>buffer.
     if len = 0 then rd_throw BadRead else load (len - 1) buffer)"

definition readString :: "host \<Rightarrow> bytes cdr_reader" where
  "readString h = rd_bind (readUlong h) (\<lambda>n. readStringN (unat n))"

definition readStringView :: "host \<Rightarrow> bytes cdr_reader" where
  "readStringView h = rd_bind (readUlong h) (\<lambda>n. readStringViewN (unat n))"

text \<open>The sequences of floats are spans over the data: no check and no byte swap.\<close>

fun chunks :: "nat \<Rightarrow> nat \<Rightarrow> bytes \<Rightarrow> bytes list" where
  "chunks n 0 bs = []"
| "chunks n (Suc k) bs = take n bs # chunks n k (drop n bs)"

definition readSequenceSpanFloat :: "host \<Rightarrow> u32 list cdr_reader" where
  "readSequenceSpanFloat h =
     rd_bind (readUlong h) (\<lambda>size.
     rd_bind (rd_get m_offset) (\<lambda>ptr.
     rd_bind (rd_upd (dec_skip (unat size * 4))) (\<lambda>_.
     rd_bind (load (unat size * 4) ptr) (\<lambda>bs.
     rd_return (map (native_word h) (chunks 4 (unat size) bs))))))"

definition readSequenceVectorFloat :: "host \<Rightarrow> u32 list cdr_reader" where
  "readSequenceVectorFloat h = readSequenceSpanFloat h"

definition readSequenceSpanDouble :: "host \<Rightarrow> u64 list cdr_reader" where
  "readSequenceSpanDouble h =
     rd_bind (readUlong h) (\<lambda>size.
     rd_bind (rd_upd dec_align8) (\<lambda>_.
     rd_bind (rd_get m_offset) (\<lambda>ptr.
     rd_bind (rd_upd (dec_skip (unat size * 8))) (\<lambda>_.
     rd_bind (load (unat size * 8) ptr) (\<lambda>bs.
     rd_return (map (native_word h) (chunks 8 (unat size) bs)))))))"

definition readSequenceVectorDouble :: "host \<Rightarrow> u64 list cdr_reader" where
  "readSequenceVectorDouble h = readSequenceSpanDouble h"

text \<open>\<open>operator==\<close> compares lengths and contents, neither offset nor order.\<close>

definition dec_eq :: "cdr_decoder \<Rightarrow> cdr_decoder \<Rightarrow> bool" where
  "dec_eq d rhs =
     (if length (ddata d) \<noteq> length (ddata rhs) then False else ddata d = ddata rhs)"

end
