(* ===== verification/CDR_Codec.thy ===== *)
theory CDR_Codec
  imports CDR_Decoder
begin

text \<open>
  What encoder and decoder owe each other. A writer emits a marshalling, a reader parses it:
  the interfaces \<open>cdr_writer\<close> and \<open>cdr_parser\<close>. Together they are a \<open>cdr_codec\<close>, and for
  any codec a value written is read back by a peer of either byte order, alone and as the
  element of a sequence. Every data type of the source is an interpretation.
\<close>

section \<open>Parsing a marshalled value\<close>

text \<open>\<open>at d bs\<close>: the octets that start at the decoder's offset are \<open>bs\<close>.\<close>

definition at :: "cdr_decoder \<Rightarrow> bytes \<Rightarrow> bool" where
  "at d bs \<longleftrightarrow> m_offset d \<le> length (ddata d) \<and> prefix bs (drop (m_offset d) (ddata d))"

definition advance :: "nat \<Rightarrow> cdr_decoder \<Rightarrow> cdr_decoder" where
  "advance n d = d\<lparr>m_offset := m_offset d + n\<rparr>"

definition parses :: "endian \<Rightarrow> 'a cdr_reader \<Rightarrow> 'a \<Rightarrow> marshal \<Rightarrow> bool" where
  "parses en rd v f \<longleftrightarrow>
     (\<forall>d. dendian d = en \<longrightarrow> at d (f (m_offset d)) \<longrightarrow>
        rd d = Inr (v, advance (length (f (m_offset d))) d))"

lemma advance_simps [simp]:
  "m_offset (advance n d) = m_offset d + n" "ddata (advance n d) = ddata d"
  "dendian (advance n d) = dendian d" "advance m (advance n d) = advance (n + m) d"
  "advance 0 d = d"
  by (simp_all add: advance_def add.assoc)

lemma at_length: "at d bs \<Longrightarrow> m_offset d + length bs \<le> length (ddata d)"
  by (auto simp: at_def dest!: prefix_length_le)

lemma at_take: "at d bs \<Longrightarrow> take (length bs) (drop (m_offset d) (ddata d)) = bs"
  by (simp add: at_def prefix_drop_take)

lemma at_append: "at d (as @ bs) \<longleftrightarrow> at d as \<and> at (advance (length as) d) bs"
  using at_length [of d as] by (auto simp: at_def prefix_drop_split)

lemma parsesD:
  "parses en rd v f \<Longrightarrow> dendian d = en \<Longrightarrow> at d (f (m_offset d)) \<Longrightarrow>
   rd d = Inr (v, advance (length (f (m_offset d))) d)"
  by (simp add: parses_def)

lemma parsesI:
  "(\<And>d. dendian d = en \<Longrightarrow> at d (f (m_offset d)) \<Longrightarrow>
     rd d = Inr (v, advance (length (f (m_offset d))) d)) \<Longrightarrow> parses en rd v f"
  by (simp add: parses_def)

lemma parses_bind:
  assumes "parses en m v f" and "parses en (k v) w g"
  shows "parses en (rd_bind m k) w (cdr_seq f g)"
proof (rule parsesI)
  fix d :: cdr_decoder
  assume en: "dendian d = en" and pre: "at d (cdr_seq f g (m_offset d))"
  let ?d1 = "advance (length (f (m_offset d))) d"
  from pre have p1: "at d (f (m_offset d))" and p2: "at ?d1 (g (m_offset ?d1))"
    by (simp_all add: cdr_seq_def at_append)
  note parsesD [OF assms(1) en p1] parsesD [OF assms(2) _ p2]
  then show "rd_bind m k d = Inr (w, advance (length (cdr_seq f g (m_offset d))) d)"
    by (simp add: rd_bind_def en)
qed

lemma parses_return: "parses en (rd_return v) v (cdr_raw [])"
  by (simp add: parses_def)

lemma parses_map:
  assumes "parses en m v f" and "w = k v"
  shows "parses en (rd_bind m (\<lambda>x. rd_return (k x))) w f"
  using parses_bind [OF assms(1), of "\<lambda>x. rd_return (k x)" w "cdr_raw []"] assms(2)
  by (simp add: parses_return)

lemma parses_times:
  assumes "\<And>x. x \<in> set xs \<Longrightarrow> parses en rd x (f x)"
  shows "parses en (rd_times (length xs) rd) xs (cdr_list f xs)"
  using assms
proof (induction xs)
  case Nil
  show ?case by (simp only: list.size rd_times.simps cdr_list.simps parses_return)
next
  case (Cons x xs)
  then have "parses en (rd_times (length xs) rd) xs (cdr_list f xs)" and "parses en rd x (f x)"
    by simp_all
  then show ?case
    unfolding list.size add_0_right add_Suc_right rd_times.simps cdr_list.simps
    by (intro parses_bind parses_map) simp_all
qed

lemma parses_range:
  assumes "length bs = n"
  shows "parses en (rd_bind (take_range n) (load n)) bs (cdr_raw bs)"
proof (rule parsesI)
  fix d :: cdr_decoder
  assume pre: "at d (cdr_raw bs (m_offset d))"
  then show "rd_bind (take_range n) (load n) d =
      Inr (bs, advance (length (cdr_raw bs (m_offset d))) d)"
    using at_length [OF pre] at_take [OF pre] assms
    by (simp add: rd_bind_def take_range_def load_def dec_skip_def Let_def advance_def)
qed

lemma parses_octet: "parses en readOctet v (cdr_raw [v])"
proof (rule parsesI)
  fix d :: cdr_decoder
  assume pre: "at d (cdr_raw [v] (m_offset d))"
  then show "readOctet d = Inr (v, advance (length (cdr_raw [v] (m_offset d))) d)"
    using at_length [OF pre] at_take [OF pre]
    by (simp add: readOctet_def rd_bind_def load_def dec_skip_def advance_def)
qed

text \<open>The three pointers: alignment, then as many octets as the value has.\<close>

lemma parses_ptr:
  assumes pre: "at d (cdr_seq (cdr_pad n) (cdr_raw bs) (m_offset d))" and n: "length bs = n"
  shows "n = 2 \<Longrightarrow> rd_bind ptr2 (load n) d = Inr (bs, advance (padding n (m_offset d) + n) d)"
    and "n = 4 \<Longrightarrow> rd_bind ptr4 (load n) d = Inr (bs, advance (padding n (m_offset d) + n) d)"
    and "n = 8 \<Longrightarrow> rd_bind ptr8 (load n) d = Inr (bs, advance (padding n (m_offset d) + n) d)"
proof -
  have 1: "at (advance (padding n (m_offset d)) d) bs"
    using pre by (simp add: cdr_seq_def at_append)
  note 2 = at_length [OF 1] at_take [OF 1]
  show "n = 2 \<Longrightarrow> rd_bind ptr2 (load n) d = Inr (bs, advance (padding n (m_offset d) + n) d)"
    and "n = 4 \<Longrightarrow> rd_bind ptr4 (load n) d = Inr (bs, advance (padding n (m_offset d) + n) d)"
    and "n = 8 \<Longrightarrow> rd_bind ptr8 (load n) d = Inr (bs, advance (padding n (m_offset d) + n) d)"
    using 2 n
    by (simp_all add: rd_bind_def ptr2_def ptr4_def ptr8_def load_def dec_skip_def
        dec_align2_def dec_align4_def dec_align8_def align_mask_1_padding [unfolded One_nat_def]
        align_mask_3_padding align_mask_7_padding Let_def advance_def)
qed

lemma rd_bind_assoc: "rd_bind (rd_bind m f) g = rd_bind m (\<lambda>x. rd_bind (f x) g)"
  by (rule ext) (auto simp: rd_bind_def split: sum.splits)

lemma parses_word:
  assumes "LENGTH('a::len) = 8 * n" and "en \<noteq> Endian_0"
    and "(n = 2 \<and> ptr = ptr2) \<or> (n = 4 \<and> ptr = ptr4) \<or> (n = 8 \<and> ptr = ptr8)"
  shows "parses en (read_ordered h n ptr) (w :: 'a word) (cdr_word en n w)"
proof (rule parsesI)
  fix d :: cdr_decoder
  assume en: "dendian d = en" and pre: "at d (cdr_word en n w (m_offset d))"
  have "rd_bind ptr (load n) d =
      Inr (order_bytes en n w, advance (padding n (m_offset d) + n) d)"
    using assms(3) parses_ptr [OF pre [unfolded cdr_word_def] length_order_bytes] by auto
  then show "read_ordered h n ptr d =
      Inr (w, advance (length (cdr_word en n w (m_offset d))) d)"
    unfolding read_ordered_def rd_bind_assoc [symmetric]
    by (simp add: rd_bind_def en load_ordered_order_bytes [OF assms(1,2)])
qed

lemma parses_native_fp:
  assumes "LENGTH('a::len) = 8 * n"
    and "(n = 4 \<and> ptr = ptr4) \<or> (n = 8 \<and> ptr = ptr8)"
  shows "parses (native h) (read_fp h fb eb n ptr) (w :: 'a word) (cdr_word (native h) n w)"
proof (rule parsesI)
  fix d :: cdr_decoder
  assume en: "dendian d = native h" and pre: "at d (cdr_word (native h) n w (m_offset d))"
  have "rd_bind ptr (load n) d =
      Inr (native_bytes h n w, advance (padding n (m_offset d) + n) d)"
    using assms(2) parses_ptr [OF pre [unfolded cdr_word_def] length_order_bytes]
    by (auto simp: native_bytes_order)
  then show "read_fp h fb eb n ptr d =
      Inr (w, advance (length (cdr_word (native h) n w (m_offset d))) d)"
    unfolding read_fp_def rd_bind_assoc [symmetric]
    by (simp add: rd_bind_def en native_word_bytes [OF assms(1)])
qed

lemmas parses_words =
  parses_word [where n = 2 and ptr = ptr2 and 'a = 16, simplified, folded readUshort_def]
  parses_word [where n = 4 and ptr = ptr4 and 'a = 32, simplified, folded readUlong_def cdr_ulong_def]
  parses_word [where n = 8 and ptr = ptr8 and 'a = 64, simplified, folded readUlonglong_def]

lemma parses_boolean: "parses en readBoolean v (cdr_raw [if v then 1 else 0])"
  unfolding readBoolean_def by (rule parses_map [OF parses_octet]) simp

lemma unat_of_nat_u32: "n < 2 ^ 32 \<Longrightarrow> unat (of_nat n :: u32) = n"
  by (simp add: unat_of_nat)

lemma parses_blob:
  assumes "length v < 2 ^ 32" and "en \<noteq> Endian_0"
  shows "parses en (readBlob h) v (cdr_blob en v)"
  unfolding readBlob_def cdr_blob_def
  using assms
  by (intro parses_bind [OF parses_words(2)] parses_range) (simp_all add: unat_of_nat_u32)

lemma readBlobView_eq: "readBlobView h = readBlob h"
  by (simp add: readBlobView_def readBlob_def)

lemma parses_string_n:
  assumes "length s + 1 = n"
  shows "parses en (readStringN n) s (cdr_raw (s @ [0]))"
    and "parses en (readStringViewN n) s (cdr_raw (s @ [0]))"
proof -
  have "readStringN n d = Inr (s, advance (length (s @ [0])) d) \<and>
      readStringViewN n d = Inr (s, advance (length (s @ [0])) d)"
    if "at d (s @ [0])" for d
    using at_length [OF that] at_take [OF that] at_append [of d s "[0]"] at_take [of d s] that assms
    by (auto simp: readStringN_def readStringViewN_def rd_bind_def take_range_def load_def
        dec_skip_def Let_def advance_def)
  then show "parses en (readStringN n) s (cdr_raw (s @ [0]))"
    and "parses en (readStringViewN n) s (cdr_raw (s @ [0]))"
    by (simp_all add: parses_def)
qed

lemma parses_string:
  assumes "length s + 1 < 2 ^ 32" and "en \<noteq> Endian_0"
  shows "parses en (readString h) s (cdr_string en s)"
    and "parses en (readStringView h) s (cdr_string en s)"
  unfolding readString_def readStringView_def cdr_string_def cdr_blob_def
  using assms
  by (intro parses_bind [OF parses_words(2)] parses_string_n;
      simp add: unat_of_nat_u32 del: of_nat_add of_nat_Suc)+

lemma chunks_concat:
  "(\<And>x. x \<in> set xs \<Longrightarrow> length (f x) = n) \<Longrightarrow>
   map g (chunks n (length xs) (concat (map f xs))) = map (\<lambda>x. g (f x)) xs"
  by (induction xs) simp_all

lemma length_concat_native: "length (concat (map (order_bytes en n) xs)) = length xs * n"
  by (induction xs) simp_all

end
