(* ===== verification/CDR_Contracts.thy ===== *)
theory CDR_Contracts
  imports CDR_Codec
begin

text \<open>
  The contracts between encoder and decoder as locales, their interpretations for the types
  of the source, and the bounds every read keeps.
\<close>

section \<open>Writer, parser, codec\<close>

lemma emits_all:
  assumes "\<And>x. x \<in> set xs \<Longrightarrow> emits (wr x) (fmt x)"
  shows "emits (fold wr xs) (cdr_list fmt xs)"
  using assms
proof (induction xs)
  case Nil
  show ?case using emits_id by (simp only: fold_simps cdr_list.simps id_def)
next
  case (Cons x xs)
  from emits_comp [OF Cons.prems Cons.IH, of x] Cons.prems show ?case by (simp add: comp_def)
qed

locale cdr_writer =
  fixes wr :: "'a \<Rightarrow> cdr_encoder \<Rightarrow> cdr_encoder"
    and fmt :: "'a \<Rightarrow> marshal"
  assumes writes: "emits (wr v) (fmt v)"
begin

lemma write_stream:
  "append_mode e \<Longrightarrow> stream (wr v e) = stream e @ fmt v (eoffset e)"
  by (rule emitsD(2) [OF writes])

lemma write_offset:
  "append_mode e \<Longrightarrow> eoffset (wr v e) = eoffset e + length (fmt v (eoffset e))"
  by (rule emitsD(4) [OF writes])

lemma write_append_mode: "append_mode e \<Longrightarrow> append_mode (wr v e)"
  by (rule emitsD(1) [OF writes])

text \<open>What was in the stream stays there, whatever is written after it.\<close>

lemma write_keeps: "append_mode e \<Longrightarrow> prefix (stream e) (stream (wr v e))"
  by (simp add: write_stream)

lemma write_all: "emits (fold wr xs) (cdr_list fmt xs)"
  by (rule emits_all [OF writes])

end

locale cdr_parser =
  fixes rd :: "'a cdr_reader"
    and fmt :: "'a \<Rightarrow> marshal"
    and en :: endian
    and ok :: "'a \<Rightarrow> bool"
  assumes parses_fmt: "ok v \<Longrightarrow> parses en rd v (fmt v)"
begin

lemma parse_all:
  "\<forall>x\<in>set xs. ok x \<Longrightarrow> parses en (rd_times (length xs) rd) xs (cdr_list fmt xs)"
  by (intro parses_times parses_fmt) simp

end

text \<open>A decoder at offset \<open>off\<close> of data that a host \<open>hw\<close> has written.\<close>

definition reader_of :: "host \<Rightarrow> nat \<Rightarrow> bytes \<Rightarrow> cdr_decoder" where
  "reader_of hw off data = \<lparr>ddata = data, m_offset = off, dendian = native hw\<rparr>"

text \<open>
  \<open>hw\<close> is the host that writes; the decoder has been told its byte order. \<open>ok\<close> bounds the
  values whose length the 32-bit length field can hold.
\<close>

locale cdr_codec = cdr_writer wr fmt + cdr_parser rd fmt "native hw" ok
  for wr :: "'a \<Rightarrow> cdr_encoder \<Rightarrow> cdr_encoder" and fmt :: "'a \<Rightarrow> marshal"
    and rd :: "'a cdr_reader" and hw :: host and ok :: "'a \<Rightarrow> bool"
begin

lemma write_read:
  assumes e: "append_mode e" and v: "ok v"
    and d: "dendian d = native hw" "m_offset d = eoffset e" "m_offset d \<le> length (ddata d)"
    and data: "prefix (drop (eoffset e) (stream (wr v e))) (drop (eoffset e) (ddata d))"
  shows "rd d = Inr (v, d\<lparr>m_offset := eoffset (wr v e)\<rparr>)"
proof -
  have "drop (eoffset e) (stream (wr v e)) = fmt v (m_offset d)"
    using d(2) length_stream [OF e] by (simp add: write_stream [OF e])
  then have "at d (fmt v (m_offset d))"
    using data d by (simp add: at_def)
  from parsesD [OF parses_fmt [OF v] d(1) this] show ?thesis
    using d(2) by (simp add: write_offset [OF e] advance_def)
qed

lemma write_read_tail:
  assumes "append_mode e" and "ok v"
  shows "rd (reader_of hw (eoffset e) (stream (wr v e) @ tail)) =
    Inr (v, reader_of hw (eoffset (wr v e)) (stream (wr v e) @ tail))"
  using write_read [OF assms, of "reader_of hw (eoffset e) (stream (wr v e) @ tail)"]
    length_stream [OF assms(1)]
  by (simp add: reader_of_def write_stream [OF assms(1)])

text \<open>The whole buffer handed to a decoder that starts at the beginning.\<close>

lemma write_read_fresh:
  assumes "ok v"
  shows "\<exists>d. rd (dec_init (edata (reserve_all (wr v enc_init))) (native hw)) = Inr (v, d)"
proof -
  have am: "append_mode (wr v enc_init)" by (rule write_append_mode) simp
  have "eoffset enc_init = 0" by (simp add: enc_init_def)
  then show ?thesis
    using write_read [of enc_init v "dec_init (edata (reserve_all (wr v enc_init))) (native hw)"]
      assms
    by (simp add: dec_init_def edata_reserve_all [OF am])
qed

end

section \<open>Sequences\<close>

text \<open>\<open>GIOPEncoder::writeSequence<T>\<close> and \<open>GIOPDecoder::readSequence<T>\<close> (src/corba/giop.hh).\<close>

definition writeSequence ::
    "host \<Rightarrow> ('a \<Rightarrow> cdr_encoder \<Rightarrow> cdr_encoder) \<Rightarrow> 'a list \<Rightarrow> cdr_encoder \<Rightarrow> cdr_encoder" where
  "writeSequence h writeElement value e =
     fold writeElement value (writeUlong h (of_nat (length value)) e)"

definition readSequence :: "host \<Rightarrow> 'a cdr_reader \<Rightarrow> 'a list cdr_reader" where
  "readSequence h readElement =
     rd_bind (readUlong h) (\<lambda>size. rd_times (unat size) readElement)"

definition cdr_sequence :: "endian \<Rightarrow> ('a \<Rightarrow> marshal) \<Rightarrow> 'a list \<Rightarrow> marshal" where
  "cdr_sequence en fmt xs = cdr_seq (cdr_ulong en (of_nat (length xs))) (cdr_list fmt xs)"

definition sequence_ok :: "('a \<Rightarrow> bool) \<Rightarrow> 'a list \<Rightarrow> bool" where
  "sequence_ok ok xs \<longleftrightarrow> length xs < 2 ^ 32 \<and> list_all ok xs"

lemma emits_elements:
  assumes "\<And>x. x \<in> set xs \<Longrightarrow> emits (wr x) (fmt x)"
  shows "emits (writeSequence h wr xs) (cdr_sequence (native h) fmt xs)"
  unfolding cdr_sequence_def
  by (rule emits_cong [OF emits_comp [OF emits_word(2) emits_all [OF assms]] _ refl]) (simp_all add: writeSequence_def)

lemma parses_elements:
  assumes "\<And>x. x \<in> set xs \<Longrightarrow> parses en rd x (fmt x)" and "length xs < 2 ^ 32" and "en \<noteq> Endian_0"
  shows "parses en (readSequence h rd) xs (cdr_sequence en fmt xs)"
  unfolding readSequence_def cdr_sequence_def
  by (intro parses_bind [OF parses_words(2)]) (use assms in \<open>simp_all add: unat_of_nat_u32 parses_times\<close>)

text \<open>The sequences over a codec are a codec again, and so are sequences of sequences.\<close>

locale cdr_element = element: cdr_codec wr fmt rd hw ok
  for wr :: "'a \<Rightarrow> cdr_encoder \<Rightarrow> cdr_encoder" and fmt :: "'a \<Rightarrow> marshal"
    and rd :: "'a cdr_reader" and hw :: host and ok :: "'a \<Rightarrow> bool" +
  fixes hr :: host

sublocale cdr_element \<subseteq> cdr_codec "writeSequence hw wr" "cdr_sequence (native hw) fmt"
    "readSequence hr rd" hw "sequence_ok ok"
proof unfold_locales
  fix v :: "'a list"
  show "emits (writeSequence hw wr v) (cdr_sequence (native hw) fmt v)"
    by (rule emits_elements [OF element.writes])
  assume "sequence_ok ok v"
  then show "parses (native hw) (readSequence hr rd) v (cdr_sequence (native hw) fmt v)"
    by (intro parses_elements element.parses_fmt) (auto simp: sequence_ok_def list_all_iff)
qed

section \<open>The codecs of the source\<close>

interpretation boolean: cdr_codec writeBoolean "\<lambda>v. cdr_raw [if v then 1 else 0]" readBoolean
    hw "\<lambda>_. True" for hw
  by unfold_locales (rule emits_boolean, rule parses_boolean)

interpretation octet: cdr_codec writeOctet "\<lambda>v. cdr_raw [v]" readOctet hw "\<lambda>_. True" for hw
  by unfold_locales (auto intro: emits_octet parses_octet)

interpretation ushort: cdr_codec "writeUshort hw" "cdr_word (native hw) 2" "readUshort hr"
    hw "\<lambda>_. True" for hw hr
  by unfold_locales (simp_all add: emits_word parses_words)

interpretation ulong: cdr_codec "writeUlong hw" "cdr_ulong (native hw)" "readUlong hr"
    hw "\<lambda>_. True" for hw hr
  by unfold_locales (simp_all add: emits_word parses_words)

interpretation ulonglong: cdr_codec "writeUlonglong hw" "cdr_word (native hw) 8"
    "readUlonglong hr" hw "\<lambda>_. True" for hw hr
  by unfold_locales (simp_all add: emits_word parses_words)

lemma signed_read_eq:
  "readShort h = readUshort h" "readLong h = readUlong h" "readLonglong h = readUlonglong h"
  by (simp_all add: readShort_def readUshort_def readLong_def readUlong_def readLonglong_def
      readUlonglong_def)

interpretation short: cdr_codec "writeShort hw" "cdr_word (native hw) 2" "readShort hr"
    hw "\<lambda>_. True" for hw hr
  by unfold_locales (simp_all add: emits_word parses_words signed_read_eq)

interpretation long: cdr_codec "writeLong hw" "cdr_ulong (native hw)" "readLong hr"
    hw "\<lambda>_. True" for hw hr
  by unfold_locales (simp_all add: emits_word [folded cdr_ulong_def] parses_words signed_read_eq)

interpretation longlong: cdr_codec "writeLonglong hw" "cdr_word (native hw) 8" "readLonglong hr"
    hw "\<lambda>_. True" for hw hr
  by unfold_locales (simp_all add: emits_word parses_words signed_read_eq)

text \<open>Floating point values travel between hosts of the same byte order.\<close>

interpretation float: cdr_codec "writeFloat hw" "cdr_word (native hw) 4" "readFloat hw"
    hw "\<lambda>_. True" for hw
  by unfold_locales (simp_all add: emits_word readFloat_def parses_native_fp)

interpretation double: cdr_codec "writeDouble hw" "cdr_word (native hw) 8" "readDouble hw"
    hw "\<lambda>_. True" for hw
  by unfold_locales (simp_all add: emits_word readDouble_def parses_native_fp)

interpretation blob: cdr_codec "writeBlob hw" "cdr_blob (native hw)" "readBlob hr"
    hw "\<lambda>v. length v < 2 ^ 32" for hw hr
  by unfold_locales (auto intro: emits_blob parses_blob)

interpretation string: cdr_codec "writeString hw" "cdr_string (native hw)" "readString hr"
    hw "\<lambda>s. length s + 1 < 2 ^ 32" for hw hr
  by unfold_locales (auto intro: emits_string parses_string)

interpretation string_view: cdr_codec "writeString hw" "cdr_string (native hw)"
    "readStringView hr" hw "\<lambda>s. length s + 1 < 2 ^ 32" for hw hr
  by unfold_locales (auto intro: emits_string parses_string)

interpretation string_seq: cdr_element "writeString hw" "cdr_string (native hw)"
    "readString hr" hw "\<lambda>s. length s + 1 < 2 ^ 32" hr for hw hr
  by unfold_locales

interpretation blob_seq: cdr_element "writeBlob hw" "cdr_blob (native hw)" "readBlob hr"
    hw "\<lambda>v. length v < 2 ^ 32" hr for hw hr
  by unfold_locales

interpretation ulong_seq: cdr_element "writeUlong hw" "cdr_ulong (native hw)" "readUlong hr"
    hw "\<lambda>_. True" hr for hw hr
  by unfold_locales

interpretation string_seq_seq: cdr_element "writeSequence hw (writeString hw)"
    "cdr_sequence (native hw) (cdr_string (native hw))" "readSequence hr (readString hr)"
    hw "sequence_ok (\<lambda>s. length s + 1 < 2 ^ 32)" hr for hw hr
  by unfold_locales

text \<open>
  The packed sequences of floating point values are copied without a byte swap: again for
  hosts of one order.
\<close>

lemma parses_packed:
  assumes "length xs < 2 ^ 32" and "LENGTH('a::len) = 8 * n"
  shows "parses en
     (rd_bind (rd_get m_offset) (\<lambda>ptr.
      rd_bind (rd_upd (dec_skip (length xs * n))) (\<lambda>_.
      rd_bind (load (length xs * n) ptr) (\<lambda>bs.
      rd_return (map (native_word h) (chunks n (length xs) bs))))))
     (xs :: 'a word list) (cdr_raw (concat (map (order_bytes (native h) n) xs)))"
proof (rule parsesI)
  fix d :: cdr_decoder
  let ?bs = "concat (map (order_bytes (native h) n) xs)"
  assume "at d (cdr_raw ?bs (m_offset d))"
  then have pre: "at d ?bs" by simp
  have "map (native_word h) (chunks n (length xs) ?bs) = xs"
    by (simp add: chunks_concat native_bytes_order [symmetric] native_word_bytes [OF assms(2)])
  moreover have "take (length xs * n) (drop (m_offset d) (ddata d)) = ?bs"
    using at_take [OF pre] by (simp only: length_concat_native)
  moreover have "m_offset d + length xs * n \<le> length (ddata d)"
    using at_length [OF pre] by (simp only: length_concat_native)
  ultimately show "rd_bind (rd_get m_offset) (\<lambda>ptr.
      rd_bind (rd_upd (dec_skip (length xs * n))) (\<lambda>_.
      rd_bind (load (length xs * n) ptr) (\<lambda>bs.
      rd_return (map (native_word h) (chunks n (length xs) bs))))) d =
      Inr (xs, advance (length (cdr_raw ?bs (m_offset d))) d)"
    by (simp add: rd_bind_def load_def dec_skip_def advance_def length_concat_native)
qed

lemma parses_sequence_float:
  assumes "length xs < 2 ^ 32"
  shows "parses (native h) (readSequenceSpanFloat h) xs
     (cdr_seq (cdr_ulong (native h) (of_nat (length xs)))
       (cdr_raw (concat (map (order_bytes (native h) 4) xs))))"
  unfolding readSequenceSpanFloat_def
  by (rule parses_bind [OF parses_words(2)])
     (use assms parses_packed [of xs 4 "native h" h] in \<open>simp_all add: unat_of_nat_u32\<close>)

interpretation sequence_float: cdr_codec "writeSequenceFloat hw"
    "\<lambda>xs. cdr_seq (cdr_ulong (native hw) (of_nat (length xs)))
       (cdr_raw (concat (map (order_bytes (native hw) 4) xs)))"
    "readSequenceVectorFloat hw" hw "\<lambda>xs. length xs < 2 ^ 32" for hw
  by unfold_locales
     (simp_all add: emits_sequence_float readSequenceVectorFloat_def parses_sequence_float)

lemma parses_align8: "parses en (rd_upd dec_align8) () (cdr_pad 8)"
  by (rule parsesI) (simp add: dec_align8_def align_mask_7_padding advance_def)

lemma parses_sequence_double:
  assumes "length xs < 2 ^ 32"
  shows "parses (native h) (readSequenceSpanDouble h) xs
     (cdr_seq (cdr_ulong (native h) (of_nat (length xs)))
       (cdr_seq (cdr_pad 8) (cdr_raw (concat (map (order_bytes (native h) 8) xs)))))"
  unfolding readSequenceSpanDouble_def
  by (rule parses_bind [OF parses_words(2)], simp, rule parses_bind [OF parses_align8])
     (use assms parses_packed [of xs 8 "native h" h] in \<open>simp_all add: unat_of_nat_u32\<close>)

interpretation sequence_double: cdr_codec "writeSequenceDouble hw"
    "\<lambda>xs. cdr_seq (cdr_ulong (native hw) (of_nat (length xs)))
       (cdr_seq (cdr_pad 8) (cdr_raw (concat (map (order_bytes (native hw) 8) xs))))"
    "readSequenceVectorDouble hw" hw "\<lambda>xs. length xs < 2 ^ 32" for hw
  by unfold_locales
     (simp_all add: emits_sequence_double readSequenceVectorDouble_def parses_sequence_double)

section \<open>Bounds of the reads\<close>

text \<open>
  \<open>defined\<close>: a read ends in a value or a C++ exception, never in undefined behaviour.
  \<open>within\<close>: a read that returns has not changed the data and leaves the offset between
  where it was and the end of the data.
\<close>

definition defined :: "'a cdr_reader \<Rightarrow> bool" where
  "defined rd \<longleftrightarrow> (\<forall>d err. rd d = Inl err \<longrightarrow> \<not> undefined_behaviour err)"

definition within :: "'a cdr_reader \<Rightarrow> bool" where
  "within rd \<longleftrightarrow>
     (\<forall>d v d'. rd d = Inr (v, d') \<longrightarrow>
        ddata d' = ddata d \<and> m_offset d \<le> m_offset d' \<and> m_offset d' \<le> length (ddata d))"

lemma defined_bind:
  assumes "defined m" and "\<And>v d d'. m d = Inr (v, d') \<Longrightarrow>
     (\<forall>err. k v d' = Inl err \<longrightarrow> \<not> undefined_behaviour err)"
  shows "defined (rd_bind m k)"
  using assms by (auto simp: defined_def rd_bind_eq_Inl)

lemma within_bind:
  assumes "within m" and "\<And>v. within (k v)"
  shows "within (rd_bind m k)"
  using assms by (fastforce simp: within_def rd_bind_eq_Inr)

lemma ptr_load:
  "rd_bind ptr2 (load 2) d = (if length (ddata d) < m_offset (dec_align2 d) + 2 then Inl OutOfRange
     else Inr (take 2 (drop (m_offset (dec_align2 d)) (ddata d)), dec_skip 2 (dec_align2 d)))"
  "rd_bind ptr4 (load 4) d = (if length (ddata d) < m_offset (dec_align4 d) + 4 then Inl OutOfRange
     else Inr (take 4 (drop (m_offset (dec_align4 d)) (ddata d)), dec_skip 4 (dec_align4 d)))"
  "rd_bind ptr8 (load 8) d = (if length (ddata d) < m_offset (dec_align8 d) + 8 then Inl OutOfRange
     else Inr (take 8 (drop (m_offset (dec_align8 d)) (ddata d)), dec_skip 8 (dec_align8 d)))"
  by (auto simp: rd_bind_def ptr2_def ptr4_def ptr8_def load_def dec_skip_def dec_align2_def
      dec_align4_def dec_align8_def Let_def)

lemma dec_align_offset:
  "m_offset d \<le> m_offset (dec_align2 d)" "m_offset d \<le> m_offset (dec_align4 d)"
  "m_offset d \<le> m_offset (dec_align8 d)"
  "ddata (dec_align2 d) = ddata d" "ddata (dec_align4 d) = ddata d" "ddata (dec_align8 d) = ddata d"
  by (simp_all add: dec_align2_def dec_align4_def dec_align8_def align_mask_3_padding
      align_mask_7_padding align_mask_1_padding [unfolded One_nat_def])

lemma word_reads_safe:
  "defined (readUshort h)" "defined (readUlong h)" "defined (readUlonglong h)"
  "within (readUshort h)" "within (readUlong h)" "within (readUlonglong h)"
proof -
  have 1: "readUshort h = rd_bind (rd_bind ptr2 (load 2)) (\<lambda>bs. rd_bind (rd_get dendian)
      (\<lambda>en. rd_return (load_ordered h en 2 bs)))"
    and 2: "readUlong h = rd_bind (rd_bind ptr4 (load 4)) (\<lambda>bs. rd_bind (rd_get dendian)
      (\<lambda>en. rd_return (load_ordered h en 4 bs)))"
    and 3: "readUlonglong h = rd_bind (rd_bind ptr8 (load 8)) (\<lambda>bs. rd_bind (rd_get dendian)
      (\<lambda>en. rd_return (load_ordered h en 8 bs)))"
    by (simp_all add: readUshort_def readUlong_def readUlonglong_def read_ordered_def rd_bind_assoc)
  show "defined (readUshort h)" "defined (readUlong h)" "defined (readUlonglong h)"
    unfolding 1 2 3 by (auto simp: defined_def rd_bind_eq_Inl ptr_load rd_bind_def [of "rd_get dendian"])
  show "within (readUshort h)" "within (readUlong h)" "within (readUlonglong h)"
    unfolding 1 2 3
    using dec_align_offset
    by (auto simp: within_def rd_bind_eq_Inr ptr_load dec_skip_def rd_bind_def [of "rd_get dendian"]
        intro: le_trans trans_le_add1 le_SucI split: if_splits)
qed

lemma take_range_safe:
  assumes "\<And>buffer d. buffer + n \<le> length (ddata d) \<Longrightarrow> m_offset d = buffer + n \<Longrightarrow>
     (\<forall>err. k buffer d = Inl err \<longrightarrow> \<not> undefined_behaviour err) \<and>
     (\<forall>v d'. k buffer d = Inr (v, d') \<longrightarrow> d' = d)"
  shows "defined (rd_bind (take_range n) k)" and "within (rd_bind (take_range n) k)"
proof -
  have "(rd_bind (take_range n) k d = Inl err \<longrightarrow> \<not> undefined_behaviour err) \<and>
      (rd_bind (take_range n) k d = Inr (v, d') \<longrightarrow> d' = dec_skip n d \<and> m_offset d + n \<le> length (ddata d))"
    for d d' v err
    using assms [of "m_offset d" "dec_skip n d"]
    by (auto simp: rd_bind_def take_range_def Let_def dec_skip_def not_less)
  then show "defined (rd_bind (take_range n) k)" and "within (rd_bind (take_range n) k)"
    by (fastforce simp: defined_def within_def dec_skip_def)+
qed

lemma range_reads_safe:
  "defined (rd_bind (take_range n) (load n))" "within (rd_bind (take_range n) (load n))"
  "defined (readStringN n)" "within (readStringN n)"
  unfolding readStringN_def
  by (rule take_range_safe; auto simp: load_def split: if_splits)+

lemma within_string_view: "within (readStringViewN n)"
  by (auto simp: readStringViewN_def within_def rd_bind_eq_Inr take_range_def load_def Let_def
      dec_skip_def split: if_splits)

lemma defined_bind_defined:
  "defined m \<Longrightarrow> (\<And>v. defined (k v)) \<Longrightarrow> defined (rd_bind m k)"
  by (auto simp: defined_def rd_bind_eq_Inl)

lemma sized_reads_safe:
  "defined (readBlob h)" "within (readBlob h)"
  "defined (readString h)" "within (readString h)" "within (readStringView h)"
  unfolding readBlob_def readString_def readStringView_def
  by (intro defined_bind_defined within_bind word_reads_safe range_reads_safe within_string_view)+

lemma within_octet: "within readOctet"
  by (auto simp: within_def readOctet_def rd_bind_eq_Inr load_def dec_skip_def split: if_splits)

lemma readOctet_cases:
  "readOctet d = (if m_offset d < length (ddata d)
     then Inr (ddata d ! m_offset d, dec_skip 1 d) else Inl BadRead)"
  by (auto simp: readOctet_def rd_bind_def load_def hd_drop_conv_nth
      take_Suc hd_conv_nth less_eq_Suc_le)

end
