(* ===== verification/CDR_Properties.thy ===== *)
theory CDR_Properties
  imports CDR_Contracts
begin

text \<open>
  The properties of the CDR layer, read off the interpretations of the codec contract and the
  bounds of the reads.
\<close>

section \<open>Values across hosts\<close>

text \<open>Integers of every width, written at any offset by a host of either byte order, are read
  back by a host of either byte order, which ends up where the writer did.\<close>

theorem integers_roundtrip:
  assumes "append_mode e"
  shows "readUshort hr (reader_of hw (eoffset e) (stream (writeUshort hw v2 e) @ tail)) =
      Inr (v2, reader_of hw (eoffset (writeUshort hw v2 e)) (stream (writeUshort hw v2 e) @ tail)) \<and>
    readUlong hr (reader_of hw (eoffset e) (stream (writeUlong hw v4 e) @ tail)) =
      Inr (v4, reader_of hw (eoffset (writeUlong hw v4 e)) (stream (writeUlong hw v4 e) @ tail)) \<and>
    readUlonglong hr (reader_of hw (eoffset e) (stream (writeUlonglong hw v8 e) @ tail)) =
      Inr (v8, reader_of hw (eoffset (writeUlonglong hw v8 e)) (stream (writeUlonglong hw v8 e) @ tail))"
  using assms
  by (intro conjI ushort.write_read_tail ulong.write_read_tail ulonglong.write_read_tail) simp_all

theorem integers_roundtrip_witness:
  "readUshort BE (reader_of LE 1 (stream (writeUshort LE 513 (writeOctet 9 enc_init)) @ [5])) =
      Inr (513, reader_of LE 4 (stream (writeUshort LE 513 (writeOctet 9 enc_init)) @ [5]))"
proof -
  have "append_mode (writeOctet 9 enc_init)" by (rule emitsD(1) [OF emits_octet]) simp
  then have "readUshort BE (reader_of LE (eoffset (writeOctet 9 enc_init))
      (stream (writeUshort LE 513 (writeOctet 9 enc_init)) @ [5])) =
      Inr (513, reader_of LE (eoffset (writeUshort LE 513 (writeOctet 9 enc_init)))
        (stream (writeUshort LE 513 (writeOctet 9 enc_init)) @ [5]))"
    by (blast dest: integers_roundtrip)
  moreover have "eoffset (writeOctet 9 enc_init) = 1"
    "eoffset (writeUshort LE 513 (writeOctet 9 enc_init)) = 4"
    by (simp_all add: writeOctet_def writeUshort_def put_frame enc_init_def enc_align2_def
        align_mask2_padding padding_def)
  ultimately show ?thesis by simp
qed

text \<open>A string written at any offset by a host of either byte order is read back by a host
  of either byte order, as a copy and as a view, up to the limit of its 32 bit length field.\<close>

theorem string_roundtrip:
  assumes "append_mode e" and "length s + 1 < 2 ^ 32"
  shows "readString hr (reader_of hw (eoffset e) (stream (writeString hw s e) @ tail)) =
      Inr (s, reader_of hw (eoffset (writeString hw s e)) (stream (writeString hw s e) @ tail)) \<and>
    readStringView hr (reader_of hw (eoffset e) (stream (writeString hw s e) @ tail)) =
      Inr (s, reader_of hw (eoffset (writeString hw s e)) (stream (writeString hw s e) @ tail))"
  using assms by (intro conjI string.write_read_tail string_view.write_read_tail)

theorem string_roundtrip_witness:
  "\<exists>d. readString BE (reader_of LE 0 (stream (writeString LE (lit ''IDL:A:1.0'') enc_init) @ [7])) =
     Inr (lit ''IDL:A:1.0'', d)"
  using string_roundtrip [of enc_init "lit ''IDL:A:1.0''" BE LE "[7]"]
  by (simp add: enc_init_def append_mode_def lit_def)

text \<open>Sequences of sequences of strings (and by the same interpretation sequences over any
  codec, nested to any depth) survive the trip between any two hosts, element by element.\<close>

theorem nested_sequence_roundtrip:
  assumes "append_mode e" and "sequence_ok (sequence_ok (\<lambda>s. length s + 1 < 2 ^ 32)) xss"
  shows "readSequence hr (readSequence hr (readString hr)) (reader_of hw (eoffset e)
      (stream (writeSequence hw (writeSequence hw (writeString hw)) xss e) @ tail)) =
    Inr (xss, reader_of hw (eoffset (writeSequence hw (writeSequence hw (writeString hw)) xss e))
      (stream (writeSequence hw (writeSequence hw (writeString hw)) xss e) @ tail))"
  by (rule string_seq_seq.write_read_tail [OF assms])

theorem nested_sequence_roundtrip_witness:
  "\<exists>d. readSequence LE (readSequence LE (readString LE)) (reader_of BE 0
      (stream (writeSequence BE (writeSequence BE (writeString BE)) [[[65], []], [], [[66, 67]]] enc_init) @ [])) =
    Inr ([[[65], []], [], [[66, 67]]], d)"
  using nested_sequence_roundtrip [of enc_init "[[[65], []], [], [[66, 67]]]" LE BE "[]"]
  by (simp add: enc_init_def append_mode_def sequence_ok_def)

section \<open>Sizes filled in later\<close>

text \<open>\<open>reserveSize\<close>, a body, \<open>fillInSize\<close>: the stream gains, at an aligned offset, the number
  of octets of the body followed by the body; nested reservations are undisturbed.\<close>

theorem size_filled_in:
  assumes "append_mode e" and "emits body f"
  shows "\<exists>e'. fillInSize h (body (reserveSize e)) = Inr e' \<and> append_mode e' \<and>
    stream e' = stream e @ cdr_sized (native h) f (eoffset e) \<and> sizeStack e' = sizeStack e"
proof -
  note r = reserveSize_append [OF assms(1)]
  note b = emitsD [OF assms(2) r(1)]
  from fillInSize_frame [where f = f, OF assms(1) b(1-3)] show ?thesis by metis
qed

theorem size_filled_in_witness:
  "\<exists>e'. fillInSize BE (writeString BE [65, 66] (reserveSize enc_init)) = Inr e' \<and> append_mode e' \<and>
    stream e' = stream enc_init @ cdr_sized (native BE) (cdr_string (native BE) [65, 66]) (eoffset enc_init) \<and>
    sizeStack e' = sizeStack enc_init"
  by (rule size_filled_in [OF _ emits_string]) simp

text \<open>\<open>fillInSize\<close> without a pending \<open>reserveSize\<close> is an error and nothing else is.\<close>

theorem fill_in_size_error:
  "(\<exists>err. fillInSize h e = Inl err) = (sizeStack e = [])"
  by (auto simp: fillInSize_def Let_def split: list.splits)

section \<open>Bounds\<close>

text \<open>C34. The checked reads never look outside the data: on any input, at any offset, they end in a
  value or in an exception, and a read that succeeds leaves the data alone and the offset
  between where it was and the end of the data.\<close>

theorem checked_reads_bounded:
  "(defined (readUshort h) \<and> within (readUshort h)) \<and> (defined (readUlong h) \<and> within (readUlong h)) \<and>
   (defined (readUlonglong h) \<and> within (readUlonglong h)) \<and>
   (defined (readBlob h) \<and> within (readBlob h)) \<and> (defined (readString h) \<and> within (readString h))"
  by (intro conjI word_reads_safe sized_reads_safe)

text \<open>The octet reads are not checked: exactly at and behind the end of the data \<open>readOctet\<close>,
  and with it \<open>readBoolean\<close> and \<open>readChar\<close>, read what is not theirs.\<close>

theorem octet_read_unchecked:
  "(readOctet d = Inl BadRead) = (length (ddata d) \<le> m_offset d) \<and>
   (readChar d = Inl BadRead) = (length (ddata d) \<le> m_offset d) \<and>
   (readBoolean d = Inl BadRead) = (length (ddata d) \<le> m_offset d)"
  by (auto simp: readOctet_cases readChar_def readBoolean_def rd_bind_def)

text \<open>A length of 0, which no encoder writes but a peer can send: \<open>readString\<close> throws,
  \<open>readStringView\<close> makes a view of the whole address space.\<close>

theorem empty_length_string:
  assumes "append_mode e" and "d = reader_of hw (eoffset e) (stream (writeUlong hw 0 e) @ tail)"
  shows "readString hr d = Inl LengthError \<and> readStringView hr d = Inl BadRead"
  using ulong.write_read_tail [OF assms(1) TrueI, of hr hw 0 tail] assms(2)
    length_stream [OF emitsD(1) [OF emits_word(2) assms(1)], of hw 0]
  by (simp add: readString_def readStringView_def rd_bind_def readStringN_def readStringViewN_def
      take_range_def Let_def reader_of_def dec_skip_def)

theorem empty_length_string_witness:
  "readString LE (reader_of BE 0 (stream (writeUlong BE 0 enc_init) @ [])) = Inl LengthError \<and>
   readStringView LE (reader_of BE 0 (stream (writeUlong BE 0 enc_init) @ [])) = Inl BadRead"
  using empty_length_string [of enc_init "reader_of BE 0 (stream (writeUlong BE 0 enc_init) @ [])" BE "[]" LE]
  by (simp add: enc_init_def append_mode_def)

text \<open>Floating point values survive between hosts of the same byte order, alone and in packed
  sequences.\<close>

theorem floats_roundtrip_same_order:
  assumes "append_mode e" and "length fs < 2 ^ 32" and "length ds < 2 ^ 32"
  shows "readFloat h (reader_of h (eoffset e) (stream (writeFloat h f e) @ tail)) =
      Inr (f, reader_of h (eoffset (writeFloat h f e)) (stream (writeFloat h f e) @ tail)) \<and>
    readDouble h (reader_of h (eoffset e) (stream (writeDouble h d e) @ tail)) =
      Inr (d, reader_of h (eoffset (writeDouble h d e)) (stream (writeDouble h d e) @ tail)) \<and>
    readSequenceVectorFloat h (reader_of h (eoffset e) (stream (writeSequenceFloat h fs e) @ tail)) =
      Inr (fs, reader_of h (eoffset (writeSequenceFloat h fs e)) (stream (writeSequenceFloat h fs e) @ tail)) \<and>
    readSequenceVectorDouble h (reader_of h (eoffset e) (stream (writeSequenceDouble h ds e) @ tail)) =
      Inr (ds, reader_of h (eoffset (writeSequenceDouble h ds e)) (stream (writeSequenceDouble h ds e) @ tail))"
  using assms
  by (intro conjI float.write_read_tail double.write_read_tail sequence_float.write_read_tail
      sequence_double.write_read_tail) simp_all

theorem floats_roundtrip_same_order_witness:
  "\<exists>d. readSequenceVectorDouble BE (reader_of BE 0 (stream (writeSequenceDouble BE [1, 2] enc_init) @ [])) =
     Inr ([1, 2], d)"
  using floats_roundtrip_same_order [of enc_init "[]" "[1, 2]" BE 0 "[]" 0]
  by (simp add: enc_init_def append_mode_def)

text \<open>Between hosts of different byte order they do not: 1.0 written by a little endian host is
  read as 0.0 by a big endian one, because the value is converted to an integer before the
  swap.\<close>

theorem float_foreign_order:
  "\<exists>d. readFloat BE (reader_of LE 0 (edata (writeFloat LE 0x3f800000 enc_init))) = Inr (0, d)"
proof -
  let ?bs = "[0, 0, 0x80, 0x3f] :: bytes"
  have four: "(4::nat) = Suc (Suc (Suc (Suc 0)))" by simp
  have bytes: "native_bytes LE 4 (0x3f800000 :: u32) = ?bs"
    unfolding native_bytes_def host.case four digits.simps by simp
  have "edata (writeFloat LE 0x3f800000 enc_init) = ?bs"
    by (simp add: writeFloat_def bytes put_def store_def reserve_def enc_init_def enc_align4_def
        align_mask_3_padding padding_def overwrite_def)
  moreover have "rd_bind ptr4 (load 4) (reader_of LE 0 ?bs) = Inr (?bs, reader_of LE 4 ?bs)"
    by (simp add: ptr_load reader_of_def dec_align4_def align_mask_3_padding padding_def dec_skip_def)
  moreover have "native_word BE ?bs = (0x803f :: u32)"
    by (simp add: native_word_def)
  moreover have "fp_to_uint 23 8 32 0x803f = Some 0"
    by (simp add: fp_to_uint_def Let_def)
  moreover have "uint_to_fp 23 8 (unat (bswap 4 (0 :: u32))) = 0"
    unfolding bswap_def four digits.simps by (simp add: uint_to_fp_def)
  ultimately show ?thesis
    by (simp add: readFloat_def read_fp_def rd_bind_assoc [symmetric] rd_bind_def reader_of_def)
qed

end
