(* ===== verification/Values.thy ===== *)
theory Values
  imports CDR_Contracts
begin

text \<open>
  Values of every type the GIOP encoder and decoder offer (the members of \<open>GIOPEncoder\<close> and
  \<open>GIOPDecoder\<close> in src/corba/giop.hh), with sequences over any of them to any depth and groups of
  values one after the other, as the arguments of an operation are marshalled. In C++ the type of a
  value chooses the member that writes it; here the constructor of the value does.
\<close>

section \<open>Types and values\<close>

datatype idl =
    TBoolean | TOctet
  | TUshort | TUlong | TUlonglong | TShort | TLong | TLonglong
  | TFloat | TDouble | TString | TBlob | TFloats | TDoubles
  | TSequence idl
  | TGroup "idl list"

datatype datum =
    VBoolean bool | VOctet byte
  | VUshort u16 | VUlong u32 | VUlonglong u64 | VShort u16 | VLong u32 | VLonglong u64
  | VFloat u32 | VDouble u64 | VString bytes | VBlob bytes | VFloats "u32 list" | VDoubles "u64 list"
  | VSequence "datum list"
  | VGroup "datum list"

fun of_type :: "idl \<Rightarrow> datum \<Rightarrow> bool" where
  "of_type TBoolean d = (case d of VBoolean _ \<Rightarrow> True | _ \<Rightarrow> False)"
| "of_type TOctet d = (case d of VOctet _ \<Rightarrow> True | _ \<Rightarrow> False)"
| "of_type TUshort d = (case d of VUshort _ \<Rightarrow> True | _ \<Rightarrow> False)"
| "of_type TUlong d = (case d of VUlong _ \<Rightarrow> True | _ \<Rightarrow> False)"
| "of_type TUlonglong d = (case d of VUlonglong _ \<Rightarrow> True | _ \<Rightarrow> False)"
| "of_type TShort d = (case d of VShort _ \<Rightarrow> True | _ \<Rightarrow> False)"
| "of_type TLong d = (case d of VLong _ \<Rightarrow> True | _ \<Rightarrow> False)"
| "of_type TLonglong d = (case d of VLonglong _ \<Rightarrow> True | _ \<Rightarrow> False)"
| "of_type TFloat d = (case d of VFloat _ \<Rightarrow> True | _ \<Rightarrow> False)"
| "of_type TDouble d = (case d of VDouble _ \<Rightarrow> True | _ \<Rightarrow> False)"
| "of_type TString d = (case d of VString _ \<Rightarrow> True | _ \<Rightarrow> False)"
| "of_type TBlob d = (case d of VBlob _ \<Rightarrow> True | _ \<Rightarrow> False)"
| "of_type TFloats d = (case d of VFloats _ \<Rightarrow> True | _ \<Rightarrow> False)"
| "of_type TDoubles d = (case d of VDoubles _ \<Rightarrow> True | _ \<Rightarrow> False)"
| "of_type (TSequence t) d = (case d of VSequence vs \<Rightarrow> list_all (of_type t) vs | _ \<Rightarrow> False)"
| "of_type (TGroup ts) d = (case d of VGroup vs \<Rightarrow> list_all2 of_type ts vs | _ \<Rightarrow> False)"

text \<open>The lengths the 32 bit length fields can hold.\<close>

fun fitting :: "datum \<Rightarrow> bool" where
  "fitting (VString v) = (length v + 1 < 2 ^ 32)"
| "fitting (VBlob v) = (length v < 2 ^ 32)"
| "fitting (VFloats v) = (length v < 2 ^ 32)"
| "fitting (VDoubles v) = (length v < 2 ^ 32)"
| "fitting (VSequence vs) = (length vs < 2 ^ 32 \<and> list_all fitting vs)"
| "fitting (VGroup vs) = list_all fitting vs"
| "fitting _ = True"

text \<open>Types without floating point numbers, whose bytes are swapped wrongly.\<close>

fun swappable :: "idl \<Rightarrow> bool" where
  "swappable TFloat = False"
| "swappable TDouble = False"
| "swappable TFloats = False"
| "swappable TDoubles = False"
| "swappable (TSequence t) = swappable t"
| "swappable (TGroup ts) = list_all swappable ts"
| "swappable _ = True"

text \<open>
  \<open>GIOPDecoder\<close> returns \<open>uint16_t\<close>, \<open>uint32_t\<close> and \<open>uint64_t\<close> from \<open>readShort\<close>, \<open>readLong\<close> and
  \<open>readLonglong\<close>: a signed number comes back as the unsigned one with the same bits.
\<close>

fun unsigned_idl :: "idl \<Rightarrow> idl" where
  "unsigned_idl TShort = TUshort"
| "unsigned_idl TLong = TUlong"
| "unsigned_idl TLonglong = TUlonglong"
| "unsigned_idl (TSequence t) = TSequence (unsigned_idl t)"
| "unsigned_idl (TGroup ts) = TGroup (map unsigned_idl ts)"
| "unsigned_idl t = t"

fun unsigned_datum :: "datum \<Rightarrow> datum" where
  "unsigned_datum (VShort v) = VUshort v"
| "unsigned_datum (VLong v) = VUlong v"
| "unsigned_datum (VLonglong v) = VUlonglong v"
| "unsigned_datum (VSequence vs) = VSequence (map unsigned_datum vs)"
| "unsigned_datum (VGroup vs) = VGroup (map unsigned_datum vs)"
| "unsigned_datum v = v"

text \<open>Types without signed numbers.\<close>

fun signless :: "idl \<Rightarrow> bool" where
  "signless TShort = False"
| "signless TLong = False"
| "signless TLonglong = False"
| "signless (TSequence t) = signless t"
| "signless (TGroup ts) = list_all signless ts"
| "signless _ = True"

lemma unsigned_of_type: "of_type t v \<Longrightarrow> of_type (unsigned_idl t) (unsigned_datum v)"
  by (induction t v rule: of_type.induct)
    (auto split: datum.splits simp: list_all_iff list_all2_conv_all_nth)

lemma unsigned_fitting [simp]: "fitting (unsigned_datum v) = fitting v"
  by (induction v rule: fitting.induct) (auto simp: list_all_iff)

lemma unsigned_swappable [simp]: "swappable (unsigned_idl t) = swappable t"
  by (induction t rule: swappable.induct) (auto simp: list_all_iff)

lemma unsigned_signless [simp]: "signless (unsigned_idl t)"
  by (induction t rule: unsigned_idl.induct) (auto simp: list_all_iff)

lemma unsigned_same: "signless t \<Longrightarrow> of_type t v \<Longrightarrow> unsigned_datum v = v"
proof (induction t arbitrary: v)
  case (TGroup ts)
  then obtain vs where v: "v = VGroup vs" "list_all2 of_type ts vs" by (cases v) auto
  have "unsigned_datum x = x" if "x \<in> set vs" for x
  proof -
    obtain i where "i < length vs" "x = vs ! i" using \<open>x \<in> set vs\<close> by (auto simp: in_set_conv_nth)
    then have "ts ! i \<in> set ts" "of_type (ts ! i) x" using v(2) by (simp_all add: list_all2_conv_all_nth)
    then show ?thesis using TGroup by (simp add: list_all_iff)
  qed
  then show ?case by (simp add: v(1) map_idI)
qed (auto split: datum.splits simp: list_all_iff intro!: map_idI)

section \<open>Writing and reading\<close>

lemma writeSequence_cong [fundef_cong]:
  assumes "xs = ys" and "\<And>x e. x \<in> set ys \<Longrightarrow> wr x e = wr' x e" and "h = h'" and "e = e'"
  shows "writeSequence h wr xs e = writeSequence h' wr' ys e'"
  using assms by (auto simp: writeSequence_def intro: fold_cong)

fun write_value :: "host \<Rightarrow> datum \<Rightarrow> cdr_encoder \<Rightarrow> cdr_encoder" where
  "write_value h (VBoolean v) e = writeBoolean v e"
| "write_value h (VOctet v) e = writeOctet v e"
| "write_value h (VUshort v) e = writeUshort h v e"
| "write_value h (VUlong v) e = writeUlong h v e"
| "write_value h (VUlonglong v) e = writeUlonglong h v e"
| "write_value h (VShort v) e = writeShort h v e"
| "write_value h (VLong v) e = writeLong h v e"
| "write_value h (VLonglong v) e = writeLonglong h v e"
| "write_value h (VFloat v) e = writeFloat h v e"
| "write_value h (VDouble v) e = writeDouble h v e"
| "write_value h (VString v) e = writeString h v e"
| "write_value h (VBlob v) e = writeBlob h v e"
| "write_value h (VFloats v) e = writeSequenceFloat h v e"
| "write_value h (VDoubles v) e = writeSequenceDouble h v e"
| "write_value h (VSequence vs) e = writeSequence h (write_value h) vs e"
| "write_value h (VGroup vs) e = fold (write_value h) vs e"

fun rd_each :: "('a, 's) reader list \<Rightarrow> ('a list, 's) reader" where
  "rd_each [] = rd_return []"
| "rd_each (rd # rds) = rd_bind rd (\<lambda>v. rd_bind (rd_each rds) (\<lambda>vs. rd_return (v # vs)))"

definition rd_map :: "('a \<Rightarrow> 'b) \<Rightarrow> ('a, 's) reader \<Rightarrow> ('b, 's) reader" where
  "rd_map f m = rd_bind m (\<lambda>v. rd_return (f v))"

fun read_value :: "host \<Rightarrow> idl \<Rightarrow> datum cdr_reader" where
  "read_value h TBoolean = rd_map VBoolean readBoolean"
| "read_value h TOctet = rd_map VOctet readOctet"
| "read_value h TUshort = rd_map VUshort (readUshort h)"
| "read_value h TUlong = rd_map VUlong (readUlong h)"
| "read_value h TUlonglong = rd_map VUlonglong (readUlonglong h)"
| "read_value h TShort = rd_map VUshort (readShort h)"
| "read_value h TLong = rd_map VUlong (readLong h)"
| "read_value h TLonglong = rd_map VUlonglong (readLonglong h)"
| "read_value h TFloat = rd_map VFloat (readFloat h)"
| "read_value h TDouble = rd_map VDouble (readDouble h)"
| "read_value h TString = rd_map VString (readString h)"
| "read_value h TBlob = rd_map VBlob (readBlob h)"
| "read_value h TFloats = rd_map VFloats (readSequenceVectorFloat h)"
| "read_value h TDoubles = rd_map VDoubles (readSequenceVectorDouble h)"
| "read_value h (TSequence t) = rd_map VSequence (readSequence h (read_value h t))"
| "read_value h (TGroup ts) = rd_map VGroup (rd_each (map (read_value h) ts))"

text \<open>The octets of a value.\<close>

lemma cdr_list_cong [fundef_cong]:
  assumes "xs = ys" and "\<And>x p. x \<in> set ys \<Longrightarrow> f x p = g x p" and "p = q"
  shows "cdr_list f xs p = cdr_list g ys q"
  using assms by (induction xs arbitrary: ys p q) (auto simp: cdr_seq_def)

lemma cdr_sequence_cong [fundef_cong]:
  assumes "xs = ys" and "\<And>x p. x \<in> set ys \<Longrightarrow> f x p = g x p" and "p = q" and "en = en'"
  shows "cdr_sequence en f xs p = cdr_sequence en' g ys q"
  using assms by (auto simp: cdr_sequence_def cdr_seq_def intro: cdr_list_cong)

fun layout :: "endian \<Rightarrow> datum \<Rightarrow> marshal" where
  "layout en (VBoolean v) p = cdr_raw [if v then 1 else 0] p"
| "layout en (VOctet v) p = cdr_raw [v] p"
| "layout en (VUshort v) p = cdr_word en 2 v p"
| "layout en (VUlong v) p = cdr_word en 4 v p"
| "layout en (VUlonglong v) p = cdr_word en 8 v p"
| "layout en (VShort v) p = cdr_word en 2 v p"
| "layout en (VLong v) p = cdr_word en 4 v p"
| "layout en (VLonglong v) p = cdr_word en 8 v p"
| "layout en (VFloat v) p = cdr_word en 4 v p"
| "layout en (VDouble v) p = cdr_word en 8 v p"
| "layout en (VString v) p = cdr_string en v p"
| "layout en (VBlob v) p = cdr_blob en v p"
| "layout en (VFloats v) p = cdr_seq (cdr_ulong en (of_nat (length v))) (cdr_raw (concat (map (order_bytes en 4) v))) p"
| "layout en (VDoubles v) p = cdr_seq (cdr_ulong en (of_nat (length v)))
     (cdr_seq (cdr_pad 8) (cdr_raw (concat (map (order_bytes en 8) v)))) p"
| "layout en (VSequence vs) p = cdr_sequence en (layout en) vs p"
| "layout en (VGroup vs) p = cdr_list (layout en) vs p"

section \<open>What is written is the layout\<close>

lemma write_value_eqs:
  "write_value h (VBoolean v1) = writeBoolean v1"
  "write_value h (VOctet v2) = writeOctet v2"
  "write_value h (VUshort v3) = writeUshort h v3"
  "write_value h (VUlong v4) = writeUlong h v4"
  "write_value h (VUlonglong v5) = writeUlonglong h v5"
  "write_value h (VShort v6) = writeShort h v6"
  "write_value h (VLong v7) = writeLong h v7"
  "write_value h (VLonglong v8) = writeLonglong h v8"
  "write_value h (VFloat v9) = writeFloat h v9"
  "write_value h (VDouble v10) = writeDouble h v10"
  "write_value h (VString v11) = writeString h v11"
  "write_value h (VBlob v12) = writeBlob h v12"
  "write_value h (VFloats v13) = writeSequenceFloat h v13"
  "write_value h (VDoubles v14) = writeSequenceDouble h v14"
  by (rule ext, simp)+

lemma write_value_nested:
  "write_value h (VSequence vs) = writeSequence h (write_value h) vs" "write_value h (VGroup vs) = fold (write_value h) vs"
  by (rule ext, simp)+

lemma layout_eqs:
  "layout en (VBoolean v1) = cdr_raw [if v1 then 1 else 0]"
  "layout en (VOctet v2) = cdr_raw [v2]"
  "layout en (VUshort v3) = cdr_word en 2 v3"
  "layout en (VUlong v4) = cdr_word en 4 v4"
  "layout en (VUlonglong v5) = cdr_word en 8 v5"
  "layout en (VShort v6) = cdr_word en 2 v6"
  "layout en (VLong v7) = cdr_word en 4 v7"
  "layout en (VLonglong v8) = cdr_word en 8 v8"
  "layout en (VFloat v9) = cdr_word en 4 v9"
  "layout en (VDouble v10) = cdr_word en 8 v10"
  "layout en (VString v11) = cdr_string en v11"
  "layout en (VBlob v12) = cdr_blob en v12"
  "layout en (VFloats v13) = cdr_seq (cdr_ulong en (of_nat (length v13))) (cdr_raw (concat (map (order_bytes en 4) v13)))"
  "layout en (VDoubles v14) = cdr_seq (cdr_ulong en (of_nat (length v14)))
     (cdr_seq (cdr_pad 8) (cdr_raw (concat (map (order_bytes en 8) v14))))"
  by (rule ext, simp)+

lemma layout_nested:
  "layout en (VSequence vs) = cdr_sequence en (layout en) vs" "layout en (VGroup vs) = cdr_list (layout en) vs"
  by (rule ext, simp)+

lemmas emits_simple = emits_boolean emits_octet emits_word [unfolded cdr_ulong_def] emits_string emits_blob
  emits_sequence_float emits_sequence_double

lemma write_value_emits: "emits (write_value h v) (layout (native h) v)"
proof (induction v)
  case (VSequence vs)
  then show ?case unfolding write_value_nested layout_nested by (rule emits_elements)
next
  case (VGroup vs)
  then show ?case unfolding write_value_nested layout_nested by (rule emits_all)
qed (unfold write_value_eqs layout_eqs, (rule emits_simple)+)

section \<open>What is read back\<close>

lemma parses_rd_map: "parses en rd v f \<Longrightarrow> parses en (rd_map C rd) (C v) f"
  unfolding rd_map_def by (rule parses_map) simp_all

lemma parses_each:
  "list_all2 (\<lambda>rd x. parses en rd x (fmt x)) rds xs \<Longrightarrow> parses en (rd_each rds) xs (cdr_list fmt xs)"
proof (induction rule: list_all2_induct)
  case (Cons rd rds x xs)
  then show ?case unfolding rd_each.simps cdr_list.simps by (intro parses_bind parses_map) simp_all
qed (simp only: rd_each.simps cdr_list.simps parses_return)

lemma read_unsigned: "read_value h (unsigned_idl t) = read_value h t"
proof (induction t)
  case (TGroup ts)
  then have "map (read_value h) (map unsigned_idl ts) = map (read_value h) ts" by (simp add: map_eq_conv)
  then show ?case by (simp only: unsigned_idl.simps read_value.simps)
qed (simp_all add: signed_read_eq)

lemma cdr_list_map: "cdr_list f (map g xs) p = cdr_list (\<lambda>x. f (g x)) xs p"
  by (induction xs arbitrary: p) (simp_all add: cdr_seq_def)

lemma layout_unsigned: "layout en (unsigned_datum v) p = layout en v p"
proof (induction v arbitrary: p)
  case (VSequence vs)
  then show ?case by (simp add: cdr_sequence_def cdr_seq_def cdr_list_map cong: cdr_list_cong)
next
  case (VGroup vs)
  then show ?case by (simp add: cdr_list_map cong: cdr_list_cong)
qed simp_all

lemma write_unsigned: "write_value h (unsigned_datum v) e = write_value h v e"
proof (induction v arbitrary: e)
  case (VSequence vs)
  then show ?case by (auto simp: writeSequence_def fold_map comp_def intro: fold_cong)
next
  case (VGroup vs)
  then show ?case by (auto simp: fold_map comp_def intro: fold_cong)
qed (simp_all add: writeShort_def writeUshort_def writeLong_def writeUlong_def writeLonglong_def writeUlonglong_def)

text \<open>\<open>readable\<close>: \<open>hw\<close> has written the value, \<open>hr\<close> reads it.\<close>

definition readable :: "host \<Rightarrow> host \<Rightarrow> idl \<Rightarrow> datum \<Rightarrow> bool" where
  "readable hw hr t v \<longleftrightarrow> of_type t v \<and> fitting v \<and> (swappable t \<or> native hr = native hw)"

lemma parses_floats:
  assumes "native hr = native hw"
  shows "parses (native hw) (readFloat hr) f (cdr_word (native hw) 4 f)"
    and "parses (native hw) (readDouble hr) d (cdr_word (native hw) 8 d)"
    and "length fs < 2 ^ 32 \<Longrightarrow> parses (native hw) (readSequenceVectorFloat hr) fs
      (cdr_seq (cdr_ulong (native hw) (of_nat (length fs))) (cdr_raw (concat (map (order_bytes (native hw) 4) fs))))"
    and "length ds < 2 ^ 32 \<Longrightarrow> parses (native hw) (readSequenceVectorDouble hr) ds
      (cdr_seq (cdr_ulong (native hw) (of_nat (length ds)))
        (cdr_seq (cdr_pad 8) (cdr_raw (concat (map (order_bytes (native hw) 8) ds)))))"
  unfolding assms [symmetric]
  by (simp_all add: readFloat_def readDouble_def parses_native_fp readSequenceVectorFloat_def
      readSequenceVectorDouble_def parses_sequence_float parses_sequence_double del: native.simps)

lemmas parses_simple = parses_boolean parses_octet parses_words [unfolded cdr_ulong_def]
  parses_words [unfolded cdr_ulong_def, folded signed_read_eq]
  parses_string(1) parses_blob parses_floats

lemma read_plain_parses:
  assumes "readable hw hr t v" and "signless t" and "\<And>u. t \<noteq> TSequence u" and "\<And>us. t \<noteq> TGroup us"
  shows "parses (native hw) (read_value hr t) v (layout (native hw) v)"
  using assms
  by (cases t; cases v; simp add: readable_def layout_eqs parses_rd_map parses_simple native_not_0 del: native.simps)

lemma read_signless_parses:
  "readable hw hr t v \<Longrightarrow> signless t \<Longrightarrow> parses (native hw) (read_value hr t) v (layout (native hw) v)"
proof (induction t arbitrary: v)
  case (TSequence t)
  then obtain vs where v: "v = VSequence vs" "list_all (of_type t) vs" "length vs < 2 ^ 32" "list_all fitting vs"
    by (cases v) (auto simp: readable_def)
  then have "parses (native hw) (read_value hr t) x (layout (native hw) x)" if "x \<in> set vs" for x
    using TSequence that by (auto simp: readable_def list_all_iff)
  then show ?case unfolding v(1) layout_nested read_value.simps
    by (rule parses_rd_map [OF parses_elements]) (use v(3) in simp_all)
next
  case (TGroup ts)
  then obtain vs where v: "v = VGroup vs" "list_all2 of_type ts vs" "list_all fitting vs"
    by (cases v) (auto simp: readable_def)
  then have "list_all2 (\<lambda>rd x. parses (native hw) rd x (layout (native hw) x)) (map (read_value hr) ts) vs"
    using TGroup by (auto simp: readable_def list_all2_conv_all_nth list_all_length)
  then show ?case unfolding v(1) layout_nested read_value.simps by (rule parses_rd_map [OF parses_each])
qed (rule read_plain_parses; simp)+

interpretation typed: cdr_codec "write_value hw" "layout (native hw)" "read_value hr t" hw
    "\<lambda>v. readable hw hr t v \<and> signless t" for hw hr t
  by unfold_locales (rule write_value_emits, simp add: read_signless_parses)

lemma readable_unsigned: "readable hw hr t v \<Longrightarrow> readable hw hr (unsigned_idl t) (unsigned_datum v)"
  by (simp add: readable_def unsigned_of_type)

lemma read_value_parses:
  assumes "readable hw hr t v"
  shows "parses (native hw) (read_value hr t) (unsigned_datum v) (layout (native hw) v)"
  using read_signless_parses [OF readable_unsigned [OF assms]]
  by (simp add: read_unsigned layout_unsigned [abs_def])

text \<open>C10. What is written under a type is read back under it, sequences and groups nested to any depth
  included, at any offset, and the reader ends where the writer did. Signed numbers come back as the unsigned
  numbers with the same bits, everything else as it was written; types that have floating point numbers in
  them only between hosts of the same byte order, all others between hosts of either.\<close>

theorem typed_roundtrip:
  assumes "append_mode e" and "of_type t v" and "fitting v" and "swappable t \<or> native hr = native hw"
  shows "read_value hr t (reader_of hw (eoffset e) (stream (write_value hw v e) @ tail)) =
      Inr (unsigned_datum v, reader_of hw (eoffset (write_value hw v e)) (stream (write_value hw v e) @ tail)) \<and>
    (signless t \<longrightarrow> unsigned_datum v = v)"
proof -
  have "readable hw hr (unsigned_idl t) (unsigned_datum v) \<and> signless (unsigned_idl t)"
    using assms(2-4) readable_unsigned by (simp add: readable_def)
  from typed.write_read_tail [OF assms(1) this, of tail] show ?thesis
    using unsigned_same [OF _ assms(2)] by (simp add: read_unsigned write_unsigned)
qed

definition sample_idl :: idl where
  "sample_idl = TGroup [TSequence (TSequence TString), TUshort, TSequence (TGroup [TOctet, TLonglong])]"

definition sample_datum :: datum where
  "sample_datum = VGroup [VSequence [VSequence [VString (lit ''ab''), VString []], VSequence []], VUshort 7,
     VSequence [VGroup [VOctet 1, VLonglong (-1)], VGroup [VOctet 2, VLonglong 5]]]"

lemma typed_roundtrip_witness:
  "\<exists>d. read_value BE sample_idl (reader_of LE 0 (stream (write_value LE sample_datum enc_init) @ [9])) =
    Inr (unsigned_datum sample_datum, d)"
proof -
  have "of_type sample_idl sample_datum" "fitting sample_datum" "swappable sample_idl"
    by (simp_all add: sample_idl_def sample_datum_def lit_def)
  then show ?thesis
    using typed_roundtrip [of enc_init sample_idl sample_datum BE LE "[9]"] by (simp add: enc_init_def append_mode_def)
qed

section \<open>Whatever the octets\<close>

text \<open>
  \<open>yields rd P\<close>: the read never looks outside the data nor is it undefined otherwise, on any data and at any
  offset; what it returns satisfies \<open>P\<close>, the data are as before, and if the offset was inside the data
  it still is and has not gone back.
\<close>

definition yields :: "'a cdr_reader \<Rightarrow> ('a \<Rightarrow> bool) \<Rightarrow> bool" where
  "yields rd P \<longleftrightarrow> defined rd \<and> (\<forall>d v d'. rd d = Inr (v, d') \<longrightarrow>
     P v \<and> ddata d' = ddata d \<and>
     (m_offset d \<le> length (ddata d) \<longrightarrow> m_offset d \<le> m_offset d' \<and> m_offset d' \<le> length (ddata d)))"

lemma yields_within:
  "defined rd \<Longrightarrow> within rd \<Longrightarrow> (\<And>d v d'. rd d = Inr (v, d') \<Longrightarrow> P v) \<Longrightarrow> yields rd P"
  unfolding yields_def within_def by blast

lemma yieldsD:
  assumes "yields rd P" and "rd d = Inr (v, d')"
  shows "P v" and "ddata d' = ddata d"
    and "m_offset d \<le> length (ddata d) \<Longrightarrow> m_offset d \<le> m_offset d' \<and> m_offset d' \<le> length (ddata d)"
  using assms unfolding yields_def by blast+

lemma yields_bind:
  assumes m: "yields m P" and k: "\<And>v. P v \<Longrightarrow> yields (k v) Q"
  shows "yields (rd_bind m k) Q"
  unfolding yields_def rd_bind_eq_Inr
proof (intro conjI allI impI)
  show "defined (rd_bind m k)"
    unfolding defined_def rd_bind_eq_Inl
    using m k yieldsD(1) [OF m] by (auto simp: yields_def defined_def)
  fix d v d'
  assume "\<exists>x d1. m d = Inr (x, d1) \<and> k x d1 = Inr (v, d')"
  then obtain x d1 where x: "m d = Inr (x, d1)" "k x d1 = Inr (v, d')" by blast
  note 1 = yieldsD [OF m x(1)] and 2 = yieldsD [OF k [OF yieldsD(1) [OF m x(1)]] x(2)]
  show "Q v" "ddata d' = ddata d" using 1 2 by simp_all
  assume "m_offset d \<le> length (ddata d)"
  then show "m_offset d \<le> m_offset d'" "m_offset d' \<le> length (ddata d)" using 1 2 by force+
qed

lemma yields_mono: "yields rd P \<Longrightarrow> (\<And>v. P v \<Longrightarrow> Q v) \<Longrightarrow> yields rd Q"
  unfolding yields_def by blast

lemma yields_return: "P v \<Longrightarrow> yields (rd_return v) P"
  by (simp add: yields_def defined_def)

lemma yields_rd_map: "yields rd (\<lambda>v. P (C v)) \<Longrightarrow> yields (rd_map C rd) P"
  unfolding rd_map_def by (erule yields_bind) (rule yields_return)

lemma yields_times: "yields rd P \<Longrightarrow> yields (rd_times n rd) (\<lambda>vs. length vs = n \<and> list_all P vs)"
proof (induction n)
  case (Suc n)
  from Suc.IH [OF Suc.prems] show ?case unfolding rd_times.simps
    by (intro yields_bind [OF Suc.prems] yields_bind [where P = "\<lambda>vs. length vs = n \<and> list_all P vs"] yields_return) simp_all
qed (simp add: yields_return)

lemma yields_each: "list_all2 yields rds Ps \<Longrightarrow> yields (rd_each rds) (\<lambda>vs. list_all2 (\<lambda>P v. P v) Ps vs)"
proof (induction rule: list_all2_induct)
  case (Cons rd rds P Ps)
  then show ?case unfolding rd_each.simps
    by (intro yields_bind [OF Cons.hyps(1)] yields_bind [OF Cons.IH] yields_return) simp_all
qed (simp only: rd_each.simps, rule yields_return, simp)

lemma u32_bound: "unat (w :: u32) < 2 ^ 32"
  using unsigned_less [of w] by simp

lemma u32_pred: "unat (w :: u32) - Suc 0 < 4294967295"
  using u32_bound [of w] by simp

lemma yields_sized:
  "yields (readString h) (\<lambda>v. length v + 1 < 2 ^ 32)" "yields (readBlob h) (\<lambda>v. length v < 2 ^ 32)"
proof -
  show "yields (readString h) (\<lambda>v. length v + 1 < 2 ^ 32)"
    by (rule yields_within [OF sized_reads_safe(3,4)])
      (use u32_pred in \<open>auto simp: readString_def readStringN_def take_range_def rd_bind_eq_Inr load_def Let_def dec_skip_def
        split: if_splits\<close>)
  show "yields (readBlob h) (\<lambda>v. length v < 2 ^ 32)"
    by (rule yields_within [OF sized_reads_safe(1,2)])
      (use u32_bound in \<open>auto simp: readBlob_def take_range_def rd_bind_eq_Inr load_def Let_def dec_skip_def
        split: if_splits\<close>)
qed

text \<open>
  The types whose reads are all checked: without booleans and octets, which are read without a look at
  the end of the data, and without floating point numbers, whose sequences are not checked either and
  which may not survive their conversion to an integer.
\<close>

fun checked_type :: "idl \<Rightarrow> bool" where
  "checked_type TBoolean = False"
| "checked_type TOctet = False"
| "checked_type TFloat = False"
| "checked_type TDouble = False"
| "checked_type TFloats = False"
| "checked_type TDoubles = False"
| "checked_type (TSequence t) = checked_type t"
| "checked_type (TGroup ts) = list_all checked_type ts"
| "checked_type _ = True"

lemma yields_plain:
  assumes "checked_type t" and "\<And>u. t \<noteq> TSequence u" and "\<And>us. t \<noteq> TGroup us"
  shows "yields (read_value h t) (\<lambda>v. of_type (unsigned_idl t) v \<and> fitting v)"
  using assms
  by (cases t; simp; intro yields_rd_map)
    (simp_all add: yields_within word_reads_safe signed_read_eq yields_sized [simplified])

lemma read_value_yields: "checked_type t \<Longrightarrow> yields (read_value h t) (\<lambda>v. of_type (unsigned_idl t) v \<and> fitting v)"
proof (induction t)
  case (TSequence t)
  let ?P = "\<lambda>v. of_type (unsigned_idl t) v \<and> fitting v"
  have t: "yields (read_value h t) ?P" using TSequence by simp
  have "yields (readUlong h) (\<lambda>_. True)" by (rule yields_within [OF word_reads_safe(2,5) TrueI])
  then have "yields (readSequence h (read_value h t)) (\<lambda>vs. length vs < 2 ^ 32 \<and> list_all ?P vs)"
    unfolding readSequence_def
  proof (rule yields_bind)
    fix n :: u32
    show "yields (rd_times (unat n) (read_value h t)) (\<lambda>vs. length vs < 2 ^ 32 \<and> list_all ?P vs)"
      by (rule yields_mono [OF yields_times [OF t]]) (use u32_bound [of n] in simp)
  qed
  then show ?case unfolding read_value.simps by (intro yields_rd_map) (simp add: list_all_iff conj_ac ball_conj_distrib)
next
  case (TGroup ts)
  have "list_all2 yields (map (read_value h) ts) (map (\<lambda>t v. of_type (unsigned_idl t) v \<and> fitting v) ts)"
    using TGroup by (auto simp: list_all2_conv_all_nth list_all_length)
  then have "yields (rd_each (map (read_value h) ts)) (\<lambda>vs. list_all2 of_type (map unsigned_idl ts) vs \<and> list_all fitting vs)"
    by (rule yields_mono [OF yields_each]) (auto simp: list_all2_conv_all_nth list_all_length)
  then show ?case unfolding read_value.simps by (intro yields_rd_map) simp
qed (rule yields_plain; simp)+

text \<open>C14. Whatever octets a peer sends and wherever the offset is: reading under a type whose reads are all
  checked, sequences and groups nested to any depth included, never looks outside the data. It ends in a C++
  exception or in a value of that type (signed numbers as unsigned ones) with lengths that fit, and the offset
  stays inside the data and does not go back.\<close>

theorem checked_types_bounded:
  assumes "checked_type t"
  shows "case read_value h t d of
      Inl err \<Rightarrow> \<not> undefined_behaviour err
    | Inr (v, d') \<Rightarrow> of_type (unsigned_idl t) v \<and> fitting v \<and> ddata d' = ddata d \<and>
        (m_offset d \<le> length (ddata d) \<longrightarrow> m_offset d \<le> m_offset d' \<and> m_offset d' \<le> length (ddata d))"
  using read_value_yields [OF assms, of h] by (auto simp: yields_def defined_def split: sum.split)

lemma checked_types_bounded_witness:
  "\<exists>err. read_value LE (TSequence TString) (dec_init [1, 0, 0, 0] Endian_little) = Inl err \<and>
    \<not> undefined_behaviour err"
proof -
  let ?d = "dec_init [1, 0, 0, 0] Endian_little"
  have "rd_bind ptr4 (load 4) ?d = Inr ([1, 0, 0, 0], ?d\<lparr>m_offset := 4\<rparr>)"
    by (simp add: ptr_load dec_init_def dec_align4_def dec_skip_def align_mask_3_padding padding_def)
  then have "readUlong LE ?d = Inr (1, ?d\<lparr>m_offset := 4\<rparr>)"
    by (simp add: readUlong_def read_ordered_def rd_bind_assoc [symmetric])
      (simp add: rd_bind_def load_ordered_def native_word_def dec_init_def)
  moreover have "rd_bind ptr4 (load 4) (?d\<lparr>m_offset := 4\<rparr>) = Inl OutOfRange"
    by (simp add: ptr_load dec_init_def dec_align4_def dec_skip_def align_mask_3_padding padding_def)
  then have "readUlong LE (?d\<lparr>m_offset := 4\<rparr>) = Inl OutOfRange"
    by (simp add: readUlong_def read_ordered_def rd_bind_assoc [symmetric]) (simp add: rd_bind_def)
  ultimately have "read_value LE (TSequence TString) ?d = Inl OutOfRange"
    by (simp add: rd_map_def readSequence_def readString_def rd_bind_def)
  then show ?thesis using checked_types_bounded [of "TSequence TString" ?d LE] by auto
qed

end
