(* ===== verification/GIOP_Types.thy ===== *)
theory GIOP_Types
  imports CDR_Contracts
begin

text \<open>
  The enumerations and header structures of src/corba/giop.hh, and the parts of a connection
  that encoder and decoder use (src/corba/net/connection.hh, src/corba/net/util/socket.hh).

  The enumerations have the fixed underlying type \<open>int\<close>, so \<open>static_cast\<close> of any octet or
  ulong gives a value of them: the last constructor of each holds the values without a name.
\<close>

section \<open>Enumerations\<close>

datatype MessageType =
    REQUEST | REPLY | CANCEL_REQUEST | LOCATE_REQUEST | LOCATE_REPLY | CLOSE_CONNECTION
  | MESSAGE_ERROR | FRAGMENT | MessageType_other byte

fun message_type_octet :: "MessageType \<Rightarrow> byte" where
  "message_type_octet REQUEST = 0"
| "message_type_octet REPLY = 1"
| "message_type_octet CANCEL_REQUEST = 2"
| "message_type_octet LOCATE_REQUEST = 3"
| "message_type_octet LOCATE_REPLY = 4"
| "message_type_octet CLOSE_CONNECTION = 5"
| "message_type_octet MESSAGE_ERROR = 6"
| "message_type_octet FRAGMENT = 7"
| "message_type_octet (MessageType_other b) = b"

definition message_type_cast :: "byte \<Rightarrow> MessageType" where
  "message_type_cast b =
     (if b = 0 then REQUEST else if b = 1 then REPLY else if b = 2 then CANCEL_REQUEST
      else if b = 3 then LOCATE_REQUEST else if b = 4 then LOCATE_REPLY
      else if b = 5 then CLOSE_CONNECTION else if b = 6 then MESSAGE_ERROR
      else if b = 7 then FRAGMENT else MessageType_other b)"

datatype ReplyStatus =
    NO_EXCEPTION | USER_EXCEPTION | SYSTEM_EXCEPTION | LOCATION_FORWARD
  | LOCATION_FORWARD_PERM | NEEDS_ADDRESSING_MODE | ReplyStatus_other u32

fun reply_status_code :: "ReplyStatus \<Rightarrow> u32" where
  "reply_status_code NO_EXCEPTION = 0"
| "reply_status_code USER_EXCEPTION = 1"
| "reply_status_code SYSTEM_EXCEPTION = 2"
| "reply_status_code LOCATION_FORWARD = 3"
| "reply_status_code LOCATION_FORWARD_PERM = 4"
| "reply_status_code NEEDS_ADDRESSING_MODE = 5"
| "reply_status_code (ReplyStatus_other n) = n"

definition reply_status_cast :: "u32 \<Rightarrow> ReplyStatus" where
  "reply_status_cast n =
     (if n = 0 then NO_EXCEPTION else if n = 1 then USER_EXCEPTION
      else if n = 2 then SYSTEM_EXCEPTION else if n = 3 then LOCATION_FORWARD
      else if n = 4 then LOCATION_FORWARD_PERM else if n = 5 then NEEDS_ADDRESSING_MODE
      else ReplyStatus_other n)"

datatype LocateStatusType =
    UNKNOWN_OBJECT | OBJECT_HERE | OBJECT_FORWARD | OBJECT_FORWARD_PERM
  | LOC_SYSTEM_EXCEPTION | LOC_NEEDS_ADDRESSING_MODE

fun locate_status_code :: "LocateStatusType \<Rightarrow> u32" where
  "locate_status_code UNKNOWN_OBJECT = 0"
| "locate_status_code OBJECT_HERE = 1"
| "locate_status_code OBJECT_FORWARD = 2"
| "locate_status_code OBJECT_FORWARD_PERM = 3"
| "locate_status_code LOC_SYSTEM_EXCEPTION = 4"
| "locate_status_code LOC_NEEDS_ADDRESSING_MODE = 5"

text \<open>The service contexts, of which the code acts on one: \<open>BI_DIR_IIOP\<close>.\<close>

datatype ServiceId =
    TransactionService | CodeSets | ChainBypassCheck | ChainBypassInfo | LogicalThreadId
  | BI_DIR_IIOP | SendingContextRunTime | INVOCATION_POLICIES | FORWARDED_IDENTITY
  | UnknownExceptionInfo | RTCorbaPriority | RTCorbaPriorityRange | FT_GROUP_VERSION
  | FT_REQUEST | ExceptionDetailMessage | SecurityAttributeService | ActivityService
  | RMICustomMaxStreamFormat | ACCESS_SESSION_ID | SERVICE_SESSION_ID | FIREWALL_PATH
  | FIREWALL_PATH_RESP | SERVICE_PADDING_CONTEXT | ServiceId_other u32

definition service_ids :: "ServiceId list" where
  "service_ids =
     [TransactionService, CodeSets, ChainBypassCheck, ChainBypassInfo, LogicalThreadId,
      BI_DIR_IIOP, SendingContextRunTime, INVOCATION_POLICIES, FORWARDED_IDENTITY,
      UnknownExceptionInfo, RTCorbaPriority, RTCorbaPriorityRange, FT_GROUP_VERSION,
      FT_REQUEST, ExceptionDetailMessage, SecurityAttributeService, ActivityService,
      RMICustomMaxStreamFormat, ACCESS_SESSION_ID, SERVICE_SESSION_ID, FIREWALL_PATH,
      FIREWALL_PATH_RESP]"

text \<open>They are numbered from 0 in their order, the padding context apart.\<close>

definition service_id_cast :: "u32 \<Rightarrow> ServiceId" where
  "service_id_cast n =
     (if unat n < length service_ids then service_ids ! unat n
      else if n = 0x4a414301 then SERVICE_PADDING_CONTEXT else ServiceId_other n)"

fun index_of :: "'a list \<Rightarrow> 'a \<Rightarrow> nat" where
  "index_of [] x = 0"
| "index_of (y # ys) x = (if y = x then 0 else Suc (index_of ys x))"

fun service_id_code :: "ServiceId \<Rightarrow> u32" where
  "service_id_code SERVICE_PADDING_CONTEXT = 0x4a414301"
| "service_id_code (ServiceId_other n) = n"
| "service_id_code s = of_nat (index_of service_ids s)"

datatype ProfileId =
    TAG_INTERNET_IOP | TAG_MULTIPLE_COMPONENTS | TAG_SCCP_IOP | TAG_UIPMC
  | TAG_MOBILE_TERMINAL_IOP | ProfileId_other u32

definition profile_id_cast :: "u32 \<Rightarrow> ProfileId" where
  "profile_id_cast n =
     (if n = 0 then TAG_INTERNET_IOP else if n = 1 then TAG_MULTIPLE_COMPONENTS
      else if n = 2 then TAG_SCCP_IOP else if n = 3 then TAG_UIPMC
      else if n = 4 then TAG_MOBILE_TERMINAL_IOP else ProfileId_other n)"

fun profile_id_code :: "ProfileId \<Rightarrow> u32" where
  "profile_id_code TAG_INTERNET_IOP = 0"
| "profile_id_code TAG_MULTIPLE_COMPONENTS = 1"
| "profile_id_code TAG_SCCP_IOP = 2"
| "profile_id_code TAG_UIPMC = 3"
| "profile_id_code TAG_MOBILE_TERMINAL_IOP = 4"
| "profile_id_code (ProfileId_other n) = n"

datatype AddressingDisposition =
    KEY_ADDR | PROFILE_ADDR | REFERENCE_ADDR | AddressingDisposition_other u16

definition addressing_cast :: "u16 \<Rightarrow> AddressingDisposition" where
  "addressing_cast n =
     (if n = 0 then KEY_ADDR else if n = 1 then PROFILE_ADDR
      else if n = 2 then REFERENCE_ADDR else AddressingDisposition_other n)"

fun addressing_code :: "AddressingDisposition \<Rightarrow> u16" where
  "addressing_code KEY_ADDR = 0"
| "addressing_code PROFILE_ADDR = 1"
| "addressing_code REFERENCE_ADDR = 2"
| "addressing_code (AddressingDisposition_other n) = n"

text \<open>Of the component ids the code uses \<open>ORB_TYPE\<close> alone; a component id is its number.\<close>

type_synonym ComponentId = u32

definition ORB_TYPE :: ComponentId where
  "ORB_TYPE = 0"

lemma message_type_cast_octet [simp]:
  "message_type_cast (message_type_octet t) = t"
  if "\<forall>b. t \<noteq> MessageType_other b"
  using that by (cases t) (simp_all add: message_type_cast_def)

lemma message_type_octet_cast [simp]: "message_type_octet (message_type_cast b) = b"
  by (simp add: message_type_cast_def)

lemma reply_status_cast_code [simp]:
  "reply_status_cast (reply_status_code s) = s"
  if "\<forall>n. s \<noteq> ReplyStatus_other n"
  using that by (cases s) (simp_all add: reply_status_cast_def)

lemma reply_status_code_cast [simp]: "reply_status_code (reply_status_cast n) = n"
  by (simp add: reply_status_cast_def)

lemma addressing_cast_KEY [simp]: "addressing_cast (addressing_code KEY_ADDR) = KEY_ADDR"
  by (simp add: addressing_cast_def)

lemma service_id_cast_code [simp]:
  "service_id_cast (service_id_code s) = s" if "\<forall>n. s \<noteq> ServiceId_other n"
  using that by (cases s) (simp_all add: service_id_cast_def service_ids_def)

section \<open>Headers\<close>

record RequestHeader =
  rq_requestId :: u32
  rq_responseExpected :: bool
  rq_objectKey :: bytes
  rq_operation :: bytes

record ReplyHeader =
  rp_requestId :: u32
  rp_replyStatus :: ReplyStatus

record LocateRequest =
  lr_requestId :: u32
  lr_objectKey :: bytes

section \<open>Connections as the messages see them\<close>

record HostAndPort =
  host :: bytes
  port :: u16

datatype ConnectionState = IDLE | PENDING | INPROGRESS | ESTABLISHED

text \<open>
  \<open>protocol_local\<close> is \<open>protocol->local\<close>, \<open>None\<close> where \<open>protocol\<close> is the null pointer.
  The interlock of the suspended calls is not part of this record.
\<close>

record connection =
  protocol_local :: "HostAndPort option"
  remote :: HostAndPort
  cstate :: ConnectionState
  requestId :: u32
  didSendBiDirIIOP :: bool

definition conn_init :: "HostAndPort option \<Rightarrow> HostAndPort \<Rightarrow> connection" where
  "conn_init local rem =
     \<lparr>protocol_local = local, remote = rem, cstate = IDLE, requestId = 0,
      didSendBiDirIIOP = False\<rparr>"

section \<open>Objects as the messages see them\<close>

text \<open>
  \<open>GIOPEncoder::writeObject\<close> asks for the dynamic type of its argument: null, a stub, a
  skeleton (each with its repository id and object key), an IOR, or anything else.
\<close>

datatype corba_object =
    NullObject
  | StubObject bytes bytes
  | SkeletonObject bytes bytes
  | IORObject
  | ValueObject

record ior =
  oid :: bytes
  ior_host :: bytes
  ior_port :: u16
  objectKey :: bytes

end
