(* ===== verification/GIOP_Encoder.thy ===== *)
theory GIOP_Encoder
  imports GIOP_Types
begin

text \<open>
  \<open>GIOPEncoder\<close> (src/corba/giop.hh, src/corba/giop.cc): messages are written into a CDR
  buffer, the body first and the headers, whose sizes depend on it, over the space left for
  them. An operation that can throw, or that follows a pointer that can be null, is a
  \<open>writer\<close>; the connection the encoder belongs to is part of its state, because sending
  the bi-directional service context is remembered there.
\<close>

section \<open>State\<close>

record giop_encoder =
  emajor :: u32
  eminor :: u32
  econn :: "connection option"
  ebuf :: cdr_encoder

definition giop_enc_init :: "connection option \<Rightarrow> giop_encoder" where
  "giop_enc_init c = \<lparr>emajor = 1, eminor = 2, econn = c, ebuf = enc_init\<rparr>"

definition on_buf :: "(cdr_encoder \<Rightarrow> cdr_encoder) \<Rightarrow> giop_encoder \<Rightarrow> giop_encoder" where
  "on_buf f e = e\<lparr>ebuf := f (ebuf e)\<rparr>"

definition set_offset :: "nat \<Rightarrow> cdr_encoder \<Rightarrow> cdr_encoder" where
  "set_offset off e = e\<lparr>eoffset := off\<rparr>"

text \<open>\<open>majorVersion == 1 && minorVersion <= 1\<close> and its companions.\<close>

definition v1_0_or_1 :: "u32 \<Rightarrow> u32 \<Rightarrow> bool" where
  "v1_0_or_1 major minor \<longleftrightarrow> major = 1 \<and> minor \<le> 1"

definition v1_2_or_more :: "u32 \<Rightarrow> u32 \<Rightarrow> bool" where
  "v1_2_or_more major minor \<longleftrightarrow> major = 1 \<and> 2 \<le> minor"

section \<open>Encapsulations\<close>

text \<open>\<open>reserveSize(); body; fillInSize();\<close>\<close>

definition write_sized :: "host \<Rightarrow> giop_encoder writer \<Rightarrow> giop_encoder writer" where
  "write_sized h body =
     wr_then (wr_ok (on_buf reserveSize))
    (wr_then body
    (\<lambda>e. case fillInSize h (ebuf e) of Inl err \<Rightarrow> Inl err | Inr b \<Rightarrow> Inr (e\<lparr>ebuf := b\<rparr>)))"

definition write_encapsulation :: "host \<Rightarrow> u32 \<Rightarrow> giop_encoder writer \<Rightarrow> giop_encoder writer" where
  "write_encapsulation h type closure =
     wr_then (wr_ok (on_buf (writeUlong h type)))
    (write_sized h (wr_then (wr_ok (on_buf (writeEndian h))) closure))"

text \<open>The three overloads of \<open>writeEncapsulation\<close> differ in the type of the tag.\<close>

definition writeEncapsulation_component ::
    "host \<Rightarrow> ComponentId \<Rightarrow> giop_encoder writer \<Rightarrow> giop_encoder writer" where
  "writeEncapsulation_component h type = write_encapsulation h type"

definition writeEncapsulation_profile ::
    "host \<Rightarrow> ProfileId \<Rightarrow> giop_encoder writer \<Rightarrow> giop_encoder writer" where
  "writeEncapsulation_profile h type = write_encapsulation h (profile_id_code type)"

definition writeEncapsulation_service ::
    "host \<Rightarrow> ServiceId \<Rightarrow> giop_encoder writer \<Rightarrow> giop_encoder writer" where
  "writeEncapsulation_service h type = write_encapsulation h (service_id_code type)"

section \<open>Object references\<close>

text \<open>Where the object can be reached: at the peer for a stub, at this ORB for a skeleton.\<close>

definition writeAddress :: "host \<Rightarrow> bool \<Rightarrow> giop_encoder writer" where
  "writeAddress h objectIsAStub e =
     (case econn e of
        None \<Rightarrow> Inl (RuntimeError ''GIOPEncoder::reference(...): the encoder has no connection and can not be reached over the network'')
      | Some c \<Rightarrow>
          if objectIsAStub
          then Inr (on_buf (\<lambda>b. writeUshort h (port (remote c)) (writeString h (host (remote c)) b)) e)
          else (case protocol_local c of
                  None \<Rightarrow> Inl NullDeref
                | Some l \<Rightarrow> Inr (on_buf (\<lambda>b. writeUshort h (port l) (writeString h (host l) b)) e)))"

definition writeReference :: "host \<Rightarrow> bytes \<Rightarrow> bytes \<Rightarrow> bool \<Rightarrow> giop_encoder writer" where
  "writeReference h className key objectIsAStub =
     wr_then (wr_ok (on_buf (writeString h className)))
    (wr_then (wr_ok (on_buf (writeUlong h 1)))
    (wr_then (wr_ok (on_buf (writeUlong h 0)))
    (write_sized h
      (wr_then (wr_ok (on_buf (writeEndian h)))
      (wr_then (wr_ok (\<lambda>e. on_buf (writeOctet (ucast (emajor e))) e))
      (wr_then (wr_ok (\<lambda>e. on_buf (writeOctet (ucast (eminor e))) e))
      (wr_then (writeAddress h objectIsAStub)
      (wr_then (wr_ok (on_buf (writeBlob h key)))
      (\<lambda>e. if emajor e \<noteq> 1 \<or> eminor e \<noteq> 0
           then wr_then (wr_ok (on_buf (writeUlong h 1)))
                  (writeEncapsulation_component h ORB_TYPE
                    (wr_ok (on_buf (writeUlong h 0x4d313300)))) e
           else Inr e)))))))))"

fun writeObject :: "host \<Rightarrow> corba_object \<Rightarrow> giop_encoder writer" where
  "writeObject h NullObject e =
     Inr (on_buf (\<lambda>b. writeUlong h 0 (writeOctet 0 (writeUlong h 1 b))) e)"
| "writeObject h (StubObject rid key) e = writeReference h rid key True e"
| "writeObject h (SkeletonObject rid key) e = writeReference h rid key False e"
| "writeObject h IORObject e =
     Inl (RuntimeError ''Can not serialize object reference yet.'')"
| "writeObject h ValueObject e = Inl (RuntimeError ''Can not serialize value type yet.'')"

section \<open>Headers\<close>

definition skipGIOPHeader :: "giop_encoder \<Rightarrow> giop_encoder" where
  "skipGIOPHeader = on_buf (set_offset 10)"

definition skipReplyHeader :: "giop_encoder \<Rightarrow> giop_encoder" where
  "skipReplyHeader = on_buf (set_offset 24)"

definition setGIOPHeader :: "host \<Rightarrow> MessageType \<Rightarrow> giop_encoder \<Rightarrow> giop_encoder" where
  "setGIOPHeader h type e =
     (let b = reserve_all (ebuf e);
          off = eoffset b;
          b1 = set_offset 0 b;
          b2 = fold writeOctet (lit ''GIOP'') b1;
          b3 = writeOctet (ucast (emajor e)) b2;
          b4 = writeOctet (ucast (eminor e)) b3;
          b5 = writeEndian h b4;
          b6 = writeOctet (message_type_octet type) b5;
          b7 = writeUlong h (of_int (int off - 12)) b6
      in e\<lparr>ebuf := set_offset off b7\<rparr>)"

definition setReplyHeader :: "host \<Rightarrow> u32 \<Rightarrow> ReplyStatus \<Rightarrow> giop_encoder \<Rightarrow> giop_encoder" where
  "setReplyHeader h rid status e =
     (let e1 = skipGIOPHeader e;
          e2 = (if emajor e1 = 1 \<and> eminor e1 < 2 then on_buf (writeUlong h 0) e1 else e1);
          e3 = on_buf (writeUlong h rid) e2;
          e4 = on_buf (writeUlong h (reply_status_code status)) e3
      in if v1_2_or_more (emajor e4) (eminor e4) then on_buf (writeUlong h 0) e4 else e4)"

definition writeServiceContext :: "host \<Rightarrow> giop_encoder writer" where
  "writeServiceContext h e =
     (case econn e of
        None \<Rightarrow> Inr (on_buf (writeUlong h 0) e)
      | Some c \<Rightarrow>
          (let off = eoffset (ebuf e);
               e1 = on_buf (writeUlong h 0) e;
               finish = (\<lambda>count e2.
                 let off0 = eoffset (ebuf e2) in
                 Inr (on_buf (\<lambda>b. set_offset off0 (writeUlong h count (set_offset off b))) e2))
           in if \<not> didSendBiDirIIOP c
              then wr_then
                (writeEncapsulation_service h BI_DIR_IIOP
                  (\<lambda>e. case protocol_local c of
                         None \<Rightarrow> Inl NullDeref
                       | Some l \<Rightarrow>
                           Inr (on_buf (\<lambda>b. writeUshort h (port l)
                                  (writeString h (host l) (writeUlong h 1 b))) e)))
                (finish 1)
                (e1\<lparr>econn := Some (c\<lparr>didSendBiDirIIOP := True\<rparr>)\<rparr>)
              else finish 0 e1))"

definition encodeRequest ::
    "host \<Rightarrow> bytes \<Rightarrow> bytes \<Rightarrow> u32 \<Rightarrow> bool \<Rightarrow> giop_encoder writer" where
  "encodeRequest h key operation rid responseExpected e0 =
     (let old = v1_0_or_1 (emajor e0) (eminor e0) in
      wr_then (wr_ok skipGIOPHeader)
     (wr_then (if old then writeServiceContext h else wr_ok (\<lambda>e. e))
     (wr_then (wr_ok (on_buf (writeUlong h rid)))
     (wr_then (wr_ok (on_buf (writeOctet
                (if old then (if responseExpected then 1 else 0)
                 else (if responseExpected then 3 else 0)))))
     (wr_then (wr_ok (on_buf (\<lambda>b. set_offset (eoffset b + 3) b)))
     (wr_then (if old then wr_ok (on_buf (writeBlob h key))
               else wr_ok (on_buf (\<lambda>b. writeBlob h key (writeUshort h (addressing_code KEY_ADDR) b))))
     (wr_then (wr_ok (on_buf (writeString h operation)))
     (if old then wr_ok (on_buf (writeUlong h 0))
      else wr_then (writeServiceContext h) (wr_ok (on_buf enc_align8))))))))) e0)"

definition encodeLocateReply :: "host \<Rightarrow> u32 \<Rightarrow> LocateStatusType \<Rightarrow> giop_encoder \<Rightarrow> giop_encoder" where
  "encodeLocateReply h rid status e =
     on_buf (\<lambda>b. writeUlong h (locate_status_code status) (writeUlong h rid b)) (skipGIOPHeader e)"

section \<open>What the encoder emits\<close>

text \<open>
  \<open>gemits\<close> lifts \<open>emits\<close> to the message encoder: the operation succeeds, appends a
  marshalling and changes the rest of the state by \<open>u\<close> (the identity, or the note that
  the service context has been sent).
\<close>

definition gemits ::
    "(giop_encoder \<Rightarrow> bool) \<Rightarrow> giop_encoder writer \<Rightarrow> (giop_encoder \<Rightarrow> giop_encoder) \<Rightarrow> marshal \<Rightarrow> bool" where
  "gemits P w u f \<longleftrightarrow>
     (\<forall>e. P e \<longrightarrow> append_mode (ebuf e) \<longrightarrow>
        (\<exists>b. w e = Inr ((u e)\<lparr>ebuf := b\<rparr>) \<and> append_mode b \<and>
             stream b = stream (ebuf e) @ f (eoffset (ebuf e)) \<and>
             sizeStack b = sizeStack (ebuf e)))"

text \<open>A condition and an update that do not look at the buffer.\<close>

definition buf_free :: "(giop_encoder \<Rightarrow> 'a) \<Rightarrow> bool" where
  "buf_free P \<longleftrightarrow> (\<forall>e b. P (e\<lparr>ebuf := b\<rparr>) = P e)"

definition buf_free_upd :: "(giop_encoder \<Rightarrow> giop_encoder) \<Rightarrow> bool" where
  "buf_free_upd u \<longleftrightarrow> (\<forall>e b. (u (e\<lparr>ebuf := b\<rparr>))\<lparr>ebuf := b\<rparr> = (u e)\<lparr>ebuf := b\<rparr>)"

lemma gemitsE:
  assumes "gemits P w u f" and "P e" and "append_mode (ebuf e)"
  obtains b where "w e = Inr ((u e)\<lparr>ebuf := b\<rparr>)" "append_mode b"
    "stream b = stream (ebuf e) @ f (eoffset (ebuf e))" "sizeStack b = sizeStack (ebuf e)"
    "eoffset b = eoffset (ebuf e) + length (f (eoffset (ebuf e)))"
proof -
  obtain b where b: "w e = Inr ((u e)\<lparr>ebuf := b\<rparr>)" "append_mode b"
    "stream b = stream (ebuf e) @ f (eoffset (ebuf e))" "sizeStack b = sizeStack (ebuf e)"
    using assms by (auto simp: gemits_def)
  moreover have "eoffset b = eoffset (ebuf e) + length (f (eoffset (ebuf e)))"
    using b(3) length_stream [OF b(2)] length_stream [OF assms(3)] by simp
  ultimately show ?thesis using that by simp
qed

lemma gemits_buf: "emits w f \<Longrightarrow> gemits P (wr_ok (on_buf w)) (\<lambda>e. e) f"
  by (auto simp: gemits_def on_buf_def emits_def)

lemma gemits_then:
  assumes m: "gemits P m u f" and k: "gemits Q k u' g" and "buf_free Q"
    and Q: "\<And>e. P e \<Longrightarrow> Q (u e)" and u': "buf_free_upd u'"
  shows "gemits P (wr_then m k) (\<lambda>e. u' (u e)) (cdr_seq f g)"
  unfolding gemits_def
proof (intro allI impI)
  fix e :: giop_encoder
  assume "P e" and am: "append_mode (ebuf e)"
  from gemitsE [OF m this] obtain b where b: "m e = Inr ((u e)\<lparr>ebuf := b\<rparr>)" "append_mode b"
    "stream b = stream (ebuf e) @ f (eoffset (ebuf e))" "sizeStack b = sizeStack (ebuf e)"
    "eoffset b = eoffset (ebuf e) + length (f (eoffset (ebuf e)))" by blast
  let ?e1 = "(u e)\<lparr>ebuf := b\<rparr>"
  have "Q ?e1" using Q [OF \<open>P e\<close>] assms(3) by (simp add: buf_free_def)
  moreover have "append_mode (ebuf ?e1)" using b(2) by simp
  ultimately have "\<exists>b'. k ?e1 = Inr ((u' ?e1)\<lparr>ebuf := b'\<rparr>) \<and> append_mode b' \<and>
      stream b' = stream (ebuf ?e1) @ g (eoffset (ebuf ?e1)) \<and> sizeStack b' = sizeStack (ebuf ?e1)"
    using k unfolding gemits_def by blast
  then obtain b' where b': "k ?e1 = Inr ((u' ?e1)\<lparr>ebuf := b'\<rparr>)" "append_mode b'"
    "stream b' = stream b @ g (eoffset b)" "sizeStack b' = sizeStack b"
    by auto
  have "(u' ?e1)\<lparr>ebuf := b'\<rparr> = (u' (u e))\<lparr>ebuf := b'\<rparr>"
  proof -
    have "(u' ?e1)\<lparr>ebuf := b'\<rparr> = ((u' ?e1)\<lparr>ebuf := b\<rparr>)\<lparr>ebuf := b'\<rparr>" by simp
    also have "\<dots> = ((u' (u e))\<lparr>ebuf := b\<rparr>)\<lparr>ebuf := b'\<rparr>"
      using u' by (simp only: buf_free_upd_def)
    finally show ?thesis by simp
  qed
  then show "\<exists>b. wr_then m k e = Inr ((u' (u e))\<lparr>ebuf := b\<rparr>) \<and> append_mode b \<and>
      stream b = stream (ebuf e) @ cdr_seq f g (eoffset (ebuf e)) \<and>
      sizeStack b = sizeStack (ebuf e)"
    using b b' by (auto simp: wr_then_Inr cdr_seq_def)
qed

end
