(* ===== verification/GIOP_Decoder.thy ===== *)
theory GIOP_Decoder
  imports GIOP_Encoder
begin

text \<open>
  \<open>GIOPDecoder\<close> (src/corba/giop.hh, src/corba/giop.cc): scans the headers of a message and
  reads object references. The decoder's connection is part of its state, because a
  bi-directional service context renames the connection's remote end.
\<close>

section \<open>State\<close>

record giop_decoder =
  dmajor :: u32
  dminor :: u32
  dconn :: "connection option"
  dbuf :: cdr_decoder
  m_type :: MessageType
  m_length :: nat
  drequestId :: u32
  dreplyStatus :: ReplyStatus

type_synonym 'a giop_reader = "('a, giop_decoder) reader"

text \<open>
  The members without initialiser (\<open>m_type\<close>, \<open>m_length\<close>, \<open>requestId\<close>, \<open>replyStatus\<close>)
  are written by the scans before anything reads them; what they start with is a parameter.
\<close>

definition giop_dec_init :: "giop_decoder \<Rightarrow> connection option \<Rightarrow> cdr_decoder \<Rightarrow> giop_decoder" where
  "giop_dec_init any c d = any\<lparr>dmajor := 1, dminor := 2, dconn := c, dbuf := d\<rparr>"

definition cdr :: "'a cdr_reader \<Rightarrow> 'a giop_reader" where
  "cdr rd g = (case rd (dbuf g) of Inl err \<Rightarrow> Inl err | Inr (v, b) \<Rightarrow> Inr (v, g\<lparr>dbuf := b\<rparr>))"

section \<open>The GIOP header\<close>

definition scanGIOPHeader :: "host \<Rightarrow> MessageType giop_reader" where
  "scanGIOPHeader h g =
     (if length (ddata (dbuf g)) < 16
      then Inl (RuntimeError ''Packet too small, need at least 16 octets for GIOP Header, got {}'')
      else if take 4 (ddata (dbuf g)) \<noteq> lit ''GIOP''
      then Inl (RuntimeError ''Missing GIOP Header'')
      else
        rd_bind (cdr (rd_upd (setOffset 4))) (\<lambda>_.
        rd_bind (cdr readOctet) (\<lambda>major.
        rd_bind (rd_upd (\<lambda>g. g\<lparr>dmajor := ucast major\<rparr>)) (\<lambda>_.
        rd_bind (cdr readOctet) (\<lambda>minor.
        rd_bind (rd_upd (\<lambda>g. g\<lparr>dminor := ucast minor\<rparr>)) (\<lambda>_.
        rd_bind (cdr readOctet) (\<lambda>flags.
        rd_bind (cdr (rd_upd (setLittleEndian (flags AND 1 \<noteq> 0)))) (\<lambda>_.
        rd_bind (cdr readOctet) (\<lambda>t.
        rd_bind (rd_upd (\<lambda>g. g\<lparr>m_type := message_type_cast t\<rparr>)) (\<lambda>_.
        rd_bind (cdr (readUlong h)) (\<lambda>len.
        rd_bind (rd_upd (\<lambda>g. g\<lparr>m_length := unat len\<rparr>)) (\<lambda>_.
        rd_return (message_type_cast t)))))))))))) g)"

section \<open>Encapsulations and service contexts\<close>

definition read_encapsulation :: "host \<Rightarrow> (u32 \<Rightarrow> 'a giop_reader) \<Rightarrow> 'a giop_reader" where
  "read_encapsulation h closure =
     rd_bind (cdr (readUlong h)) (\<lambda>type.
     rd_bind (cdr (readUlong h)) (\<lambda>size.
     rd_bind (rd_get (\<lambda>g. m_offset (dbuf g) + unat size)) (\<lambda>nextOffset.
     rd_bind (rd_get (\<lambda>g. dendian (dbuf g))) (\<lambda>lastEndian.
     rd_bind (cdr readOctet) (\<lambda>flags.
     rd_bind (cdr (rd_upd (setLittleEndian (flags AND 1 \<noteq> 0)))) (\<lambda>_.
     rd_bind (closure type) (\<lambda>v.
     rd_bind (cdr (rd_upd (\<lambda>d. d\<lparr>dendian := lastEndian\<rparr>))) (\<lambda>_.
     rd_bind (cdr (rd_upd (setOffset nextOffset))) (\<lambda>_.
     rd_return v)))))))))"

definition readEncapsulation_component ::
    "host \<Rightarrow> (ComponentId \<Rightarrow> 'a giop_reader) \<Rightarrow> 'a giop_reader" where
  "readEncapsulation_component h closure = read_encapsulation h closure"

definition readEncapsulation_profile ::
    "host \<Rightarrow> (ProfileId \<Rightarrow> 'a giop_reader) \<Rightarrow> 'a giop_reader" where
  "readEncapsulation_profile h closure =
     read_encapsulation h (\<lambda>type. closure (profile_id_cast type))"

definition readEncapsulation_service ::
    "host \<Rightarrow> (ServiceId \<Rightarrow> 'a giop_reader) \<Rightarrow> 'a giop_reader" where
  "readEncapsulation_service h closure =
     read_encapsulation h (\<lambda>type. closure (service_id_cast type))"

text \<open>One listen point of a \<open>BI_DIR_IIOP\<close> context.\<close>

definition listen_point :: "bytes \<Rightarrow> u16 \<Rightarrow> unit giop_reader" where
  "listen_point hst prt g =
     (case dconn g of
        None \<Rightarrow> Inl NullDeref
      | Some c \<Rightarrow>
          if hst \<noteq> host (remote c) \<and> prt \<noteq> port (remote c)
          then Inr ((), g\<lparr>dconn := Some (c\<lparr>remote := (remote c)\<lparr>host := hst, port := prt\<rparr>\<rparr>)\<rparr>)
          else Inr ((), g))"

definition readServiceContext_entry :: "host \<Rightarrow> ServiceId \<Rightarrow> unit giop_reader" where
  "readServiceContext_entry h serviceId =
     (case serviceId of
        BI_DIR_IIOP \<Rightarrow>
          rd_bind (cdr (readUlong h)) (\<lambda>count.
          rd_bind (rd_times (unat count)
            (rd_bind (cdr (readStringView h)) (\<lambda>hst.
             rd_bind (cdr (readUshort h)) (\<lambda>prt.
             listen_point hst prt)))) (\<lambda>_. rd_return ()))
      | _ \<Rightarrow> rd_return ())"

definition readServiceContext :: "host \<Rightarrow> unit giop_reader" where
  "readServiceContext h =
     rd_bind (cdr (readUlong h)) (\<lambda>n.
     rd_bind (rd_times (unat n) (readEncapsulation_service h (readServiceContext_entry h))) (\<lambda>_.
     rd_return ()))"

section \<open>Message headers\<close>

definition when_old :: "'a giop_reader \<Rightarrow> 'a giop_reader \<Rightarrow> 'a giop_reader" where
  "when_old a b g = (if v1_0_or_1 (dmajor g) (dminor g) then a g else b g)"

definition readAddressing :: "host \<Rightarrow> bytes giop_reader" where
  "readAddressing h =
     rd_bind (cdr (readUshort h)) (\<lambda>n.
       (case addressing_cast n of
          KEY_ADDR \<Rightarrow> cdr (readBlobView h)
        | PROFILE_ADDR \<Rightarrow> rd_throw (RuntimeError ''Unsupported AddressingDisposition.'')
        | REFERENCE_ADDR \<Rightarrow> rd_throw (RuntimeError ''Unsupported AddressingDisposition.'')
        | AddressingDisposition_other _ \<Rightarrow>
            rd_throw (RuntimeError ''Unknown AddressingDisposition.'')))"

text \<open>
  The request header object is value-initialised, so \<open>responseExpected\<close> is false where no
  case of the \<open>switch\<close> sets it.
\<close>

definition scanRequestHeader :: "host \<Rightarrow> RequestHeader giop_reader" where
  "scanRequestHeader h =
     rd_bind (when_old (readServiceContext h) (rd_return ())) (\<lambda>_.
     rd_bind (cdr (readUlong h)) (\<lambda>rid.
     rd_bind (cdr readOctet) (\<lambda>responseFlags.
     rd_bind (when_old (rd_return (responseFlags \<noteq> 0)) (rd_return (responseFlags = 3))) (\<lambda>responseExpected.
     rd_bind (cdr (rd_upd (dec_skip 3))) (\<lambda>_.
     rd_bind (when_old (cdr (readBlobView h)) (readAddressing h)) (\<lambda>key.
     rd_bind (cdr (readStringView h)) (\<lambda>operation.
     rd_bind (when_old (rd_bind (cdr (readUlong h)) (\<lambda>_. rd_return ()))
                (rd_bind (readServiceContext h) (\<lambda>_. cdr (rd_upd dec_align8)))) (\<lambda>_.
     rd_return \<lparr>rq_requestId = rid, rq_responseExpected = responseExpected,
                rq_objectKey = key, rq_operation = operation\<rparr>))))))))"

definition scanLocateRequest :: "host \<Rightarrow> LocateRequest giop_reader" where
  "scanLocateRequest h =
     rd_bind (cdr (readUlong h)) (\<lambda>rid.
     rd_bind (rd_upd (\<lambda>g. g\<lparr>drequestId := rid\<rparr>)) (\<lambda>_.
     rd_bind (when_old (cdr (readBlobView h)) (readAddressing h)) (\<lambda>key.
     rd_return \<lparr>lr_requestId = rid, lr_objectKey = key\<rparr>)))"

definition scanReplyHeader :: "host \<Rightarrow> ReplyHeader giop_reader" where
  "scanReplyHeader h =
     rd_bind (when_old (readServiceContext h) (rd_return ())) (\<lambda>_.
     rd_bind (cdr (readUlong h)) (\<lambda>rid.
     rd_bind (rd_upd (\<lambda>g. g\<lparr>drequestId := rid\<rparr>)) (\<lambda>_.
     rd_bind (cdr (readUlong h)) (\<lambda>n.
     rd_bind (rd_upd (\<lambda>g. g\<lparr>dreplyStatus := reply_status_cast n\<rparr>)) (\<lambda>_.
     rd_bind (\<lambda>g. if v1_2_or_more (dmajor g) (dminor g) then readServiceContext h g else Inr ((), g)) (\<lambda>_.
     rd_return \<lparr>rp_requestId = rid, rp_replyStatus = reply_status_cast n\<rparr>))))))"

section \<open>Object references\<close>

text \<open>
  The loop over the profiles assigns the locals \<open>host\<close>, \<open>port\<close> and \<open>objectKey\<close>; \<open>port\<close>
  starts without a value (\<open>None\<close>) and is read when the result is made.
\<close>

fun rd_loop :: "nat \<Rightarrow> ('a \<Rightarrow> ('a, 's) reader) \<Rightarrow> 'a \<Rightarrow> ('a, 's) reader" where
  "rd_loop 0 body acc = rd_return acc"
| "rd_loop (Suc n) body acc = rd_bind (body acc) (\<lambda>acc'. rd_loop n body acc')"

type_synonym profile = "bytes \<times> u16 option \<times> bytes"

definition readProfile :: "host \<Rightarrow> profile \<Rightarrow> ProfileId \<Rightarrow> profile giop_reader" where
  "readProfile h acc profileId =
     (case profileId of
        TAG_INTERNET_IOP \<Rightarrow>
          rd_bind (cdr readOctet) (\<lambda>iiopMajorVersion.
          rd_bind (cdr readOctet) (\<lambda>iiopMinorVersion.
          rd_bind (cdr (readString h)) (\<lambda>hst.
          rd_bind (cdr (readUshort h)) (\<lambda>prt.
          rd_bind (cdr (readBlob h)) (\<lambda>key.
          rd_return (hst, Some prt, key))))))
      | _ \<Rightarrow> rd_return acc)"

definition readReferenceN :: "host \<Rightarrow> nat \<Rightarrow> ior giop_reader" where
  "readReferenceN h len =
     rd_bind (cdr (readStringN len)) (\<lambda>id.
     rd_bind (cdr (readUlong h)) (\<lambda>profileCount.
     rd_bind (rd_loop (unat profileCount)
       (\<lambda>acc. readEncapsulation_profile h (readProfile h acc)) ([], None, [])) (\<lambda>(hst, prt, key).
       (case prt of
          None \<Rightarrow> rd_throw Uninitialised
        | Some p \<Rightarrow>
            rd_return \<lparr>oid = id, ior_host = hst, ior_port = p, objectKey = key\<rparr>))))"

definition readReference :: "host \<Rightarrow> ior giop_reader" where
  "readReference h = rd_bind (cdr (readUlong h)) (\<lambda>n. readReferenceN h (unat n))"

text \<open>\<open>has_orb\<close>: the argument \<open>orb\<close> is not null. The result \<open>None\<close> is the null reference.\<close>

definition readObject :: "host \<Rightarrow> bool \<Rightarrow> ior option giop_reader" where
  "readObject h has_orb =
     rd_bind (cdr (readUlong h)) (\<lambda>code.
       if code = 0 then rd_return None
       else if code AND 0xffffff00 = 0x7fffff00
       then rd_throw (RuntimeError ''GIOPDecoder::object(): value types are not implemented yet'')
       else if code = 0xffffffff
       then rd_throw (RuntimeError ''GIOPDecoder::object(): pointers are not implemented yet'')
       else if code < 0x7fffff00
       then (if \<not> has_orb
             then rd_throw (RuntimeError ''GIOPDecoder::object(orb): orb must not be null'')
             else rd_bind (readReferenceN h (unat code)) (\<lambda>ref. rd_return (Some ref)))
       else rd_throw (RuntimeError ''GIOPDecoder: Unsupported value with CORBA tag {:#x}''))"


text \<open>
  The reads of signed integers return unsigned types here, other than those of \<open>CDRDecoder\<close>, whose
  words are read by \<open>sint\<close>.
\<close>

definition giop_readShort :: "host \<Rightarrow> int giop_reader" where
  "giop_readShort h = rd_bind (cdr (readShort h)) (\<lambda>v. rd_return (uint v))"

definition giop_readLong :: "host \<Rightarrow> int giop_reader" where
  "giop_readLong h = rd_bind (cdr (readLong h)) (\<lambda>v. rd_return (uint v))"

definition giop_readLonglong :: "host \<Rightarrow> int giop_reader" where
  "giop_readLonglong h = rd_bind (cdr (readLonglong h)) (\<lambda>v. rd_return (uint v))"

end
