(* ===== verification/GIOP_Format.thy ===== *)
theory GIOP_Format
  imports GIOP_Decoder
begin

text \<open>
  The layout of GIOP messages as marshallings, and the proofs that the encoder emits them.
\<close>

section \<open>Layouts\<close>

definition cdr_encaps :: "endian \<Rightarrow> u32 \<Rightarrow> marshal \<Rightarrow> marshal" where
  "cdr_encaps en type content =
     cdr_seq (cdr_ulong en type) (cdr_sized en (cdr_seq (cdr_raw [endian_octet en]) content))"

definition cdr_address :: "endian \<Rightarrow> HostAndPort \<Rightarrow> marshal" where
  "cdr_address en a = cdr_seq (cdr_string en (host a)) (cdr_word en 2 (port a))"

definition cdr_components :: "endian \<Rightarrow> u32 \<Rightarrow> u32 \<Rightarrow> marshal" where
  "cdr_components en major minor =
     (if major \<noteq> 1 \<or> minor \<noteq> 0
      then cdr_seq (cdr_ulong en 1) (cdr_encaps en ORB_TYPE (cdr_ulong en 0x4d313300))
      else cdr_raw [])"

definition cdr_profile :: "endian \<Rightarrow> u32 \<Rightarrow> u32 \<Rightarrow> HostAndPort \<Rightarrow> bytes \<Rightarrow> marshal" where
  "cdr_profile en major minor a key =
     cdr_seq (cdr_raw [ucast major]) (cdr_seq (cdr_raw [ucast minor])
    (cdr_seq (cdr_address en a) (cdr_blob en key)))"

definition cdr_reference ::
    "endian \<Rightarrow> u32 \<Rightarrow> u32 \<Rightarrow> bytes \<Rightarrow> HostAndPort \<Rightarrow> bytes \<Rightarrow> marshal" where
  "cdr_reference en major minor className a key =
     cdr_seq (cdr_string en className) (cdr_seq (cdr_ulong en 1)
       (cdr_encaps en 0 (cdr_seq (cdr_profile en major minor a key)
         (cdr_components en major minor))))"

text \<open>
  The service context of a request: empty without a connection or once the listen point has
  been sent over this connection, else the one bi-directional context.
\<close>

fun cdr_service_context :: "endian \<Rightarrow> connection option \<Rightarrow> marshal" where
  "cdr_service_context en None = cdr_ulong en 0"
| "cdr_service_context en (Some c) =
     (if didSendBiDirIIOP c then cdr_ulong en 0
      else cdr_seq (cdr_ulong en 1)
        (cdr_encaps en (service_id_code BI_DIR_IIOP)
          (cdr_seq (cdr_ulong en 1) (cdr_address en (the (protocol_local c))))))"

definition cdr_request ::
    "endian \<Rightarrow> bool \<Rightarrow> connection option \<Rightarrow> bytes \<Rightarrow> bytes \<Rightarrow> u32 \<Rightarrow> bool \<Rightarrow> marshal" where
  "cdr_request en old c key operation rid responseExpected =
     cdr_seq (if old then cdr_service_context en c else cdr_raw [])
    (cdr_seq (cdr_ulong en rid)
    (cdr_seq (cdr_raw [if old then (if responseExpected then 1 else 0)
                       else (if responseExpected then 3 else 0)])
    (cdr_seq (cdr_raw [0, 0, 0])
    (cdr_seq (if old then cdr_blob en key
              else cdr_seq (cdr_word en 2 (addressing_code KEY_ADDR)) (cdr_blob en key))
    (cdr_seq (cdr_string en operation)
    (if old then cdr_ulong en 0 else cdr_seq (cdr_service_context en c) (cdr_pad 8)))))))"

definition giop_header :: "endian \<Rightarrow> u32 \<Rightarrow> u32 \<Rightarrow> MessageType \<Rightarrow> nat \<Rightarrow> bytes" where
  "giop_header en major minor type len =
     lit ''GIOP'' @ [ucast major, ucast minor, endian_octet en, message_type_octet type] @
     order_bytes en 4 (of_nat len :: u32)"

definition reply_header :: "endian \<Rightarrow> u32 \<Rightarrow> u32 \<Rightarrow> ReplyStatus \<Rightarrow> bytes" where
  "reply_header en minor rid status =
     (let ctx = order_bytes en 4 (0 :: u32);
          hd = order_bytes en 4 rid @ order_bytes en 4 (reply_status_code status)
      in if minor < 2 then ctx @ hd else hd @ ctx)"

lemma length_giop_header [simp]: "length (giop_header en major minor type len) = 12"
  by (simp add: giop_header_def)

lemma length_reply_header [simp]: "length (reply_header en minor rid status) = 12"
  by (simp add: reply_header_def Let_def)

section \<open>Combining emissions\<close>

text \<open>Conditions on the encoder that do not look at its buffer: its version and connection.\<close>

definition enc_is :: "u32 \<Rightarrow> u32 \<Rightarrow> connection option \<Rightarrow> giop_encoder \<Rightarrow> bool" where
  "enc_is major minor c e \<longleftrightarrow> emajor e = major \<and> eminor e = minor \<and> econn e = c"

definition sent_bidir :: "giop_encoder \<Rightarrow> giop_encoder" where
  "sent_bidir e = e\<lparr>econn := map_option (\<lambda>c. c\<lparr>didSendBiDirIIOP := True\<rparr>) (econn e)\<rparr>"

lemma buf_free_enc_is [simp]: "buf_free (enc_is major minor c)"
  by (simp add: buf_free_def enc_is_def)

lemma buf_free_upd_simps [simp]: "buf_free_upd (\<lambda>e. e)" "buf_free_upd sent_bidir"
  by (simp_all add: buf_free_upd_def sent_bidir_def)

lemma gemits_seq:
  assumes "gemits (enc_is M m c) w1 (\<lambda>e. e) f" and "gemits (enc_is M m c) w2 u g"
    and "buf_free_upd u"
  shows "gemits (enc_is M m c) (wr_then w1 w2) u (cdr_seq f g)"
  using gemits_then [OF assms(1,2)] assms(3) by simp

lemma gemits_seq':
  assumes "gemits (enc_is M m c) w1 u f" and "\<And>c. gemits (enc_is M m c) w2 (\<lambda>e. e) g"
    and "buf_free_upd u" and "\<And>e. enc_is M m c e \<Longrightarrow> enc_is M m c' (u e)"
  shows "gemits (enc_is M m c) (wr_then w1 w2) u (cdr_seq f g)"
  using gemits_then [OF assms(1) assms(2) [of c']] assms(4) by simp

lemma gemits_cong: "gemits P w u f \<Longrightarrow> (\<And>e. P e \<Longrightarrow> w e = w' e) \<Longrightarrow> f = f' \<Longrightarrow> gemits P w' u f'"
  by (simp add: gemits_def)

lemma gemits_octet_of:
  "(\<And>e. P e \<Longrightarrow> k e = v) \<Longrightarrow> gemits P (wr_ok (\<lambda>e. on_buf (writeOctet (k e)) e)) (\<lambda>e. e) (cdr_raw [v])"
  using gemits_buf [OF emits_octet [of v], of P] by (simp add: gemits_def)

lemma gemits_nop: "gemits P (\<lambda>e. Inr e) (\<lambda>e. e) (cdr_raw [])"
proof -
  have "gemits P (wr_ok (on_buf (\<lambda>b. b))) (\<lambda>e. e) (cdr_raw [])"
    by (rule gemits_buf [OF emits_id])
  then show ?thesis by (rule gemits_cong) (simp_all add: on_buf_def)
qed

lemma gemits_sized:
  assumes body: "gemits P body u f" and P: "buf_free P" and u: "buf_free_upd u"
  shows "gemits P (write_sized h body) u (cdr_sized (native h) f)"
  unfolding gemits_def
proof (intro allI impI)
  fix e :: giop_encoder
  assume e: "P e" "append_mode (ebuf e)"
  let ?e1 = "on_buf reserveSize e"
  have "P ?e1" "append_mode (ebuf ?e1)"
    using e P reserveSize_append(1) [OF e(2)] by (simp_all add: on_buf_def buf_free_def)
  from gemitsE [OF body this] obtain b where b: "body ?e1 = Inr ((u ?e1)\<lparr>ebuf := b\<rparr>)" "append_mode b"
    "stream b = stream (reserveSize (ebuf e)) @ f (eoffset (reserveSize (ebuf e)))"
    "sizeStack b = sizeStack (reserveSize (ebuf e))"
    by (auto simp: on_buf_def)
  from fillInSize_frame [where f = f, OF e(2) b(2-4)] obtain e3 where e3: "fillInSize h b = Inr e3"
    "append_mode e3" "stream e3 = stream (ebuf e) @ cdr_sized (native h) f (eoffset (ebuf e))"
    "sizeStack e3 = sizeStack (ebuf e)" by blast
  have "(u ?e1)\<lparr>ebuf := e3\<rparr> = ((u ?e1)\<lparr>ebuf := reserveSize (ebuf e)\<rparr>)\<lparr>ebuf := e3\<rparr>" by simp
  also have "\<dots> = (u e)\<lparr>ebuf := e3\<rparr>"
    using u by (simp add: on_buf_def buf_free_upd_def)
  finally show "\<exists>b. write_sized h body e = Inr ((u e)\<lparr>ebuf := b\<rparr>) \<and> append_mode b \<and>
      stream b = stream (ebuf e) @ cdr_sized (native h) f (eoffset (ebuf e)) \<and>
      sizeStack b = sizeStack (ebuf e)"
    using b(1) e3 by (auto simp: write_sized_def wr_then_Inr)
qed

lemma gemits_encapsulation:
  assumes "gemits (enc_is M m c) closure u f" and "buf_free_upd u"
  shows "gemits (enc_is M m c) (write_encapsulation h type closure) u
    (cdr_encaps (native h) type f)"
  unfolding write_encapsulation_def cdr_encaps_def
  using assms
  by (intro gemits_seq gemits_buf emits_intros gemits_sized) simp_all

section \<open>Object references\<close>

lemma emits_address:
  "emits (\<lambda>b. writeUshort h (port a) (writeString h (host a) b)) (cdr_address (native h) a)"
  unfolding cdr_address_def by (rule emits_comp [OF emits_string emits_word(1)])

text \<open>The address that ends up in the reference.\<close>

definition reach :: "bool \<Rightarrow> connection \<Rightarrow> HostAndPort option" where
  "reach objectIsAStub c = (if objectIsAStub then Some (remote c) else protocol_local c)"

lemma gemits_address:
  assumes "reach stub c = Some a"
  shows "gemits (enc_is M m (Some c)) (writeAddress h stub) (\<lambda>e. e) (cdr_address (native h) a)"
  by (rule gemits_cong [OF gemits_buf [OF emits_address] _ refl])
     (use assms in \<open>auto simp: writeAddress_def enc_is_def reach_def split: if_splits\<close>)

lemma gemits_components:
  "gemits (enc_is M m c)
     (\<lambda>e. if emajor e \<noteq> 1 \<or> eminor e \<noteq> 0
          then wr_then (wr_ok (on_buf (writeUlong h 1)))
                 (writeEncapsulation_component h ORB_TYPE
                   (wr_ok (on_buf (writeUlong h 0x4d313300)))) e
          else Inr e)
     (\<lambda>e. e) (cdr_components (native h) M m)"
proof (cases "M \<noteq> 1 \<or> m \<noteq> 0")
  case True
  have "gemits (enc_is M m c) (wr_then (wr_ok (on_buf (writeUlong h 1)))
      (writeEncapsulation_component h ORB_TYPE (wr_ok (on_buf (writeUlong h 0x4d313300)))))
      (\<lambda>e. e) (cdr_components (native h) M m)"
    unfolding cdr_components_def writeEncapsulation_component_def if_P [OF True]
    by (intro gemits_seq gemits_encapsulation gemits_buf emits_intros) simp_all
  then show ?thesis by (rule gemits_cong) (use True in \<open>auto simp: enc_is_def\<close>)
next
  case False
  then show ?thesis
    by (intro gemits_cong [OF gemits_nop]) (auto simp: enc_is_def cdr_components_def)
qed

lemma gemits_reference:
  assumes "reach stub c = Some a"
  shows "gemits (enc_is M m (Some c)) (writeReference h className key stub) (\<lambda>e. e)
    (cdr_reference (native h) M m className a key)"
proof -
  have "cdr_reference (native h) M m className a key =
      cdr_seq (cdr_string (native h) className) (cdr_seq (cdr_ulong (native h) 1)
     (cdr_seq (cdr_ulong (native h) 0) (cdr_sized (native h)
     (cdr_seq (cdr_raw [endian_octet (native h)]) (cdr_seq (cdr_raw [ucast M])
     (cdr_seq (cdr_raw [ucast m]) (cdr_seq (cdr_address (native h) a)
     (cdr_seq (cdr_blob (native h) key) (cdr_components (native h) M m)))))))))"
    by (simp add: cdr_reference_def cdr_encaps_def cdr_profile_def cdr_seq_assoc)
  then show ?thesis
    unfolding writeReference_def
    by (simp only:)
       (intro gemits_seq gemits_buf emits_intros gemits_sized gemits_octet_of gemits_components
         gemits_address [OF assms]; simp add: enc_is_def)
qed

section \<open>Requests\<close>

text \<open>A connection whose listen point can be sent: one with a protocol, or with nothing to send.\<close>

fun listen_point_known :: "connection option \<Rightarrow> bool" where
  "listen_point_known None = True"
| "listen_point_known (Some c) = (didSendBiDirIIOP c \<or> protocol_local c \<noteq> None)"

lemma set_offset_write:
  assumes "append_mode b" and "off + padding 4 off + 4 \<le> eoffset b"
  shows "append_mode (set_offset (eoffset b) (writeUlong h v (set_offset off b)))"
    and "stream (set_offset (eoffset b) (writeUlong h v (set_offset off b))) =
      overwrite (off + padding 4 off) (order_bytes (native h) 4 v) (stream b)"
    and "sizeStack (set_offset (eoffset b) (writeUlong h v (set_offset off b))) = sizeStack b"
  using patch_stream [OF assms(1), of "off + padding 4 off" "native_bytes h 4 v"] assms(2)
  by (simp_all add: writeUlong_def enc_align4_def align_mask_3_padding put_frame
      native_bytes_order set_offset_def)

lemma overwrite_pad_word:
  assumes "length s = off"
  shows "overwrite (off + padding 4 off) (order_bytes en 4 v) (s @ cdr_ulong en w off @ rest) =
    s @ cdr_ulong en v off @ rest"
  using overwrite_middle [of "order_bytes en 4 w" "order_bytes en 4 v"
      "s @ replicate (padding 4 off) 0" rest] assms
  by (simp add: cdr_ulong_def cdr_word_def cdr_seq_def cdr_pad_def)

lemma count_patched:
  fixes v :: u32
  assumes "append_mode b0" and "append_mode b"
    and "stream b = stream b0 @ cdr_ulong (native h) w (eoffset b0) @ rest"
  defines "b' \<equiv> set_offset (eoffset b) (writeUlong h v (set_offset (eoffset b0) b))"
  shows "append_mode b'" and "stream b' = stream b0 @ cdr_ulong (native h) v (eoffset b0) @ rest"
    and "sizeStack b' = sizeStack b"
proof -
  have "eoffset b = length (stream b)" using length_stream [OF assms(2)] by simp
  then have "eoffset b0 + padding 4 (eoffset b0) + 4 \<le> eoffset b"
    using assms(3) length_stream [OF assms(1)] by (simp add: cdr_ulong_def)
  note 1 = set_offset_write [OF assms(2) this, of h v, folded b'_def]
  show "append_mode b'" and "sizeStack b' = sizeStack b" by (fact 1)+
  show "stream b' = stream b0 @ cdr_ulong (native h) v (eoffset b0) @ rest"
    using 1(2) assms(3) overwrite_pad_word [OF length_stream [OF assms(1)]] by simp
qed

lemma gemits_listen_point:
  assumes "protocol_local c' = Some l"
  shows "gemits P
    (\<lambda>e. case protocol_local c' of None \<Rightarrow> Inl NullDeref
       | Some l \<Rightarrow> Inr (on_buf (\<lambda>b. writeUshort h (port l) (writeString h (host l) (writeUlong h 1 b))) e))
    (\<lambda>e. e) (cdr_seq (cdr_ulong (native h) 1) (cdr_address (native h) (the (protocol_local c'))))"
  by (rule gemits_cong [OF gemits_buf [OF emits_comp [OF emits_word(2) emits_address]] _ refl])
     (simp add: assms)

lemma gemits_service_context:
  assumes "listen_point_known c"
  shows "gemits (enc_is M m c) (writeServiceContext h) sent_bidir (cdr_service_context (native h) c)"
  unfolding gemits_def
proof (intro allI impI)
  fix e :: giop_encoder
  assume e: "enc_is M m c e" and am: "append_mode (ebuf e)"
  let ?b1 = "writeUlong h 0 (ebuf e)"
  note b1 = emitsD [OF emits_word(2) [of h 0] am]
  have b1': "stream ?b1 = stream (ebuf e) @ cdr_ulong (native h) 0 (eoffset (ebuf e)) @ []"
    using b1(2) by simp
  show "\<exists>b. writeServiceContext h e = Inr ((sent_bidir e)\<lparr>ebuf := b\<rparr>) \<and> append_mode b \<and>
      stream b = stream (ebuf e) @ cdr_service_context (native h) c (eoffset (ebuf e)) \<and>
      sizeStack b = sizeStack (ebuf e)"
  proof (cases c)
    case None
    have "writeServiceContext h e = Inr ((sent_bidir e)\<lparr>ebuf := ?b1\<rparr>)"
      using e None by (simp add: writeServiceContext_def enc_is_def sent_bidir_def on_buf_def)
    then show ?thesis using b1 None by auto
  next
    case (Some c')
    show ?thesis
    proof (cases "didSendBiDirIIOP c'")
      case True
      let ?b2 = "set_offset (eoffset ?b1) (writeUlong h 0 (set_offset (eoffset (ebuf e)) ?b1))"
      have "c'\<lparr>didSendBiDirIIOP := True\<rparr> = c'" using True by simp
      then have "writeServiceContext h e = Inr ((sent_bidir e)\<lparr>ebuf := ?b2\<rparr>)"
        using e Some True
        by (simp add: writeServiceContext_def enc_is_def sent_bidir_def on_buf_def Let_def)
      moreover note count_patched [OF am b1(1) b1', where v = 0]
      ultimately show ?thesis using b1(3) True Some by auto
    next
      case False
      with assms Some obtain l where l: "protocol_local c' = Some l" by auto
      let ?content = "cdr_seq (cdr_ulong (native h) 1)
        (cdr_address (native h) (the (protocol_local c')))"
      let ?e1 = "e\<lparr>ebuf := ?b1, econn := Some (c'\<lparr>didSendBiDirIIOP := True\<rparr>)\<rparr>"
      have "gemits (enc_is M m (Some (c'\<lparr>didSendBiDirIIOP := True\<rparr>)))
          (writeEncapsulation_service h BI_DIR_IIOP
            (\<lambda>e. case protocol_local c' of None \<Rightarrow> Inl NullDeref
               | Some l \<Rightarrow> Inr (on_buf (\<lambda>b. writeUshort h (port l)
                   (writeString h (host l) (writeUlong h 1 b))) e)))
          (\<lambda>e. e) (cdr_encaps (native h) (service_id_code BI_DIR_IIOP) ?content)"
        unfolding writeEncapsulation_service_def
        by (rule gemits_encapsulation [OF gemits_listen_point [OF l]]) simp
      moreover have "enc_is M m (Some (c'\<lparr>didSendBiDirIIOP := True\<rparr>)) ?e1"
        using e by (simp add: enc_is_def)
      ultimately obtain b where b: "writeEncapsulation_service h BI_DIR_IIOP
            (\<lambda>e. case protocol_local c' of None \<Rightarrow> Inl NullDeref
               | Some l \<Rightarrow> Inr (on_buf (\<lambda>b. writeUshort h (port l)
                   (writeString h (host l) (writeUlong h 1 b))) e)) ?e1 = Inr (?e1\<lparr>ebuf := b\<rparr>)"
        "append_mode b" "sizeStack b = sizeStack (ebuf e)"
        "stream b = stream (ebuf e) @ cdr_ulong (native h) 0 (eoffset (ebuf e)) @
          cdr_encaps (native h) (service_id_code BI_DIR_IIOP) ?content
            (eoffset (ebuf e) + length (cdr_ulong (native h) 1 (eoffset (ebuf e))))"
        using b1 by (elim gemitsE) (auto simp: cdr_ulong_def)
      let ?b2 = "set_offset (eoffset b) (writeUlong h 1 (set_offset (eoffset (ebuf e)) b))"
      have "writeServiceContext h e = Inr ((sent_bidir e)\<lparr>ebuf := ?b2\<rparr>)"
        using e Some False b(1)
        by (simp add: writeServiceContext_def enc_is_def sent_bidir_def on_buf_def Let_def
            wr_then_Inr)
      moreover note count_patched [OF am b(2,4), where v = 1]
      ultimately show ?thesis using b(3) False Some by (auto simp: cdr_seq_def)
    qed
  qed
qed

lemma emits_skip3: "emits (\<lambda>b. set_offset (eoffset b + 3) b) (cdr_raw [0, 0, 0])"
  by (rule emits_cong [OF emits_skip [of "\<lambda>b. set_offset (eoffset b + 3) b" "\<lambda>p. 3"] refl])
     (auto simp: set_offset_def cdr_raw_def numeral_3_eq_3)

lemma gemits_ok_id: "gemits P (wr_ok (\<lambda>e. e)) (\<lambda>e. e) (cdr_raw [])"
  by (rule gemits_cong [OF gemits_nop _ refl]) (simp add: wr_ok_def)

lemma buf_free_upd_comp: "buf_free_upd u \<Longrightarrow> buf_free_upd (\<lambda>e. u e)"
  by simp

lemma enc_is_sent_bidir:
  "enc_is M m c e \<Longrightarrow> enc_is M m (map_option (\<lambda>c. c\<lparr>didSendBiDirIIOP := True\<rparr>) c) (sent_bidir e)"
  by (simp add: enc_is_def sent_bidir_def)

text \<open>The part of \<open>encodeRequest\<close> that follows the service context of the old versions.\<close>

definition request_rest :: "host \<Rightarrow> bool \<Rightarrow> bytes \<Rightarrow> bytes \<Rightarrow> u32 \<Rightarrow> bool \<Rightarrow> giop_encoder writer" where
  "request_rest h old key operation rid responseExpected =
      wr_then (wr_ok (on_buf (writeUlong h rid)))
     (wr_then (wr_ok (on_buf (writeOctet
                (if old then (if responseExpected then 1 else 0)
                 else (if responseExpected then 3 else 0)))))
     (wr_then (wr_ok (on_buf (\<lambda>b. set_offset (eoffset b + 3) b)))
     (wr_then (if old then wr_ok (on_buf (writeBlob h key))
               else wr_ok (on_buf (\<lambda>b. writeBlob h key (writeUshort h (addressing_code KEY_ADDR) b))))
     (wr_then (wr_ok (on_buf (writeString h operation)))
     (if old then wr_ok (on_buf (writeUlong h 0))
      else wr_then (writeServiceContext h) (wr_ok (on_buf enc_align8)))))))"

definition request_rest_layout :: "endian \<Rightarrow> bool \<Rightarrow> connection option \<Rightarrow> bytes \<Rightarrow> bytes \<Rightarrow> u32 \<Rightarrow> bool \<Rightarrow> marshal" where
  "request_rest_layout en old c key operation rid responseExpected =
    cdr_seq (cdr_ulong en rid)
    (cdr_seq (cdr_raw [if old then (if responseExpected then 1 else 0)
                       else (if responseExpected then 3 else 0)])
    (cdr_seq (cdr_raw [0, 0, 0])
    (cdr_seq (if old then cdr_blob en key
              else cdr_seq (cdr_word en 2 (addressing_code KEY_ADDR)) (cdr_blob en key))
    (cdr_seq (cdr_string en operation)
    (if old then cdr_ulong en 0 else cdr_seq (cdr_service_context en c) (cdr_pad 8))))))"

lemma gemits_request_rest:
  assumes "old \<or> listen_point_known c"
  shows "gemits (enc_is M m c) (request_rest h old key operation rid re)
    (if old then (\<lambda>e. e) else sent_bidir)
    (request_rest_layout (native h) old c key operation rid re)"
proof (cases old)
  case True
  then show ?thesis
    unfolding request_rest_def request_rest_layout_def
    by (simp only: if_True simp_thms)
       (intro gemits_seq gemits_buf emits_intros emits_skip3; simp)
next
  case False
  have 1: "gemits (enc_is M m c) (wr_then (writeServiceContext h) (wr_ok (on_buf enc_align8)))
      sent_bidir (cdr_seq (cdr_service_context (native h) c) (cdr_pad 8))"
    using False assms
    by (intro gemits_seq' [OF gemits_service_context gemits_buf _ enc_is_sent_bidir] emits_intros)
       simp_all
  have 2: "gemits P (wr_ok (on_buf (\<lambda>b. writeBlob h key (writeUshort h v b)))) (\<lambda>e. e)
      (cdr_seq (cdr_word (native h) 2 v) (cdr_blob (native h) key))" for P v
    by (intro gemits_buf emits_comp emits_intros)
  from False show ?thesis
    unfolding request_rest_def request_rest_layout_def
    by (simp only: if_False simp_thms)
       (intro gemits_seq 1 2 gemits_buf emits_intros emits_skip3; simp)
qed

lemma encodeRequest_eq:
  assumes "enc_is M m c e"
  shows "encodeRequest h key operation rid re e =
    wr_then (if v1_0_or_1 M m then writeServiceContext h else wr_ok (\<lambda>e. e))
      (request_rest h (v1_0_or_1 M m) key operation rid re) (skipGIOPHeader e)"
  using assms
  by (simp add: encodeRequest_def request_rest_def enc_is_def wr_then_def wr_ok_def Let_def)

lemma gemits_request:
  assumes "listen_point_known c"
  shows "gemits (enc_is M m c)
    (wr_then (if old then writeServiceContext h else wr_ok (\<lambda>e. e))
      (request_rest h old key operation rid re)) sent_bidir
    (cdr_request (native h) old c key operation rid re)"
proof (cases old)
  case True
  have "gemits (enc_is M m c) (wr_then (writeServiceContext h)
      (request_rest h True key operation rid re)) sent_bidir
      (cdr_seq (cdr_service_context (native h) c)
        (request_rest_layout (native h) True c key operation rid re))"
    using gemits_request_rest [of True] assms
    by (intro gemits_seq' [OF gemits_service_context _ _ enc_is_sent_bidir])
       (simp_all add: request_rest_layout_def)
  then show ?thesis using True by (simp add: cdr_request_def request_rest_layout_def)
next
  case False
  have "gemits (enc_is M m c) (wr_then (wr_ok (\<lambda>e. e))
      (request_rest h False key operation rid re)) sent_bidir
      (cdr_seq (cdr_raw []) (request_rest_layout (native h) False c key operation rid re))"
    using gemits_request_rest [of False c M m h key operation rid re] assms
    by (intro gemits_seq [OF gemits_ok_id]) simp_all
  then show ?thesis using False by (simp add: cdr_request_def request_rest_layout_def)
qed

section \<open>Headers written over the space left for them\<close>

text \<open>\<open>wrote d r e\<close>: the write position of \<open>e\<close> separates the octets \<open>d\<close> and \<open>r\<close>.\<close>

definition wrote :: "bytes \<Rightarrow> bytes \<Rightarrow> cdr_encoder \<Rightarrow> bool" where
  "wrote d r e \<longleftrightarrow> eoffset e = length d \<and> edata e = d @ r"

lemma wrote_put:
  assumes "wrote d r e" and "length bs \<le> length r"
  shows "wrote (d @ bs) (drop (length bs) r) (put bs e)"
proof -
  have "overwrite (length d) bs (d @ take (length bs) r @ drop (length bs) r) =
      d @ bs @ drop (length bs) r"
    by (rule overwrite_middle) (use assms(2) in simp_all)
  then show ?thesis
    using assms by (simp add: wrote_def put_def store_def reserve_def)
qed

lemma wrote_octet: "wrote d (x # r) e \<Longrightarrow> wrote (d @ [v]) r (writeOctet v e)"
  using wrote_put [of d "x # r" e "[v]"] by (simp add: writeOctet_def)

lemma wrote_endian: "wrote d (x # r) e \<Longrightarrow> wrote (d @ [endian_octet (native h)]) r (writeEndian h e)"
  by (simp add: writeEndian_def endian_octet_def wrote_octet)

lemma wrote_ulong:
  assumes "wrote d r e" and "4 \<le> length r" and "4 dvd length d"
  shows "wrote (d @ order_bytes (native h) 4 v) (drop 4 r) (writeUlong h v e)"
proof -
  have "enc_align4 e = e"
    using assms(1,3) by (simp add: enc_align4_def wrote_def align_mask_3_padding padding_0)
  then show ?thesis
    using wrote_put [OF assms(1), of "native_bytes h 4 v"] assms(2)
    by (simp add: writeUlong_def native_bytes_order)
qed

lemma sizeStack_writes [simp]:
  "sizeStack (writeOctet v e) = sizeStack e" "sizeStack (writeEndian h e) = sizeStack e"
  "sizeStack (writeUlong h w e) = sizeStack e"
  by (simp_all add: writeEndian_def writeOctet_def writeUlong_def put_frame enc_align4_def)

lemma setGIOPHeader_frame:
  assumes am: "append_mode (ebuf e)" and len: "12 \<le> eoffset (ebuf e)"
  shows "setGIOPHeader h type e = e\<lparr>ebuf := (ebuf e)\<lparr>edata :=
    giop_header (native h) (emajor e) (eminor e) type (eoffset (ebuf e) - 12) @
      drop 12 (stream (ebuf e))\<rparr>\<rparr>"
proof -
  let ?s = "stream (ebuf e)" and ?off = "eoffset (ebuf e)"
  obtain s0 s1 s2 s3 s4 s5 s6 s7 r where s: "?s = s0 # s1 # s2 # s3 # s4 # s5 # s6 # s7 # r" "4 \<le> length r"
  proof -
    have "8 \<le> length ?s" using len length_stream [OF am] by simp
    then obtain s0 s1 s2 s3 s4 s5 s6 s7 r where "?s = s0 # s1 # s2 # s3 # s4 # s5 # s6 # s7 # r"
      by (auto simp: numeral_eq_Suc Suc_le_length_iff)
    then show ?thesis using that len length_stream [OF am] by simp
  qed
  have lit: "lit ''GIOP'' = [0x47, 0x49, 0x4f, 0x50]" by code_simp
  let ?b1 = "set_offset 0 (reserve_all (ebuf e))"
  let ?b7 = "writeUlong h (of_int (int ?off - 12)) (writeOctet (message_type_octet type)
    (writeEndian h (writeOctet (ucast (eminor e)) (writeOctet (ucast (emajor e))
      (fold writeOctet (lit ''GIOP'') ?b1)))))"
  have "wrote [] ?s ?b1"
    by (simp add: wrote_def set_offset_def edata_reserve_all [OF am])
  then have "wrote ([] @ [0x47] @ [0x49] @ [0x4f] @ [0x50] @ [ucast (emajor e)] @ [ucast (eminor e)] @
      [endian_octet (native h)] @ [message_type_octet type] @
      order_bytes (native h) 4 (of_int (int ?off - 12) :: u32)) (drop 4 r) ?b7"
    unfolding lit fold.simps comp_def id_def s(1) append_assoc [symmetric]
    by (intro wrote_ulong wrote_octet wrote_endian s(2)) (simp_all, presburger)
  moreover have "(of_int (int ?off - 12) :: u32) = of_nat (?off - 12)"
    using len by (simp add: of_nat_diff)
  moreover have "sizeStack ?b7 = sizeStack (ebuf e)"
    by (simp add: lit set_offset_def reserve_all_def reserve_def)
  moreover have "drop 4 r = drop 12 ?s" by (simp add: s(1))
  ultimately have "?b7 = \<lparr>edata = giop_header (native h) (emajor e) (eminor e) type (?off - 12) @
      drop 12 ?s, eoffset = 12, sizeStack = sizeStack (ebuf e)\<rparr>"
    by (simp add: wrote_def giop_header_def lit)
  moreover have "setGIOPHeader h type e = e\<lparr>ebuf := set_offset ?off ?b7\<rparr>"
    by (simp add: setGIOPHeader_def Let_def reserve_all_def reserve_def)
  ultimately show ?thesis
    by (simp add: set_offset_def)
qed

text \<open>
  The reply header: space is skipped for both headers, the servant writes the result, then the
  reply header and the GIOP header go over that space.
\<close>

lemma writeUlong_at_10: "writeUlong h v (set_offset 10 b) = writeUlong h v (set_offset 12 b)"
  by (simp add: writeUlong_def enc_align4_def set_offset_def align_mask_3_padding padding_def)

lemma setReplyHeader_frame:
  assumes "emajor e = 1" and "edata (ebuf e) = hdr @ drop 12 s" and "length hdr = 12" and "24 \<le> length s"
  shows "edata (ebuf (setReplyHeader h rid status e)) =
    hdr @ reply_header (native h) (eminor e) rid status @ drop 24 s"
proof -
  let ?b = "set_offset 12 (ebuf e)"
  have "wrote hdr (drop 12 s) ?b" using assms by (simp add: wrote_def set_offset_def)
  then have "wrote (((hdr @ order_bytes (native h) 4 v1) @ order_bytes (native h) 4 v2) @
      order_bytes (native h) 4 v3) (drop 4 (drop 4 (drop 4 (drop 12 s))))
      (writeUlong h v3 (writeUlong h v2 (writeUlong h v1 ?b)))" for v1 v2 v3 :: u32
    using assms(3,4) by (intro wrote_ulong) simp_all
  then have 1: "edata (writeUlong h v3 (writeUlong h v2 (writeUlong h v1 ?b))) =
      hdr @ order_bytes (native h) 4 v1 @ order_bytes (native h) 4 v2 @ order_bytes (native h) 4 v3 @ drop 24 s"
    for v1 v2 v3 :: u32
    by (simp add: wrote_def)
  show ?thesis
    by (cases "eminor e < 2")
       (simp_all add: setReplyHeader_def skipGIOPHeader_def on_buf_def Let_def writeUlong_at_10 1
         assms(1) reply_header_def v1_2_or_more_def flip: not_le)
qed

lemma reply_frame:
  assumes "emajor e = 1" and "append_mode (ebuf e)" and "24 \<le> eoffset (ebuf e)"
  shows "edata (ebuf (setReplyHeader h rid status (setGIOPHeader h type e))) =
    giop_header (native h) (emajor e) (eminor e) type (eoffset (ebuf e) - 12) @
    reply_header (native h) (eminor e) rid status @ drop 24 (stream (ebuf e))"
proof -
  have "12 \<le> eoffset (ebuf e)" using assms(3) by simp
  note 1 = setGIOPHeader_frame [OF assms(2) this, of h type]
  have "edata (ebuf (setReplyHeader h rid status (setGIOPHeader h type e))) =
      giop_header (native h) (emajor e) (eminor e) type (eoffset (ebuf e) - 12) @
      reply_header (native h) (eminor (setGIOPHeader h type e)) rid status @
      drop 24 (stream (ebuf e))"
    using assms length_stream [OF assms(2)]
    by (intro setReplyHeader_frame) (simp_all add: 1)
  then show ?thesis by (simp add: 1)
qed

text \<open>A request written by a fresh encoder, followed by its arguments.\<close>

lemma encodeRequest_stream:
  assumes "enc_is M m c e" and "ebuf e = enc_init" and "listen_point_known c"
  obtains b where "encodeRequest h key operation rid re e = Inr ((sent_bidir e)\<lparr>ebuf := b\<rparr>)"
    "append_mode b" "sizeStack b = []"
    "stream b = replicate 10 0 @ cdr_request (native h) (v1_0_or_1 M m) c key operation rid re 10"
proof -
  let ?e = "skipGIOPHeader e"
  have e: "ebuf ?e = \<lparr>edata = [], eoffset = 10, sizeStack = []\<rparr>"
    using assms(2) by (simp add: skipGIOPHeader_def on_buf_def set_offset_def enc_init_def)
  then have am: "append_mode (ebuf ?e)" "stream (ebuf ?e) = replicate 10 0"
    by (simp_all add: append_mode_def stream_def)
  have "enc_is M m c ?e" using assms(1) by (simp add: skipGIOPHeader_def on_buf_def enc_is_def)
  from gemitsE [OF gemits_request [OF assms(3), where old = "v1_0_or_1 M m"] this am(1)]
  obtain b where b: "wr_then (if v1_0_or_1 M m then writeServiceContext h else wr_ok (\<lambda>e. e))
      (request_rest h (v1_0_or_1 M m) key operation rid re) ?e = Inr ((sent_bidir ?e)\<lparr>ebuf := b\<rparr>)"
    "append_mode b" "stream b = replicate 10 0 @
      cdr_request (native h) (v1_0_or_1 M m) c key operation rid re (eoffset (ebuf ?e))"
    "sizeStack b = sizeStack (ebuf ?e)"
    unfolding am(2) by blast
  have "encodeRequest h key operation rid re e = Inr ((sent_bidir e)\<lparr>ebuf := b\<rparr>)"
    using b(1) unfolding encodeRequest_eq [OF assms(1)]
    by (simp add: skipGIOPHeader_def on_buf_def sent_bidir_def)
  then show ?thesis using that b e by simp
qed

end
