(* ===== verification/GIOP_Parse.thy ===== *)
theory GIOP_Parse
  imports GIOP_Format
begin

text \<open>
  The decoder reads what the encoder emits: \<open>gparses\<close> is to \<open>GIOPDecoder\<close> what \<open>parses\<close> is
  to \<open>CDRDecoder\<close>, for encapsulations, service contexts, object references and the headers
  of requests and replies, in either byte order.
\<close>

section \<open>Parsing with the state of the message decoder\<close>

definition gparses ::
    "(giop_decoder \<Rightarrow> bool) \<Rightarrow> endian \<Rightarrow> 'a giop_reader \<Rightarrow> 'a \<Rightarrow> (giop_decoder \<Rightarrow> giop_decoder) \<Rightarrow> marshal \<Rightarrow> bool" where
  "gparses P en rd v u f \<longleftrightarrow>
     (\<forall>g. P g \<longrightarrow> dendian (dbuf g) = en \<longrightarrow> at (dbuf g) (f (m_offset (dbuf g))) \<longrightarrow>
        rd g = Inr (v, (u g)\<lparr>dbuf := advance (length (f (m_offset (dbuf g)))) (dbuf g)\<rparr>))"

definition dbuf_free :: "(giop_decoder \<Rightarrow> 'a) \<Rightarrow> bool" where
  "dbuf_free P \<longleftrightarrow> (\<forall>g b. P (g\<lparr>dbuf := b\<rparr>) = P g)"

definition dbuf_free_upd :: "(giop_decoder \<Rightarrow> giop_decoder) \<Rightarrow> bool" where
  "dbuf_free_upd u \<longleftrightarrow> (\<forall>g b. u (g\<lparr>dbuf := b\<rparr>) = (u g)\<lparr>dbuf := b\<rparr>)"

lemma gparsesD:
  "gparses P en rd v u f \<Longrightarrow> P g \<Longrightarrow> dendian (dbuf g) = en \<Longrightarrow>
   at (dbuf g) (f (m_offset (dbuf g))) \<Longrightarrow>
   rd g = Inr (v, (u g)\<lparr>dbuf := advance (length (f (m_offset (dbuf g)))) (dbuf g)\<rparr>)"
  by (simp add: gparses_def)

lemma gparsesI:
  "(\<And>g. P g \<Longrightarrow> dendian (dbuf g) = en \<Longrightarrow> at (dbuf g) (f (m_offset (dbuf g))) \<Longrightarrow>
     rd g = Inr (v, (u g)\<lparr>dbuf := advance (length (f (m_offset (dbuf g)))) (dbuf g)\<rparr>)) \<Longrightarrow>
   gparses P en rd v u f"
  by (simp add: gparses_def)

lemma gparses_cdr: "parses en rd v f \<Longrightarrow> gparses P en (cdr rd) v (\<lambda>g. g) f"
  by (simp add: gparses_def parses_def cdr_def)

lemma gparses_return: "gparses P en (rd_return v) v (\<lambda>g. g) (cdr_raw [])"
  by (simp add: gparses_def)

lemma gparses_bind:
  assumes m: "gparses P en m v u f" and k: "gparses Q en (k v) w u' g"
    and Q: "dbuf_free Q" "\<And>g. P g \<Longrightarrow> Q (u g)" and u': "dbuf_free_upd u'"
  shows "gparses P en (rd_bind m k) w (\<lambda>g. u' (u g)) (cdr_seq f g)"
proof (rule gparsesI)
  fix s :: giop_decoder
  assume P: "P s" and en: "dendian (dbuf s) = en" and pre: "at (dbuf s) (cdr_seq f g (m_offset (dbuf s)))"
  let ?d1 = "advance (length (f (m_offset (dbuf s)))) (dbuf s)"
  from pre have p1: "at (dbuf s) (f (m_offset (dbuf s)))" and p2: "at ?d1 (g (m_offset ?d1))"
    by (simp_all add: cdr_seq_def at_append)
  have "Q ((u s)\<lparr>dbuf := ?d1\<rparr>)" using Q P by (simp add: dbuf_free_def)
  from gparsesD [OF k this] have "k v ((u s)\<lparr>dbuf := ?d1\<rparr>) =
      Inr (w, (u' (u s))\<lparr>dbuf := advance (length (g (m_offset ?d1))) ?d1\<rparr>)"
    using p2 en u' by (simp add: dbuf_free_upd_def)
  with gparsesD [OF m P en p1]
  show "rd_bind m k s = Inr (w, (u' (u s))\<lparr>dbuf := advance (length (cdr_seq f g (m_offset (dbuf s)))) (dbuf s)\<rparr>)"
    by (simp add: rd_bind_def)
qed

text \<open>The usual cases: one of the two leaves the rest of the state alone.\<close>

lemma gparses_seq:
  assumes "gparses P en m v (\<lambda>g. g) f" and "gparses P en (k v) w u g"
    and "dbuf_free P" and "dbuf_free_upd u"
  shows "gparses P en (rd_bind m k) w u (cdr_seq f g)"
  using gparses_bind [of P en m v "\<lambda>g. g" f P k w u g] assms by simp

lemma gparses_cdr_seq:
  "parses en rd v f \<Longrightarrow> gparses P en (k v) w u g \<Longrightarrow> dbuf_free P \<Longrightarrow> dbuf_free_upd u \<Longrightarrow>
   gparses P en (rd_bind (cdr rd) k) w u (cdr_seq f g)"
  by (rule gparses_seq [OF gparses_cdr])

lemmas gparses_items =
  gparses_cdr_seq [OF parses_octet] gparses_cdr_seq [OF parses_words(1)]
  gparses_cdr_seq [OF parses_words(2)] gparses_cdr_seq [OF parses_string(1)]
  gparses_cdr_seq [OF parses_string(2)] gparses_cdr_seq [OF parses_blob]
  gparses_cdr_seq [OF parses_blob [folded readBlobView_eq]]

lemma gparses_upd:
  assumes "gparses Q en (k ()) w u f" and "dbuf_free Q" and "\<And>g. P g \<Longrightarrow> Q (v g)"
    and "dbuf_free_upd v"
  shows "gparses P en (rd_bind (rd_upd v) k) w (\<lambda>g. u (v g)) f"
proof (rule gparsesI)
  fix s :: giop_decoder
  assume "P s" and "dendian (dbuf s) = en" and "at (dbuf s) (f (m_offset (dbuf s)))"
  moreover have "dbuf (v s) = dbuf s"
  proof -
    have "v (s\<lparr>dbuf := dbuf s\<rparr>) = (v s)\<lparr>dbuf := dbuf s\<rparr>"
      using assms(4) unfolding dbuf_free_upd_def by blast
    then have "v s = (v s)\<lparr>dbuf := dbuf s\<rparr>" by simp
    then show ?thesis by (metis giop_decoder.select_convs(4) giop_decoder.surjective giop_decoder.update_convs(4))
  qed
  ultimately show "rd_bind (rd_upd v) k s = Inr (w, (u (v s))\<lparr>dbuf := advance (length (f (m_offset (dbuf s)))) (dbuf s)\<rparr>)"
    using gparsesD [OF assms(1), of "v s"] assms(3) by (simp add: rd_bind_def)
qed

lemma gparses_cong:
  "gparses P en rd v u f \<Longrightarrow> (\<And>g. P g \<Longrightarrow> rd' g = rd g) \<Longrightarrow> f' = f \<Longrightarrow> (\<And>g. P g \<Longrightarrow> u' g = u g) \<Longrightarrow>
   gparses P en rd' v u' f'"
  by (simp add: gparses_def)

lemma gparses_upd_cong:
  "gparses P en rd v u f \<Longrightarrow> (\<And>g. P g \<Longrightarrow> u' g = u g) \<Longrightarrow> gparses P en rd v u' f"
  by (simp add: gparses_def)

lemma gparses_then_return:
  assumes "gparses P en m v u f" and "dbuf_free_upd u"
  shows "gparses P en (rd_bind m (\<lambda>x. rd_return (k x))) (k v) u f"
proof (rule gparsesI)
  fix s :: giop_decoder
  assume "P s" "dendian (dbuf s) = en" "at (dbuf s) (f (m_offset (dbuf s)))"
  from gparsesD [OF assms(1) this]
  show "rd_bind m (\<lambda>x. rd_return (k x)) s = Inr (k v, (u s)\<lparr>dbuf := advance (length (f (m_offset (dbuf s)))) (dbuf s)\<rparr>)"
    by (simp add: rd_bind_def)
qed

section \<open>Encapsulations\<close>

lemma endian_flag: "en \<noteq> Endian_0 \<Longrightarrow> dendian (setLittleEndian (endian_octet en AND 1 \<noteq> 0) d) = en"
  by (cases en) (simp_all add: setLittleEndian_def endian_octet_def)

text \<open>
  The closure need not read the whole content: what follows the part it reads, \<open>extra\<close>, is
  skipped, because the reader continues behind the size that was announced.
\<close>

lemma gparses_encapsulation:
  assumes closure: "gparses P en (closure type) v u f" and en: "en \<noteq> Endian_0"
    and P: "dbuf_free P" and u: "dbuf_free_upd u"
    and size: "\<And>p. length (cdr_seq f extra p) + 1 < 2 ^ 32"
  shows "gparses P en (read_encapsulation h closure) v u (cdr_encaps en type (cdr_seq f extra))"
proof (rule gparsesI)
  fix s :: giop_decoder
  define d off where "d = dbuf s" and "off = m_offset d"
  define A where "A = cdr_ulong en type off"
  define content where
    "content = cdr_seq (cdr_raw [endian_octet en]) (cdr_seq f extra) (off + length A + padding 4 (off + length A) + 4)"
  define n where "n = (of_nat (length content) :: u32)"
  define B where "B = cdr_ulong en n (off + length A)"
  define F where "F = f (off + length A + length B + 1)"
  define X where "X = extra (off + length A + length B + 1 + length F)"
  assume Ps: "P s" and "dendian (dbuf s) = en"
    and pre: "at (dbuf s) (cdr_encaps en type (cdr_seq f extra) (m_offset (dbuf s)))"
  then have e: "dendian d = en" by (simp add: d_def)
  have lB: "length B = padding 4 (off + length A) + 4" by (simp add: B_def cdr_ulong_def)
  have content: "content = [endian_octet en] @ F @ X"
    by (simp add: content_def cdr_seq_def F_def X_def lB add.assoc)
  have layout: "cdr_encaps en type (cdr_seq f extra) off = A @ B @ [endian_octet en] @ F @ X"
    unfolding content [symmetric]
    by (simp add: cdr_encaps_def cdr_sized_def cdr_seq_def [of "cdr_ulong en m" for m]
        A_def [symmetric] content_def [symmetric] n_def [symmetric] B_def [symmetric] lB)
       (simp add: content_def lB add.assoc)
  define d1 d2 d3 where "d1 = advance (length A) d" and "d2 = advance (length B) d1"
    and "d3 = advance 1 d2"
  have off3: "m_offset d1 = off + length A" "m_offset d2 = off + length A + length B"
    "m_offset d3 = off + length A + length B + 1"
    by (simp_all add: d1_def d2_def d3_def off_def)
  have en3: "dendian d1 = en" "dendian d2 = en" "dendian d3 = en"
    using e by (simp_all add: d1_def d2_def d3_def)
  have "at d (A @ B @ [endian_octet en] @ F @ X)"
    using pre by (simp only: d_def [symmetric] off_def [symmetric] layout)
  then have "at d A" "at d1 B" "at d2 [endian_octet en]" "at d3 F"
    using at_append [of "advance (length A + length B) d" "[endian_octet en]" "F @ X"]
    by (simp_all add: at_append d1_def d2_def d3_def)
  then have at: "at d (cdr_ulong en type (m_offset d))" "at d1 (cdr_ulong en n (m_offset d1))"
    "at d2 (cdr_raw [endian_octet en] (m_offset d2))" "at d3 (f (m_offset d3))"
    unfolding off3 by (simp_all add: A_def B_def F_def off_def)
  have r1: "readUlong h d = Inr (type, d1)"
    using parsesD [OF parses_words(2) [OF en] e at(1), of h] by (simp add: d1_def A_def off_def)
  have r2: "readUlong h d1 = Inr (n, d2)"
    using parsesD [OF parses_words(2) [OF en] en3(1) at(2), of h] by (simp add: d2_def B_def off3)
  have r3: "readOctet d2 = Inr (endian_octet en, d3)"
    using parsesD [OF parses_octet en3(2) at(3)] by (simp add: d3_def)
  have little: "setLittleEndian (endian_octet en AND 1 \<noteq> 0) d3 = d3"
    using en en3(3) by (cases en) (simp_all add: setLittleEndian_def endian_octet_def)
  have "P (s\<lparr>dbuf := d3\<rparr>)" using P Ps by (simp add: dbuf_free_def)
  from gparsesD [OF closure this] have r4: "closure type (s\<lparr>dbuf := d3\<rparr>) =
      Inr (v, (u s)\<lparr>dbuf := advance (length F) d3\<rparr>)"
    using at(4) en3(3) u by (simp add: dbuf_free_upd_def F_def off3)
  have "length content < 2 ^ 32"
    using size [of "off + length A + length B + 1"] by (simp add: content F_def X_def)
  then have n: "unat n = length content" by (simp add: n_def unat_of_nat_u32)
  have restore: "(advance (length F) d3)\<lparr>dendian := en\<rparr> = advance (length F) d3"
    using en3(3) by (simp add: advance_def)
  have "read_encapsulation h closure s =
      Inr (v, (u s)\<lparr>dbuf := setOffset (m_offset d2 + length content) (advance (length F) d3)\<rparr>)"
    using r1 r2 r3 r4 little en3
    by (simp add: read_encapsulation_def rd_bind_def cdr_def d_def [symmetric] n restore)
  also have "setOffset (m_offset d2 + length content) (advance (length F) d3) =
      advance (length (A @ B @ content)) d"
    by (simp add: setOffset_def advance_def d1_def d2_def d3_def add.assoc)
  finally show "read_encapsulation h closure s = Inr (v, (u s)\<lparr>dbuf :=
      advance (length (cdr_encaps en type (cdr_seq f extra) (m_offset (dbuf s)))) (dbuf s)\<rparr>)"
    by (simp only: d_def [symmetric] off_def [symmetric] layout content)
qed

section \<open>Service contexts\<close>

text \<open>
  What the receiver of a bi-directional context notes: the peer's listen point becomes the
  remote end of its connection, when host and port both differ from the ones it has.
\<close>

definition renamed :: "HostAndPort \<Rightarrow> connection \<Rightarrow> connection" where
  "renamed a c = (if host a \<noteq> host (remote c) \<and> port a \<noteq> port (remote c)
                  then c\<lparr>remote := a\<rparr> else c)"

fun hear :: "connection option \<Rightarrow> giop_decoder \<Rightarrow> giop_decoder" where
  "hear None g = g"
| "hear (Some c) g =
     (if didSendBiDirIIOP c then g
      else g\<lparr>dconn := map_option (renamed (the (protocol_local c))) (dconn g)\<rparr>)"

text \<open>A decoder of version \<open>M.m\<close> that can note what the sender's connection \<open>c\<close> sends.\<close>

definition dec_is :: "u32 \<Rightarrow> u32 \<Rightarrow> giop_decoder \<Rightarrow> bool" where
  "dec_is M m g \<longleftrightarrow> dmajor g = M \<and> dminor g = m \<and> dconn g \<noteq> None"

lemma dbuf_free_dec_is [simp]: "dbuf_free (dec_is M m)"
  by (simp add: dbuf_free_def dec_is_def)

lemma dbuf_free_upd_simps [simp]:
  "dbuf_free_upd (\<lambda>g. g)" "dbuf_free_upd (\<lambda>g. g\<lparr>drequestId := r\<rparr>)"
  "dbuf_free_upd (\<lambda>g. g\<lparr>dreplyStatus := q\<rparr>)"
  by (simp_all add: dbuf_free_upd_def)

lemma dbuf_free_upd_hear [simp]: "dbuf_free_upd (hear c)"
  by (cases c) (simp_all add: dbuf_free_upd_def)

lemma dec_is_hear [simp]: "dec_is M m (hear c g) \<longleftrightarrow> dec_is M m g"
  by (cases c) (auto simp: dec_is_def)

text \<open>A text that fits the 32 bit length field, with its terminator.\<close>

definition fits :: "bytes \<Rightarrow> bool" where
  "fits s \<longleftrightarrow> length s + 1 < 2 ^ 31"

lemma length_layouts:
  "length (cdr_ulong en w p) \<le> 7" "length (cdr_blob en s p) \<le> length s + 7"
  "length (cdr_string en s p) \<le> length s + 8"
  "length (cdr_address en a p) \<le> length (host a) + 11"
proof -
  have 4: "padding 4 p \<le> 3" and 2: "padding 2 p \<le> 1" for p
    using padding_less [of 4 p] padding_less [of 2 p] by simp_all
  show 1: "length (cdr_ulong en w p) \<le> 7" for w p
    using 4 [of p] by (simp add: cdr_ulong_def)
  show 2: "length (cdr_blob en s p) \<le> length s + 7" for s p
    using 1 by (simp add: cdr_blob_def)
  show 3: "length (cdr_string en s p) \<le> length s + 8" for s p
    using 2 [of "s @ [0]" p] by (simp add: cdr_string_def)
  show "length (cdr_address en a p) \<le> length (host a) + 11"
    using 3 [of "host a" p] \<open>\<And>p. padding 2 p \<le> 1\<close> [of "p + length (cdr_string en (host a) p)"]
    by (simp add: cdr_address_def)
qed

lemma hear_None: "hear None = (\<lambda>g. g)"
  by (rule ext) simp

lemma gparses_listen_point:
  "gparses (dec_is M m) en (\<lambda>g. listen_point (host a) (port a) g) ()
     (\<lambda>g. g\<lparr>dconn := map_option (renamed a) (dconn g)\<rparr>) (cdr_raw [])"
  by (rule gparsesI) (auto simp: dec_is_def listen_point_def renamed_def)

lemma gparses_context_entry:
  assumes en: "en \<noteq> Endian_0" and "fits (host a)"
  shows "gparses (dec_is M m) en (readServiceContext_entry h BI_DIR_IIOP) ()
     (\<lambda>g. g\<lparr>dconn := map_option (renamed a) (dconn g)\<rparr>)
     (cdr_seq (cdr_ulong en 1) (cdr_address en a))"
proof -
  let ?u = "\<lambda>g::giop_decoder. g\<lparr>dconn := map_option (renamed a) (dconn g)\<rparr>"
  have u: "dbuf_free_upd ?u" by (simp add: dbuf_free_upd_def)
  have "gparses (dec_is M m) en
      (rd_bind (cdr (readStringView h)) (\<lambda>hst. rd_bind (cdr (readUshort h)) (\<lambda>prt. listen_point hst prt)))
      () ?u (cdr_seq (cdr_string en (host a)) (cdr_seq (cdr_word en 2 (port a)) (cdr_raw [])))"
    using assms(2) by (intro gparses_items gparses_listen_point en u) (simp_all add: fits_def)
  then have 1: "gparses (dec_is M m) en
      (rd_bind (cdr (readStringView h)) (\<lambda>hst. rd_bind (cdr (readUshort h)) (\<lambda>prt. listen_point hst prt)))
      () ?u (cdr_address en a)"
    by (simp add: cdr_address_def)
  have 2: "gparses (dec_is M m) en
      (rd_bind (rd_times (unat (1::u32)) (rd_bind (cdr (readStringView h))
        (\<lambda>hst. rd_bind (cdr (readUshort h)) (\<lambda>prt. listen_point hst prt)))) (\<lambda>_. rd_return ()))
      () ?u (cdr_address en a)"
  proof (rule gparsesI)
    fix s :: giop_decoder
    assume "dec_is M m s" "dendian (dbuf s) = en" "at (dbuf s) (cdr_address en a (m_offset (dbuf s)))"
    from gparsesD [OF 1 this]
    show "rd_bind (rd_times (unat (1::u32)) (rd_bind (cdr (readStringView h))
        (\<lambda>hst. rd_bind (cdr (readUshort h)) (\<lambda>prt. listen_point hst prt)))) (\<lambda>_. rd_return ()) s =
        Inr ((), (?u s)\<lparr>dbuf := advance (length (cdr_address en a (m_offset (dbuf s)))) (dbuf s)\<rparr>)"
      by (simp add: rd_bind_def)
  qed
  show ?thesis
    unfolding readServiceContext_entry_def ServiceId.case
    by (intro gparses_items en 2 u) simp
qed

lemma gparses_service_context:
  assumes en: "en \<noteq> Endian_0" and "listen_point_known c"
    and "\<And>c' l. c = Some c' \<Longrightarrow> protocol_local c' = Some l \<Longrightarrow> fits (host l)"
  shows "gparses (dec_is M m) en (readServiceContext h) () (hear c) (cdr_service_context en c)"
proof (cases "c = None \<or> (\<exists>c'. c = Some c' \<and> didSendBiDirIIOP c')")
  case True
  have "gparses (dec_is M m) en (readServiceContext h) () (\<lambda>g. g) (cdr_ulong en 0)"
  proof (rule gparsesI)
    fix s :: giop_decoder
    assume "dendian (dbuf s) = en" "at (dbuf s) (cdr_ulong en 0 (m_offset (dbuf s)))"
    from parsesD [OF parses_words(2) [OF en] this, of h]
    show "readServiceContext h s =
        Inr ((), s\<lparr>dbuf := advance (length (cdr_ulong en 0 (m_offset (dbuf s)))) (dbuf s)\<rparr>)"
      by (simp add: readServiceContext_def rd_bind_def cdr_def)
  qed
  with True show ?thesis by (auto elim!: gparses_cong)
next
  case False
  then obtain c' where c: "c = Some c'" "\<not> didSendBiDirIIOP c'" by auto
  with assms(2) obtain l where l: "protocol_local c' = Some l" by auto
  have fits: "fits (host l)" using assms(3) c l by blast
  let ?u = "\<lambda>g::giop_decoder. g\<lparr>dconn := map_option (renamed l) (dconn g)\<rparr>"
  let ?content = "cdr_seq (cdr_ulong en 1) (cdr_address en l)"
  have u: "dbuf_free_upd ?u" by (simp add: dbuf_free_upd_def)
  have code: "service_id_cast (service_id_code BI_DIR_IIOP) = BI_DIR_IIOP"
    by (rule service_id_cast_code) simp
  have "gparses (dec_is M m) en (readEncapsulation_service h (readServiceContext_entry h)) () ?u
      (cdr_encaps en (service_id_code BI_DIR_IIOP) (cdr_seq ?content (cdr_raw [])))"
    unfolding readEncapsulation_service_def
  proof (rule gparses_encapsulation)
    show "gparses (dec_is M m) en (readServiceContext_entry h (service_id_cast (service_id_code BI_DIR_IIOP)))
        () ?u ?content"
      unfolding code by (rule gparses_context_entry [OF en fits])
    fix p
    show "length (cdr_seq ?content (cdr_raw []) p) + 1 < 2 ^ 32"
      using fits length_layouts(1) [of en 1 p] length_layouts(4) [of en l "p + length (cdr_ulong en 1 p)"]
      by (simp add: fits_def)
  qed (use en u in simp_all)
  then have 1: "gparses (dec_is M m) en (readEncapsulation_service h (readServiceContext_entry h)) () ?u
      (cdr_encaps en (service_id_code BI_DIR_IIOP) ?content)"
    by simp
  have 2: "gparses (dec_is M m) en
      (rd_bind (rd_times (unat (1::u32)) (readEncapsulation_service h (readServiceContext_entry h)))
        (\<lambda>_. rd_return ())) () ?u (cdr_encaps en (service_id_code BI_DIR_IIOP) ?content)"
  proof (rule gparsesI)
    fix s :: giop_decoder
    assume "dec_is M m s" "dendian (dbuf s) = en"
      "at (dbuf s) (cdr_encaps en (service_id_code BI_DIR_IIOP) ?content (m_offset (dbuf s)))"
    from gparsesD [OF 1 this]
    show "rd_bind (rd_times (unat (1::u32)) (readEncapsulation_service h (readServiceContext_entry h)))
        (\<lambda>_. rd_return ()) s = Inr ((), (?u s)\<lparr>dbuf := advance (length (cdr_encaps en
          (service_id_code BI_DIR_IIOP) ?content (m_offset (dbuf s)))) (dbuf s)\<rparr>)"
      by (simp add: rd_bind_def)
  qed
  have "gparses (dec_is M m) en (readServiceContext h) () ?u
      (cdr_seq (cdr_ulong en 1) (cdr_encaps en (service_id_code BI_DIR_IIOP) ?content))"
    unfolding readServiceContext_def
    by (intro gparses_items en 2 u) simp
  then show ?thesis
    by (rule gparses_cong) (simp_all add: c l)
qed

section \<open>Request headers\<close>

lemma gparses_pure:
  assumes "\<And>g. P g \<Longrightarrow> m g = Inr (v, g)" and "gparses P en (k v) w u f"
  shows "gparses P en (rd_bind m k) w u f"
  using assms by (simp add: gparses_def rd_bind_def)

lemma gparses_when_old:
  "v1_0_or_1 M m \<Longrightarrow> gparses (dec_is M m) en a v u f \<Longrightarrow> gparses (dec_is M m) en (when_old a b) v u f"
  "\<not> v1_0_or_1 M m \<Longrightarrow> gparses (dec_is M m) en b v u f \<Longrightarrow> gparses (dec_is M m) en (when_old a b) v u f"
  by (simp_all add: gparses_def when_old_def dec_is_def)

lemma parses_skip3: "parses en (rd_upd (dec_skip 3)) () (cdr_raw [0, 0, 0])"
  by (simp add: parses_def dec_skip_def advance_def)

lemma gparses_addressing:
  assumes "en \<noteq> Endian_0" and "fits key"
  shows "gparses (dec_is M m) en (readAddressing h) key (\<lambda>g. g)
    (cdr_seq (cdr_word en 2 (addressing_code KEY_ADDR)) (cdr_blob en key))"
proof -
  have "gparses (dec_is M m) en (case addressing_cast (addressing_code KEY_ADDR) of
          KEY_ADDR \<Rightarrow> cdr (readBlobView h)
        | PROFILE_ADDR \<Rightarrow> rd_throw (RuntimeError ''Unsupported AddressingDisposition.'')
        | REFERENCE_ADDR \<Rightarrow> rd_throw (RuntimeError ''Unsupported AddressingDisposition.'')
        | AddressingDisposition_other _ \<Rightarrow>
            rd_throw (RuntimeError ''Unknown AddressingDisposition.'')) key (\<lambda>g. g) (cdr_blob en key)"
    using assms gparses_cdr [OF parses_blob [folded readBlobView_eq]] by (simp add: fits_def addressing_cast_def)
  then show ?thesis
    unfolding readAddressing_def
    by (rule gparses_cdr_seq [OF parses_words(1) [OF assms(1)]]) simp_all
qed

definition scan_request_rest :: "host \<Rightarrow> RequestHeader giop_reader" where
  "scan_request_rest h =
     rd_bind (cdr (readUlong h)) (\<lambda>rid.
     rd_bind (cdr readOctet) (\<lambda>responseFlags.
     rd_bind (when_old (rd_return (responseFlags \<noteq> 0)) (rd_return (responseFlags = 3))) (\<lambda>responseExpected.
     rd_bind (cdr (rd_upd (dec_skip 3))) (\<lambda>_.
     rd_bind (when_old (cdr (readBlobView h)) (readAddressing h)) (\<lambda>key.
     rd_bind (cdr (readStringView h)) (\<lambda>operation.
     rd_bind (when_old (rd_bind (cdr (readUlong h)) (\<lambda>_. rd_return ()))
                (rd_bind (readServiceContext h) (\<lambda>_. cdr (rd_upd dec_align8)))) (\<lambda>_.
     rd_return \<lparr>rq_requestId = rid, rq_responseExpected = responseExpected,
                rq_objectKey = key, rq_operation = operation\<rparr>)))))))"

lemma scanRequestHeader_eq:
  "scanRequestHeader h =
     rd_bind (when_old (readServiceContext h) (rd_return ())) (\<lambda>_. scan_request_rest h)"
  by (simp add: scanRequestHeader_def scan_request_rest_def)

text \<open>What can be sent in a request: texts that fit, a listen point to send if one is due.\<close>

definition sendable :: "connection option \<Rightarrow> bytes \<Rightarrow> bytes \<Rightarrow> bool" where
  "sendable c key operation \<longleftrightarrow> fits key \<and> fits operation \<and> listen_point_known c \<and>
     (\<forall>c' l. c = Some c' \<longrightarrow> protocol_local c' = Some l \<longrightarrow> fits (host l))"

lemma gparses_request_rest_old:
  assumes "en \<noteq> Endian_0" and "v1_0_or_1 M m" and "sendable c key operation"
  shows "gparses (dec_is M m) en (scan_request_rest h)
    \<lparr>rq_requestId = rid, rq_responseExpected = re, rq_objectKey = key, rq_operation = operation\<rparr>
    (\<lambda>g. g) (request_rest_layout en True c key operation rid re)"
proof -
  have fin: "gparses (dec_is M m) en
      (rd_bind (when_old (rd_bind (cdr (readUlong h)) (\<lambda>_. rd_return ())) b) (\<lambda>_. rd_return r)) r (\<lambda>g. g)
      (cdr_ulong en 0)" for b and r :: RequestHeader
  proof (rule gparses_then_return [OF gparses_when_old(1) [OF assms(2)]])
    show "gparses (dec_is M m) en (rd_bind (cdr (readUlong h)) (\<lambda>_. rd_return ())) () (\<lambda>g. g) (cdr_ulong en 0)"
      using gparses_then_return [OF gparses_cdr [OF parses_words(2) [OF assms(1)]], where k = "\<lambda>_. ()"] by simp
  qed simp
  show ?thesis
    unfolding scan_request_rest_def request_rest_layout_def if_True
    apply (rule gparses_cdr_seq [OF parses_words(2) [OF assms(1)]])
      apply (rule gparses_cdr_seq [OF parses_octet])
        apply (rule gparses_pure [where v = re])
         apply (use assms(2) in \<open>simp add: when_old_def dec_is_def\<close>)
        apply (rule gparses_cdr_seq [OF parses_skip3])
          apply (rule gparses_seq [OF gparses_when_old(1) [OF assms(2) gparses_cdr]])
             apply (rule parses_blob [folded readBlobView_eq])
              apply (use assms in \<open>simp_all add: sendable_def fits_def\<close>)[2]
            apply (rule gparses_cdr_seq [OF parses_string(2)])
                apply (use assms in \<open>simp_all add: sendable_def fits_def\<close>)[2]
              apply (rule fin)
             apply simp_all
    done
qed

lemma gparses_request_rest_new:
  assumes "en \<noteq> Endian_0" and "\<not> v1_0_or_1 M m" and "sendable c key operation"
  shows "gparses (dec_is M m) en (scan_request_rest h)
    \<lparr>rq_requestId = rid, rq_responseExpected = re, rq_objectKey = key, rq_operation = operation\<rparr>
    (hear c) (request_rest_layout en False c key operation rid re)"
proof -
  have fin: "gparses (dec_is M m) en
      (rd_bind (when_old a (rd_bind (readServiceContext h) (\<lambda>_. cdr (rd_upd dec_align8)))) (\<lambda>_. rd_return r))
      r (hear c) (cdr_seq (cdr_service_context en c) (cdr_pad 8))" for a and r :: RequestHeader
  proof (rule gparses_then_return [OF gparses_when_old(2) [OF assms(2)]])
    show "gparses (dec_is M m) en (rd_bind (readServiceContext h) (\<lambda>_. cdr (rd_upd dec_align8))) ()
        (hear c) (cdr_seq (cdr_service_context en c) (cdr_pad 8))"
      by (rule gparses_bind [OF gparses_service_context [OF assms(1)] gparses_cdr [OF parses_align8],
            where Q = "dec_is M m"])
         (use assms(3) in \<open>auto simp: sendable_def\<close>)
  qed simp
  show ?thesis
    unfolding scan_request_rest_def request_rest_layout_def if_False
    apply (rule gparses_cdr_seq [OF parses_words(2) [OF assms(1)]])
      apply (rule gparses_cdr_seq [OF parses_octet])
        apply (rule gparses_pure [where v = re])
         apply (use assms(2) in \<open>simp add: when_old_def dec_is_def\<close>)
        apply (rule gparses_cdr_seq [OF parses_skip3])
          apply (rule gparses_seq [OF gparses_when_old(2) [OF assms(2) gparses_addressing]])
              apply (use assms in \<open>simp_all add: sendable_def\<close>)[2]
            apply (rule gparses_cdr_seq [OF parses_string(2)])
                apply (use assms in \<open>simp_all add: sendable_def fits_def\<close>)[2]
              apply (rule fin)
             apply simp_all
    done
qed

lemma cdr_request_eq:
  "cdr_request en old c key operation rid re =
     cdr_seq (if old then cdr_service_context en c else cdr_raw [])
       (request_rest_layout en old c key operation rid re)"
  by (simp add: cdr_request_def request_rest_layout_def)

lemma gparses_request:
  assumes "en \<noteq> Endian_0" and "sendable c key operation"
  shows "gparses (dec_is M m) en (scanRequestHeader h)
    \<lparr>rq_requestId = rid, rq_responseExpected = re, rq_objectKey = key, rq_operation = operation\<rparr>
    (hear c) (cdr_request en (v1_0_or_1 M m) c key operation rid re)"
proof (cases "v1_0_or_1 M m")
  case True
  have "gparses (dec_is M m) en (when_old (readServiceContext h) (rd_return ())) () (hear c)
      (cdr_service_context en c)"
    using assms(2)
    by (intro gparses_when_old(1) [OF True] gparses_service_context assms(1)) (auto simp: sendable_def)
  from gparses_bind [OF this gparses_request_rest_old [OF assms(1) True assms(2)]] True
  show ?thesis by (simp add: scanRequestHeader_eq cdr_request_eq)
next
  case False
  then show ?thesis
    unfolding scanRequestHeader_eq cdr_request_eq
    using gparses_request_rest_new [OF assms(1) False assms(2)]
    by (intro gparses_pure) (auto simp: when_old_def dec_is_def)
qed

section \<open>Reply and locate headers\<close>

definition cdr_reply :: "endian \<Rightarrow> u32 \<Rightarrow> u32 \<Rightarrow> ReplyStatus \<Rightarrow> marshal" where
  "cdr_reply en minor rid status =
     (let hd = cdr_seq (cdr_ulong en rid) (cdr_ulong en (reply_status_code status))
      in if minor < 2 then cdr_seq (cdr_ulong en 0) hd else cdr_seq hd (cdr_ulong en 0))"

text \<open>The header the encoder puts at offset 12 is this layout there.\<close>

lemma cdr_reply_at_12: "cdr_reply en minor rid status 12 = reply_header en minor rid status"
proof -
  have "padding 4 12 = 0" "padding 4 16 = 0" "padding 4 20 = 0" by (simp_all add: padding_def)
  then show ?thesis
    by (simp add: cdr_reply_def reply_header_def Let_def cdr_seq_def cdr_ulong_def cdr_word_def
        cdr_pad_def)
qed

definition note_reply :: "u32 \<Rightarrow> ReplyStatus \<Rightarrow> giop_decoder \<Rightarrow> giop_decoder" where
  "note_reply rid status g = g\<lparr>drequestId := rid, dreplyStatus := status\<rparr>"

lemma gparses_empty_context:
  "en \<noteq> Endian_0 \<Longrightarrow> gparses (dec_is M m) en (readServiceContext h) () (\<lambda>g. g) (cdr_ulong en 0)"
  using gparses_service_context [of en None M m h] by (simp add: hear_None)

lemma gparses_reply:
  assumes en: "en \<noteq> Endian_0" and M: "M = 1"
    and st: "reply_status_cast (reply_status_code status) = status"
  shows "gparses (dec_is M m) en (scanReplyHeader h)
    \<lparr>rp_requestId = rid, rp_replyStatus = status\<rparr> (note_reply rid status) (cdr_reply en m rid status)"
proof -
  let ?r = "\<lparr>rp_requestId = rid, rp_replyStatus = reply_status_cast (reply_status_code status)\<rparr>"
  let ?ctx = "\<lambda>g. if v1_2_or_more (dmajor g) (dminor g) then readServiceContext h g else Inr ((), g)"
  let ?rest = "rd_bind (cdr (readUlong h)) (\<lambda>rid.
     rd_bind (rd_upd (\<lambda>g. g\<lparr>drequestId := rid\<rparr>)) (\<lambda>_.
     rd_bind (cdr (readUlong h)) (\<lambda>n.
     rd_bind (rd_upd (\<lambda>g. g\<lparr>dreplyStatus := reply_status_cast n\<rparr>)) (\<lambda>_.
     rd_bind ?ctx (\<lambda>_.
     rd_return \<lparr>rp_requestId = rid, rp_replyStatus = reply_status_cast n\<rparr>)))))"
  let ?tail = "if m < 2 then cdr_raw [] else cdr_ulong en 0"
  have note_upd: "dbuf_free_upd (note_reply rid status)"
    by (simp add: dbuf_free_upd_def note_reply_def)
  have ctx: "gparses (dec_is M m) en ?ctx () (\<lambda>g. g) ?tail"
  proof (cases "m < 2")
    case True
    then show ?thesis
      by (intro gparses_cong [OF gparses_return])
         (auto simp: M dec_is_def v1_2_or_more_def not_le rd_return_def)
  next
    case False
    then show ?thesis
      by (intro gparses_cong [OF gparses_empty_context [OF en]])
         (auto simp: M dec_is_def v1_2_or_more_def not_less)
  qed
  have tail: "gparses (dec_is M m) en (rd_bind ?ctx (\<lambda>_. rd_return ?r)) ?r (\<lambda>g. g) ?tail"
    by (rule gparses_then_return [OF ctx]) simp
  have rest: "gparses (dec_is M m) en ?rest ?r (note_reply rid status)
      (cdr_seq (cdr_ulong en rid) (cdr_seq (cdr_ulong en (reply_status_code status)) ?tail))"
    apply (rule gparses_cdr_seq [OF parses_words(2) [OF en]])
      apply (rule gparses_upd_cong)
       apply (rule gparses_upd [where Q = "dec_is M m" and v = "\<lambda>g. g\<lparr>drequestId := rid\<rparr>" and
             u = "\<lambda>g. g\<lparr>dreplyStatus := reply_status_cast (reply_status_code status)\<rparr>"])
          apply (rule gparses_cdr_seq [OF parses_words(2) [OF en]])
            apply (rule gparses_upd [where Q = "dec_is M m" and u = "\<lambda>g. g"])
               apply (rule tail)
              apply (simp_all add: note_upd del: rd_simps)
     apply (simp_all add: dec_is_def note_reply_def st)
    done
  have pre: "gparses (dec_is M m) en (when_old (readServiceContext h) (rd_return ())) () (\<lambda>g. g)
      (if m < 2 then cdr_ulong en 0 else cdr_raw [])"
  proof (cases "m < 2")
    case True
    then have "v1_0_or_1 M m" by (simp add: M v1_0_or_1_def word_less_nat_alt word_le_nat_alt)
    then show ?thesis
      using gparses_when_old(1) [OF _ gparses_empty_context [OF en]] True by simp
  next
    case False
    then have "\<not> v1_0_or_1 M m" by (simp add: M v1_0_or_1_def word_less_nat_alt word_le_nat_alt)
    then show ?thesis
      using gparses_when_old(2) [OF _ gparses_return] False by simp
  qed
  have "gparses (dec_is M m) en (scanReplyHeader h) ?r (note_reply rid status)
      (cdr_seq (if m < 2 then cdr_ulong en 0 else cdr_raw [])
        (cdr_seq (cdr_ulong en rid) (cdr_seq (cdr_ulong en (reply_status_code status)) ?tail)))"
    unfolding scanReplyHeader_def
    by (rule gparses_seq [OF pre]) (rule rest dbuf_free_dec_is note_upd)+
  then show ?thesis
    by (cases "m < 2") (simp_all add: cdr_reply_def Let_def cdr_seq_assoc st)
qed

text \<open>The end of a GIOP header and a locate message.\<close>

lemma gparses_locate_request:
  assumes en: "en \<noteq> Endian_0" and "fits key"
  shows "gparses (dec_is M m) en (scanLocateRequest h)
    \<lparr>lr_requestId = rid, lr_objectKey = key\<rparr> (\<lambda>g. g\<lparr>drequestId := rid\<rparr>)
    (cdr_seq (cdr_ulong en rid)
      (if v1_0_or_1 M m then cdr_blob en key
       else cdr_seq (cdr_word en 2 (addressing_code KEY_ADDR)) (cdr_blob en key)))"
proof -
  have "gparses (dec_is M m) en (when_old (cdr (readBlobView h)) (readAddressing h)) key (\<lambda>g. g)
      (if v1_0_or_1 M m then cdr_blob en key
       else cdr_seq (cdr_word en 2 (addressing_code KEY_ADDR)) (cdr_blob en key))"
    using gparses_when_old(1) [OF _ gparses_cdr [OF parses_blob [folded readBlobView_eq]]]
      gparses_when_old(2) [OF _ gparses_addressing] assms
    by (simp add: fits_def)
  from gparses_then_return [OF this, where k = "\<lambda>key. \<lparr>lr_requestId = rid, lr_objectKey = key\<rparr>"]
  have 1: "gparses (dec_is M m) en (rd_bind (when_old (cdr (readBlobView h)) (readAddressing h))
      (\<lambda>key. rd_return \<lparr>lr_requestId = rid, lr_objectKey = key\<rparr>)) \<lparr>lr_requestId = rid, lr_objectKey = key\<rparr>
      (\<lambda>g. g) (if v1_0_or_1 M m then cdr_blob en key
       else cdr_seq (cdr_word en 2 (addressing_code KEY_ADDR)) (cdr_blob en key))"
    by simp
  show ?thesis
    unfolding scanLocateRequest_def
    apply (rule gparses_cdr_seq [OF parses_words(2) [OF en]])
      apply (rule gparses_upd [where Q = "dec_is M m" and u = "\<lambda>g. g"])
         apply (rule 1)
        apply (simp_all add: dec_is_def)
    done
qed

section \<open>Object references\<close>

lemma gparses_profile:
  assumes en: "en \<noteq> Endian_0" and P: "dbuf_free P" and "fits (host a)" and "fits key"
  shows "gparses P en (readProfile h acc TAG_INTERNET_IOP) (host a, Some (port a), key) (\<lambda>g. g)
    (cdr_profile en M m a key)"
proof -
  have "gparses P en (rd_bind (cdr readOctet) (\<lambda>iiopMajorVersion.
          rd_bind (cdr readOctet) (\<lambda>iiopMinorVersion.
          rd_bind (cdr (readString h)) (\<lambda>hst.
          rd_bind (cdr (readUshort h)) (\<lambda>prt.
          rd_bind (cdr (readBlob h)) (\<lambda>key.
          rd_return (hst, Some prt, key))))))) (host a, Some (port a), key) (\<lambda>g. g)
     (cdr_seq (cdr_raw [ucast M]) (cdr_seq (cdr_raw [ucast m]) (cdr_seq (cdr_string en (host a))
       (cdr_seq (cdr_word en 2 (port a)) (cdr_seq (cdr_blob en key) (cdr_raw []))))))"
    using assms by (intro gparses_items gparses_return) (simp_all add: fits_def)
  then show ?thesis
    by (simp add: readProfile_def cdr_profile_def cdr_address_def cdr_seq_assoc)
qed

text \<open>A key or a host name that leaves the profile below the 32 bit length limit.\<close>

definition referable :: "bytes \<Rightarrow> HostAndPort \<Rightarrow> bytes \<Rightarrow> bool" where
  "referable className a key \<longleftrightarrow>
     fits className \<and> length (host a) + length key < 2 ^ 30"

lemma length_encaps:
  "length (cdr_encaps en type f p) =
     length (cdr_ulong en type p) + padding 4 (p + length (cdr_ulong en type p)) + 5 +
     length (f (p + length (cdr_ulong en type p) + padding 4 (p + length (cdr_ulong en type p)) + 5))"
  by (simp add: cdr_encaps_def cdr_sized_def cdr_ulong_def)

lemma length_components: "length (cdr_components en M m p) \<le> 40"
proof -
  have ulong: "\<And>w q. length (cdr_ulong en w q) \<le> 7" by (rule length_layouts(1))
  have pad: "padding 4 q \<le> 3" for q using padding_less [of 4 q] by simp
  define q where "q = p + length (cdr_ulong en 1 p)"
  define r where "r = q + length (cdr_ulong en ORB_TYPE q)"
  have "length (cdr_encaps en ORB_TYPE (cdr_ulong en 0x4d313300) q) \<le> 22"
    unfolding length_encaps r_def [symmetric]
    using ulong [where w = ORB_TYPE and q = q] pad [where q = r]
      ulong [where w = "0x4d313300" and q = "r + padding 4 r + 5"]
    by linarith
  with ulong [where w = 1 and q = p] show ?thesis by (simp add: cdr_components_def q_def)
qed

lemma length_profile: "length (cdr_profile en M m a key p) \<le> length (host a) + length key + 20"
  using length_layouts(4) [of en a "p + 2"]
    length_layouts(2) [of en key "p + 2 + length (cdr_address en a (p + 2))"]
  by (simp add: cdr_profile_def)

lemma gparses_reference_n:
  assumes en: "en \<noteq> Endian_0" and P: "dbuf_free P" and "referable className a key"
  shows "gparses P en (readReferenceN h (length className + 1))
    \<lparr>oid = className, ior_host = host a, ior_port = port a, objectKey = key\<rparr> (\<lambda>g. g)
    (cdr_seq (cdr_raw (className @ [0])) (cdr_seq (cdr_ulong en 1)
      (cdr_encaps en 0 (cdr_seq (cdr_profile en M m a key) (cdr_components en M m)))))"
proof -
  have fits: "fits (host a)" "fits key" "fits className"
    using assms(3) by (auto simp: referable_def fits_def)
  have profile: "gparses P en (readEncapsulation_profile h (readProfile h ([], None, [])))
      (host a, Some (port a), key) (\<lambda>g. g)
      (cdr_encaps en 0 (cdr_seq (cdr_profile en M m a key) (cdr_components en M m)))"
    unfolding readEncapsulation_profile_def
  proof (rule gparses_encapsulation)
    show "gparses P en (readProfile h ([], None, []) (profile_id_cast 0)) (host a, Some (port a), key)
        (\<lambda>g. g) (cdr_profile en M m a key)"
      using gparses_profile [OF en P fits(1,2)] by (simp add: profile_id_cast_def)
    show "length (cdr_seq (cdr_profile en M m a key) (cdr_components en M m) p) + 1 < 2 ^ 32" for p
      using length_profile [of en M m a key p]
        length_components [of en M m "p + length (cdr_profile en M m a key p)"] assms(3)
      by (simp add: referable_def)
  qed (use en P in simp_all)
  have loop: "gparses P en (rd_loop (unat (1::u32))
      (\<lambda>acc. readEncapsulation_profile h (readProfile h acc)) ([], None, []))
      (host a, Some (port a), key) (\<lambda>g. g)
      (cdr_encaps en 0 (cdr_seq (cdr_profile en M m a key) (cdr_components en M m)))"
    using gparses_then_return [OF profile, where k = "\<lambda>v. v"]
    by (simp add: rd_return_def [abs_def] rd_loop.simps(1) [abs_def])
  have fin: "gparses P en (rd_bind (rd_loop (unat (1::u32))
      (\<lambda>acc. readEncapsulation_profile h (readProfile h acc)) ([], None, [])) (\<lambda>(hst, prt, key).
       (case prt of
          None \<Rightarrow> rd_throw Uninitialised
        | Some p \<Rightarrow>
            rd_return \<lparr>oid = className, ior_host = hst, ior_port = p, objectKey = key\<rparr>)))
      \<lparr>oid = className, ior_host = host a, ior_port = port a, objectKey = key\<rparr> (\<lambda>g. g)
      (cdr_seq (cdr_encaps en 0 (cdr_seq (cdr_profile en M m a key) (cdr_components en M m))) (cdr_raw []))"
    by (rule gparses_seq [OF loop]) (use P gparses_return in simp_all)
  show ?thesis
    unfolding readReferenceN_def
    apply (rule gparses_cdr_seq [OF parses_string_n(1)])
       apply simp
      apply (rule gparses_cdr_seq [OF parses_words(2) [OF en]])
        apply (rule fin [unfolded cdr_seq_raw_Nil])
       apply (simp_all add: P)
    done
qed


section \<open>Signed integers\<close>

lemma gparses_as: "parses en rd v f \<Longrightarrow> gparses P en (rd_bind (cdr rd) (\<lambda>v. rd_return (c v))) (c v) (\<lambda>g. g) f"
  by (simp add: gparses_def parses_def cdr_def rd_bind_def rd_return_def)

text \<open>A negative number is read as a large positive one.\<close>

theorem negative_read_positive:
  assumes "en \<noteq> Endian_0"
  shows "gparses P en (giop_readShort h) (sint (v2 :: u16) mod 2 ^ 16) (\<lambda>g. g) (cdr_word en 2 v2) \<and>
    gparses P en (giop_readLong h) (sint (v4 :: u32) mod 2 ^ 32) (\<lambda>g. g) (cdr_word en 4 v4) \<and>
    gparses P en (giop_readLonglong h) (sint (v8 :: u64) mod 2 ^ 64) (\<lambda>g. g) (cdr_word en 8 v8)"
proof -
  have u: "sint v2 mod 2 ^ 16 = uint v2" "sint v4 mod 2 ^ 32 = uint v4" "sint v8 mod 2 ^ 64 = uint v8"
    by (simp_all add: uint_sint take_bit_eq_mod)
  have same: "readShort h = readUshort h" "readLong h = readUlong h" "readLonglong h = readUlonglong h"
    by (simp_all add: readShort_def readUshort_def readLong_def readUlong_def readLonglong_def readUlonglong_def)
  show ?thesis unfolding u giop_readShort_def giop_readLong_def giop_readLonglong_def same
    using parses_words [OF assms] by (intro conjI gparses_as) (simp_all add: cdr_ulong_def)
qed

end
