(* ===== verification/GIOP_Messages.thy ===== *)
theory GIOP_Messages
  imports GIOP_Parse
begin

text \<open>
  Whole GIOP messages: the octets a call, a reply and an object reference put on the wire, and
  what a peer of either byte order makes of them.
\<close>

section \<open>Scanning the GIOP header\<close>

lemma readOctet_at:
  assumes "at d (x # r)"
  shows "readOctet d = Inr (x, advance 1 d)" and "at (advance 1 d) r"
proof -
  have "at d ([x] @ r)" using assms by simp
  then have "at d [x]" and *: "at (advance 1 d) r" by (simp_all only: at_append) simp_all
  then show "readOctet d = Inr (x, advance 1 d)" and "at (advance 1 d) r"
    using parsesD [OF parses_octet [of "dendian d" x]] by simp_all
qed

lemma ucast_octet: "(v :: u32) < 256 \<Longrightarrow> ucast (ucast v :: byte) = v"
  by (simp add: word_unat_eq_iff unsigned_ucast_eq word_less_nat_alt take_bit_eq_mod unat_mod)

lemma scanGIOPHeader_message:
  assumes msg: "ddata (dbuf g) = giop_header en M m type len @ rest"
    and en: "en \<noteq> Endian_0" and "4 \<le> length rest" and "len < 2 ^ 32" and "M < 256" and "m < 256"
    and type: "message_type_cast (message_type_octet type) = type"
  shows "scanGIOPHeader h g = Inr (type, g\<lparr>dmajor := M, dminor := m, m_type := type, m_length := len,
    dbuf := \<lparr>ddata = ddata (dbuf g), m_offset = 12, dendian = en\<rparr>\<rparr>)"
proof -
  let ?n = "of_nat len :: u32"
  let ?lit = "lit ''GIOP''"
  have lit: "?lit = [0x47, 0x49, 0x4f, 0x50]" by code_simp
  define d where "d = setOffset 4 (dbuf g)"
  have data: "ddata (dbuf g) = ?lit @ ucast M # ucast m # endian_octet en # message_type_octet type #
      order_bytes en 4 ?n @ rest"
    by (simp add: msg giop_header_def)
  have "at d (ucast M # ucast m # endian_octet en # message_type_octet type # order_bytes en 4 ?n @ rest)"
    by (simp add: at_def d_def setOffset_def data lit)
  note 1 = readOctet_at [OF this]
  note 2 = readOctet_at [OF 1(2)]
  note 3 = readOctet_at [OF 2(2)]
  define a3 where "a3 = advance 1 (advance 1 (advance 1 d))"
  let ?d3 = "setLittleEndian (endian_octet en AND 1 \<noteq> 0) a3"
  have a3: "ddata a3 = ddata (dbuf g)" "m_offset a3 = 7"
    by (simp_all add: a3_def d_def setOffset_def)
  have flag: "?d3 = a3\<lparr>dendian := en\<rparr>"
    using en by (cases en) (simp_all add: setLittleEndian_def endian_octet_def)
  have "at ?d3 (message_type_octet type # order_bytes en 4 ?n @ rest)"
    using 3(2) [folded a3_def] by (simp add: at_def flag)
  note 4 = readOctet_at [OF this]
  have off: "m_offset (advance 1 ?d3) = 8" by (simp add: flag a3)
  have "at (advance 1 ?d3) (order_bytes en 4 ?n)" using 4(2) by (simp only: at_append)
  then have "at (advance 1 ?d3) (cdr_ulong en ?n (m_offset (advance 1 ?d3)))"
    unfolding off by (simp add: cdr_ulong_def cdr_word_def cdr_pad_def cdr_seq_def padding_0)
  from parsesD [OF parses_words(2) [OF en] _ this, of h]
  have 5: "readUlong h (advance 1 ?d3) = Inr (?n, advance (length (cdr_ulong en ?n 8)) (advance 1 ?d3))"
    unfolding off by (simp add: flag)
  have "length (cdr_ulong en ?n 8) = 4" by (simp add: cdr_ulong_def padding_0)
  moreover have "ucast (ucast M :: byte) = M" "ucast (ucast m :: byte) = m"
    using assms(5,6) by (simp_all add: ucast_octet)
  moreover have "\<not> length (ddata (dbuf g)) < 16" using assms(3) by (simp add: msg)
  moreover have "take 4 (ddata (dbuf g)) = ?lit" by (simp add: data lit)
  moreover have "unat ?n = len" using assms(4) by (rule unat_of_nat_u32)
  moreover have "advance 4 (advance 1 ?d3) = \<lparr>ddata = ddata (dbuf g), m_offset = 12, dendian = en\<rparr>"
    using a3 by (simp add: flag advance_def)
  ultimately show ?thesis
    using 1(1) 2(1) 3(1) [folded a3_def] 4(1) 5 type
    by (simp add: scanGIOPHeader_def rd_bind_def cdr_def d_def [symmetric] del: advance_simps)
qed

section \<open>Requests on the wire\<close>

text \<open>
  What \<open>ORB::_twowayCall\<close> and \<open>ORB::onewayCall\<close> hand to the connection: the request, the
  arguments the stub encodes, the GIOP header; and the state of the connection afterwards.
\<close>

definition request_octets ::
    "host \<Rightarrow> bytes \<Rightarrow> bytes \<Rightarrow> u32 \<Rightarrow> bool \<Rightarrow> giop_encoder writer \<Rightarrow> giop_encoder \<Rightarrow>
     error + bytes \<times> connection option" where
  "request_octets h key operation rid responseExpected encode e =
     (case wr_then (encodeRequest h key operation rid responseExpected)
             (wr_then encode (wr_ok (setGIOPHeader h REQUEST))) e of
        Inl err \<Rightarrow> Inl err
      | Inr e' \<Rightarrow> Inr (edata (ebuf e'), econn e'))"

lemma pad_10_12: "cdr_seq (cdr_ulong en v) g 10 = [0, 0] @ cdr_seq (cdr_ulong en v) g 12"
proof -
  have "padding 4 10 = 2" "padding 4 12 = 0" by (simp_all add: padding_def)
  then show ?thesis
    by (simp add: cdr_seq_def cdr_ulong_def cdr_word_def cdr_pad_def numeral_2_eq_2)
qed

lemma request_10_12:
  "cdr_request en old c key operation rid re 10 =
     [0, 0] @ cdr_request en old c key operation rid re 12"
proof -
  have "\<exists>v g. cdr_request en old c key operation rid re = cdr_seq (cdr_ulong en v) g"
  proof (cases old)
    case True
    have "\<exists>v g. cdr_service_context en c = cdr_seq (cdr_ulong en v) g"
    proof (cases "c = None \<or> (\<exists>c'. c = Some c' \<and> didSendBiDirIIOP c')")
      case True
      then have "cdr_service_context en c = cdr_seq (cdr_ulong en 0) (cdr_raw [])" by auto
      then show ?thesis by blast
    next
      case False
      then show ?thesis by (cases c) (simp_all, blast)
    qed
    then obtain v g where "cdr_service_context en c = cdr_seq (cdr_ulong en v) g" by blast
    then show ?thesis using True by (simp add: cdr_request_def cdr_seq_assoc) blast
  next
    case False
    then show ?thesis by (auto simp: cdr_request_def)
  qed
  then show ?thesis by (auto simp: pad_10_12)
qed

lemma length_request_rest: "8 \<le> length (request_rest_layout en old c key operation rid re p)"
  by (simp add: request_rest_layout_def cdr_ulong_def)

lemma length_request: "8 \<le> length (cdr_request en old c key operation rid re p)"
  unfolding cdr_request_eq length_cdr_seq by (rule trans_le_add2 [OF length_request_rest])

text \<open>The octets of a request with its arguments.\<close>

definition request_layout ::
    "endian \<Rightarrow> u32 \<Rightarrow> u32 \<Rightarrow> connection option \<Rightarrow> bytes \<Rightarrow> bytes \<Rightarrow> u32 \<Rightarrow> bool \<Rightarrow> marshal \<Rightarrow> bytes" where
  "request_layout en M m c key operation rid re args =
     (let body = cdr_seq (cdr_request en (v1_0_or_1 M m) c key operation rid re) args 12
      in giop_header en M m REQUEST (length body) @ body)"

lemma request_octets_layout:
  assumes e: "enc_is M m c e" "ebuf e = enc_init" and "listen_point_known c"
    and body: "gemits (\<lambda>_. True) encode (\<lambda>e. e) args"
  shows "request_octets h key operation rid re encode e =
    Inr (request_layout (native h) M m c key operation rid re args, econn (sent_bidir e))"
proof -
  let ?req = "cdr_request (native h) (v1_0_or_1 M m) c key operation rid re"
  obtain b where b: "encodeRequest h key operation rid re e = Inr ((sent_bidir e)\<lparr>ebuf := b\<rparr>)"
    "append_mode b" "stream b = replicate 10 0 @ ?req 10"
    using encodeRequest_stream [OF e assms(3)] by metis
  have "append_mode (ebuf ((sent_bidir e)\<lparr>ebuf := b\<rparr>))" using b(2) by simp
  from gemitsE [OF body _ this] obtain b' where b': "encode ((sent_bidir e)\<lparr>ebuf := b\<rparr>) =
      Inr ((sent_bidir e)\<lparr>ebuf := b'\<rparr>)" "append_mode b'" "stream b' = stream b @ args (eoffset b)"
    by auto
  have off: "eoffset b = 12 + length (?req 12)"
    using length_stream [OF b(2)] b(3) by (simp add: request_10_12)
  have st: "stream b' = replicate 12 0 @ cdr_seq ?req args 12"
  proof -
    have "replicate 10 (0::byte) @ [0, 0] = replicate 12 0" by code_simp
    then have "replicate 10 0 @ [0, 0] @ x = replicate 12 (0::byte) @ x" for x
      by (metis append_assoc)
    then show ?thesis unfolding b'(3) b(3) off request_10_12 by (simp add: cdr_seq_def)
  qed
  then have len: "eoffset b' = 12 + length (cdr_seq ?req args 12)"
    using length_stream [OF b'(2)] by simp
  have "edata (ebuf (setGIOPHeader h REQUEST ((sent_bidir e)\<lparr>ebuf := b'\<rparr>))) =
      request_layout (native h) M m c key operation rid re args"
    and "econn (setGIOPHeader h REQUEST ((sent_bidir e)\<lparr>ebuf := b'\<rparr>)) = econn (sent_bidir e)"
    using setGIOPHeader_frame [of "(sent_bidir e)\<lparr>ebuf := b'\<rparr>" h REQUEST] b'(2) len st e(1)
    by (simp_all add: request_layout_def Let_def enc_is_def sent_bidir_def)
  then show ?thesis
    using b(1) b'(1) by (simp add: request_octets_def wr_then_def)
qed

lemma scan_request_layout:
  assumes "M < 256" and "m < 256" and "sendable c key operation" and "en \<noteq> Endian_0"
    and len: "length (request_layout en M m c key operation rid re args) < 2 ^ 32"
    and msg: "msg = request_layout en M m c key operation rid re args"
  obtains g g' where
    "scanGIOPHeader h (giop_dec_init any (Some rc) (dec_init msg en0)) = Inr (REQUEST, g)"
    "scanRequestHeader h g = Inr
       (\<lparr>rq_requestId = rid, rq_responseExpected = re, rq_objectKey = key, rq_operation = operation\<rparr>, g')"
    "drop (m_offset (dbuf g')) msg = args (m_offset (dbuf g'))" "dendian (dbuf g') = en"
    "ddata (dbuf g') = msg" "m_offset (dbuf g') \<le> length msg"
    "dmajor g' = M" "dminor g' = m" "dconn g' = dconn (hear c (any\<lparr>dconn := Some rc\<rparr>))"
proof -
  let ?req = "cdr_request en (v1_0_or_1 M m) c key operation rid re"
  let ?body = "cdr_seq ?req args 12"
  let ?g0 = "giop_dec_init any (Some rc) (dec_init msg en0)"
  have data: "ddata (dbuf ?g0) = giop_header en M m REQUEST (length ?body) @ ?body"
    by (simp add: giop_dec_init_def dec_init_def msg request_layout_def Let_def)
  have "4 \<le> length ?body" and "length ?body < 2 ^ 32"
    using length_request [of en "v1_0_or_1 M m" c key operation rid re 12] len
    by (simp_all add: request_layout_def Let_def)
  define g where "g = ?g0\<lparr>dmajor := M, dminor := m, m_type := REQUEST, m_length := length ?body,
    dbuf := \<lparr>ddata = msg, m_offset = 12, dendian = en\<rparr>\<rparr>"
  have g: "scanGIOPHeader h ?g0 = Inr (REQUEST, g)"
    using scanGIOPHeader_message [OF data assms(4) _ _ assms(1,2) message_type_cast_octet]
      \<open>4 \<le> length ?body\<close> \<open>length ?body < 2 ^ 32\<close>
    by (simp add: g_def giop_dec_init_def dec_init_def)
  have "dec_is M m g" by (simp add: dec_is_def g_def giop_dec_init_def)
  moreover have "dendian (dbuf g) = en" "m_offset (dbuf g) = 12" by (simp_all add: g_def)
  moreover have at: "at (dbuf g) (?req 12)"
    using data by (simp add: at_def g_def giop_dec_init_def dec_init_def cdr_seq_def)
  ultimately have r: "scanRequestHeader h g = Inr
      (\<lparr>rq_requestId = rid, rq_responseExpected = re, rq_objectKey = key, rq_operation = operation\<rparr>,
       (hear c g)\<lparr>dbuf := advance (length (?req 12)) (dbuf g)\<rparr>)"
    using gparsesD [OF gparses_request [OF assms(4,3)]] by simp
  have "msg = giop_header en M m REQUEST (length ?body) @ ?req 12 @ args (12 + length (?req 12))"
    using data by (simp add: giop_dec_init_def dec_init_def cdr_seq_def)
  moreover have "dmajor (hear c g) = M" "dminor (hear c g) = m"
    "dconn (hear c g) = dconn (hear c (any\<lparr>dconn := Some rc\<rparr>))"
    by (cases c; simp add: g_def giop_dec_init_def)+
  ultimately show ?thesis
    using that [OF g r] by (simp add: g_def)
qed

section \<open>Replies on the wire\<close>

text \<open>
  What \<open>ORB::socketRcvd\<close> hands to the connection: in the version of the request, the body
  the servant encodes behind the space for both headers, then the two headers.
\<close>

definition reply_encoder :: "connection option \<Rightarrow> u32 \<Rightarrow> u32 \<Rightarrow> giop_encoder" where
  "reply_encoder c major minor =
     skipReplyHeader ((giop_enc_init c)\<lparr>emajor := major, eminor := minor\<rparr>)"

definition finish_reply :: "host \<Rightarrow> u32 \<Rightarrow> ReplyStatus \<Rightarrow> giop_encoder \<Rightarrow> bytes" where
  "finish_reply h rid status e = edata (ebuf (setReplyHeader h rid status (setGIOPHeader h REPLY e)))"

definition reply_layout :: "endian \<Rightarrow> u32 \<Rightarrow> u32 \<Rightarrow> u32 \<Rightarrow> ReplyStatus \<Rightarrow> marshal \<Rightarrow> bytes" where
  "reply_layout en M m rid status args =
     giop_header en M m REPLY (12 + length (args 24)) @ reply_header en m rid status @ args 24"

lemma reply_encoder_frame:
  "append_mode (ebuf (reply_encoder c M m))" "stream (ebuf (reply_encoder c M m)) = replicate 24 0"
  "eoffset (ebuf (reply_encoder c M m)) = 24" "emajor (reply_encoder c M m) = M"
  "eminor (reply_encoder c M m) = m"
  by (simp_all add: reply_encoder_def skipReplyHeader_def on_buf_def set_offset_def giop_enc_init_def
      enc_init_def append_mode_def stream_def)

lemma reply_octets_layout:
  assumes body: "gemits P encode (\<lambda>e. e) args" and P: "P (reply_encoder c 1 m)"
  obtains e where "encode (reply_encoder c 1 m) = Inr e"
    "finish_reply h rid status e = reply_layout (native h) 1 m rid status args"
proof -
  note f = reply_encoder_frame [of c 1 m]
  obtain b where b: "encode (reply_encoder c 1 m) = Inr ((reply_encoder c 1 m)\<lparr>ebuf := b\<rparr>)"
    "append_mode b" "stream b = replicate 24 0 @ args 24"
    using gemitsE [OF body P f(1)] f(2,3) by auto
  have "eoffset b = 24 + length (args 24)" using length_stream [OF b(2)] b(3) by simp
  then have "finish_reply h rid status ((reply_encoder c 1 m)\<lparr>ebuf := b\<rparr>) =
      reply_layout (native h) 1 m rid status args"
    using reply_frame [of "(reply_encoder c 1 m)\<lparr>ebuf := b\<rparr>" h rid status REPLY] b(2,3) f
    by (simp add: finish_reply_def reply_layout_def)
  then show ?thesis using that b(1) by simp
qed

lemma scan_reply_layout:
  assumes "m < 256" and en: "en \<noteq> Endian_0"
    and len: "length (reply_layout en 1 m rid status args) < 2 ^ 32"
    and st: "reply_status_cast (reply_status_code status) = status"
    and msg: "msg = reply_layout en 1 m rid status args"
  obtains g g' where
    "scanGIOPHeader h (giop_dec_init any (Some rc) (dec_init msg en0)) = Inr (REPLY, g)"
    "scanReplyHeader h g = Inr (\<lparr>rp_requestId = rid, rp_replyStatus = status\<rparr>, g')"
    "dbuf g' = \<lparr>ddata = msg, m_offset = 24, dendian = en\<rparr>" "drop 24 msg = args 24"
    "dmajor g' = 1" "dminor g' = m" "drequestId g' = rid" "dreplyStatus g' = status" "dconn g' = Some rc"
proof -
  let ?body = "reply_header en m rid status @ args 24"
  let ?g0 = "giop_dec_init any (Some rc) (dec_init msg en0)"
  have data: "ddata (dbuf ?g0) = giop_header en 1 m REPLY (12 + length (args 24)) @ ?body"
    by (simp add: giop_dec_init_def dec_init_def msg reply_layout_def)
  define g where "g = ?g0\<lparr>dmajor := 1, dminor := m, m_type := REPLY, m_length := 12 + length (args 24),
    dbuf := \<lparr>ddata = msg, m_offset = 12, dendian = en\<rparr>\<rparr>"
  have g: "scanGIOPHeader h ?g0 = Inr (REPLY, g)"
    using scanGIOPHeader_message [OF data en _ _ _ assms(1) message_type_cast_octet] len
    by (simp add: g_def giop_dec_init_def dec_init_def reply_layout_def)
  have "dec_is 1 m g" by (simp add: dec_is_def g_def giop_dec_init_def)
  moreover have "dendian (dbuf g) = en" "m_offset (dbuf g) = 12" by (simp_all add: g_def)
  moreover have "at (dbuf g) (cdr_reply en m rid status 12)"
    using data by (simp add: at_def g_def giop_dec_init_def dec_init_def cdr_reply_at_12)
  ultimately have "scanReplyHeader h g = Inr (\<lparr>rp_requestId = rid, rp_replyStatus = status\<rparr>,
      (note_reply rid status g)\<lparr>dbuf := advance 12 (dbuf g)\<rparr>)"
    using gparsesD [OF gparses_reply [OF en refl st]] by (simp add: cdr_reply_at_12)
  from that [OF g this] show ?thesis
    by (simp add: g_def note_reply_def advance_def msg reply_layout_def giop_dec_init_def)
qed

section \<open>Object references on the wire\<close>

lemma gparses_readReference:
  assumes en: "en \<noteq> Endian_0" and "dbuf_free P" and "referable className a key"
  shows "gparses P en (readReference h)
    \<lparr>oid = className, ior_host = host a, ior_port = port a, objectKey = key\<rparr> (\<lambda>g. g)
    (cdr_reference en M m className a key)"
proof -
  have len: "unat (of_nat (length className + 1) :: u32) = length className + 1"
    using assms(3) by (intro unat_of_nat_u32) (simp add: referable_def fits_def)
  have "gparses P en (rd_bind (cdr (readUlong h)) (\<lambda>n. readReferenceN h (unat n)))
    \<lparr>oid = className, ior_host = host a, ior_port = port a, objectKey = key\<rparr> (\<lambda>g. g)
    (cdr_seq (cdr_ulong en (of_nat (length className + 1)))
      (cdr_seq (cdr_raw (className @ [0])) (cdr_seq (cdr_ulong en 1)
      (cdr_encaps en 0 (cdr_seq (cdr_profile en M m a key) (cdr_components en M m))))))"
    apply (rule gparses_cdr_seq [OF parses_words(2) [OF en]])
      apply (unfold len)
      apply (rule gparses_reference_n [OF assms])
     apply (simp_all add: assms(2))
    done
  then show ?thesis
    by (simp add: readReference_def cdr_reference_def cdr_string_def cdr_blob_def cdr_seq_assoc)
qed

lemma gparses_readObject:
  assumes en: "en \<noteq> Endian_0" and "dbuf_free P" and ok: "referable className a key"
    and len: "length className + 1 < 0x7fffff00"
  shows "gparses P en (readObject h True)
    (Some \<lparr>oid = className, ior_host = host a, ior_port = port a, objectKey = key\<rparr>) (\<lambda>g. g)
    (cdr_reference en M m className a key)"
proof -
  let ?code = "of_nat (length className + 1) :: u32"
  have code: "unat ?code = length className + 1"
    using len by (intro unat_of_nat_u32) simp
  then have c: "?code < 0x7fffff00" "?code \<noteq> 0" "?code \<noteq> 0xffffffff"
    using len by (auto simp: word_less_nat_alt dest: arg_cong [where f = unat] simp del: of_nat_add of_nat_Suc)
  have mask: "?code AND 0xffffff00 \<noteq> 0x7fffff00"
  proof
    assume *: "?code AND 0xffffff00 = 0x7fffff00"
    have "?code AND 0xffffff00 \<le> ?code" by (rule word_and_le2)
    with * c(1) show False by simp
  qed
  have ref: "gparses P en (rd_bind (readReferenceN h (unat ?code)) (\<lambda>ref. rd_return (Some ref)))
    (Some \<lparr>oid = className, ior_host = host a, ior_port = port a, objectKey = key\<rparr>) (\<lambda>g. g)
    (cdr_seq (cdr_raw (className @ [0])) (cdr_seq (cdr_ulong en 1)
      (cdr_encaps en 0 (cdr_seq (cdr_profile en M m a key) (cdr_components en M m)))))"
    unfolding code by (rule gparses_then_return [OF gparses_reference_n [OF assms(1-3)]]) simp
  have "gparses P en (readObject h True)
    (Some \<lparr>oid = className, ior_host = host a, ior_port = port a, objectKey = key\<rparr>) (\<lambda>g. g)
    (cdr_seq (cdr_ulong en ?code) (cdr_seq (cdr_raw (className @ [0])) (cdr_seq (cdr_ulong en 1)
      (cdr_encaps en 0 (cdr_seq (cdr_profile en M m a key) (cdr_components en M m))))))"
    unfolding readObject_def
    apply (rule gparses_cdr_seq [OF parses_words(2) [OF en]])
      apply (simp only: c mask if_False if_True not_True_eq_False)
      apply (rule ref)
     apply (simp_all add: assms(2))
    done
  then show ?thesis
    by (simp add: cdr_reference_def cdr_string_def cdr_blob_def cdr_seq_assoc)
qed

section \<open>What the messages carry\<close>

definition listen_host :: "connection option \<Rightarrow> nat" where
  "listen_host c = (case c of None \<Rightarrow> 0 | Some c' \<Rightarrow> length (host (the (protocol_local c'))))"

lemma length_service_context_bound: "length (cdr_service_context en c p) \<le> listen_host c + 40"
proof (cases "c = None \<or> (\<exists>c'. c = Some c' \<and> didSendBiDirIIOP c')")
  case True
  then show ?thesis using length_layouts(1) [of en 0 p] by auto
next
  case False
  then obtain c' where c: "c = Some c'" "\<not> didSendBiDirIIOP c'" by auto
  let ?a = "the (protocol_local c')" and ?t = "service_id_code BI_DIR_IIOP"
  define q where "q = p + length (cdr_ulong en 1 p)"
  define r where "r = q + length (cdr_ulong en ?t q)"
  define s where "s = r + padding 4 r + 5"
  have "length (cdr_encaps en ?t (cdr_seq (cdr_ulong en 1) (cdr_address en ?a)) q) \<le> listen_host c + 33"
    unfolding length_encaps r_def [symmetric] s_def [symmetric] length_cdr_seq
    using length_layouts(1) [of en ?t q] length_layouts(1) [of en 1 s] padding_less [of 4 r]
      length_layouts(4) [of en ?a "s + length (cdr_ulong en 1 s)"] c(1)
    by (simp add: listen_host_def)
  with length_layouts(1) [of en 1 p] c show ?thesis by (simp add: q_def)
qed

lemma length_request_rest_bound:
  "length (request_rest_layout en old c key operation rid re p) \<le>
     length key + length operation + listen_host c + 80"
proof -
  have u: "length (cdr_ulong en v q) \<le> 7" and b: "length (cdr_blob en s q) \<le> length s + 7"
    and st: "length (cdr_string en s q) \<le> length s + 8"
    and p2: "padding 2 q \<le> 1" and p8: "padding 8 q \<le> 7"
    and sc: "length (cdr_service_context en c q) \<le> listen_host c + 40" for v q s
    using length_layouts padding_less [of 2 q] padding_less [of 8 q] length_service_context_bound
    by simp_all
  have le: "\<And>f g x y p. (\<And>p. length (f p) \<le> x) \<Longrightarrow> (\<And>p. length (g p) \<le> y) \<Longrightarrow>
      length (cdr_seq f g p) \<le> x + y"
    unfolding length_cdr_seq by (rule add_mono)
  have k: "length ((if old then cdr_blob en key
      else cdr_seq (cdr_word en 2 (addressing_code KEY_ADDR)) (cdr_blob en key)) q) \<le> 3 + (length key + 7)" for q
  proof (cases old)
    case True
    have "length (cdr_blob en key q) \<le> length key + 7" by (rule b)
    with True show ?thesis by simp
  next
    case False
    have "length (cdr_seq (cdr_word en 2 (addressing_code KEY_ADDR)) (cdr_blob en key) q) \<le> 3 + (length key + 7)"
      by (rule le [OF _ b]) (use p2 in simp)
    with False show ?thesis by (simp only: if_False)
  qed
  have t: "length ((if old then cdr_ulong en 0
      else cdr_seq (cdr_service_context en c) (cdr_pad 8)) q) \<le> (listen_host c + 40) + 7" for q
    using u [of 0 q] le [of "cdr_service_context en c" "listen_host c + 40" "cdr_pad 8" 7 q] sc p8 by simp
  have "length (request_rest_layout en old c key operation rid re p) \<le>
      7 + (1 + (3 + ((3 + (length key + 7)) + ((length operation + 8) + ((listen_host c + 40) + 7)))))"
    unfolding request_rest_layout_def
    by (intro le u k t st) simp_all
  then show ?thesis by simp
qed

lemma length_request_bound:
  "length (cdr_request en old c key operation rid re p) \<le>
     length key + length operation + 2 * listen_host c + 120"
  unfolding cdr_request_eq length_cdr_seq
  using length_request_rest_bound [of en old c key operation rid re
      "p + length ((if old then cdr_service_context en c else cdr_raw []) p)"]
    length_service_context_bound [of en c p]
  by (cases old) simp_all

text \<open>C11. A request of any GIOP 1.x version, with any object key, operation name, request id
  and arguments, written by a host of either byte order, is scanned by a receiver of either
  byte order as a request with that id, key, operation and response flag, and the octets
  behind the header are the arguments, at the alignment they were written for.\<close>

theorem request_roundtrip:
  assumes "enc_is M m c e" and "ebuf e = enc_init" and "M < 256" and "m < 256"
    and "sendable c key operation" and "gemits (\<lambda>_. True) encode (\<lambda>e. e) args"
    and "length (request_layout (native h) M m c key operation rid re args) < 2 ^ 32"
  shows "\<exists>msg c' g g'. request_octets h key operation rid re encode e = Inr (msg, c') \<and>
    scanGIOPHeader h' (giop_dec_init any (Some rc) (dec_init msg en0)) = Inr (REQUEST, g) \<and>
    scanRequestHeader h' g = Inr (\<lparr>rq_requestId = rid, rq_responseExpected = re,
      rq_objectKey = key, rq_operation = operation\<rparr>, g') \<and>
    ddata (dbuf g') = msg \<and> dendian (dbuf g') = native h \<and>
    drop (m_offset (dbuf g')) msg = args (m_offset (dbuf g'))"
proof -
  have en: "native h \<noteq> Endian_0" by simp
  obtain msg where msg: "msg = request_layout (native h) M m c key operation rid re args" by blast
  obtain g g' where "scanGIOPHeader h' (giop_dec_init any (Some rc) (dec_init msg en0)) = Inr (REQUEST, g)"
    "scanRequestHeader h' g = Inr (\<lparr>rq_requestId = rid, rq_responseExpected = re,
      rq_objectKey = key, rq_operation = operation\<rparr>, g')"
    "drop (m_offset (dbuf g')) msg = args (m_offset (dbuf g'))" "dendian (dbuf g') = native h"
    "ddata (dbuf g') = msg"
    using scan_request_layout [OF assms(3-5) en assms(7) msg] by metis
  moreover have "request_octets h key operation rid re encode e = Inr (msg, econn (sent_bidir e))"
    unfolding msg
    using assms(5) by (intro request_octets_layout assms(1,2,6)) (simp add: sendable_def)
  ultimately show ?thesis by blast
qed

text \<open>A connection, a peer and an encoder for the examples.\<close>

definition sample_connection :: connection where
  "sample_connection = conn_init (Some \<lparr>host = lit ''backend'', port = 2809\<rparr>)
     \<lparr>host = lit ''frontend'', port = 9001\<rparr>"

definition sample_decoder :: giop_decoder where
  "sample_decoder = \<lparr>dmajor = 1, dminor = 2, dconn = None, dbuf = dec_init [] Endian_little,
     m_type = MESSAGE_ERROR, m_length = 0, drequestId = 0, dreplyStatus = NO_EXCEPTION\<rparr>"

lemma sample_sendable: "sendable (Some sample_connection) (lit ''OID:1'') (lit ''bind'')"
  by (simp add: sendable_def fits_def sample_connection_def conn_init_def lit_def)

lemma sample_args: "gemits P (wr_ok (on_buf (writeUlong h v))) (\<lambda>e. e) (cdr_ulong (native h) v)"
  by (intro gemits_buf emits_intros)

lemma sample_length_known:
  assumes "protocol_local c = protocol_local sample_connection"
  shows "length (request_layout en M m (Some c) (lit ''OID:1'') (lit ''bind'') rid re (cdr_ulong en v)) < 2 ^ 32"
proof -
  let ?req = "cdr_request en (v1_0_or_1 M m) (Some c) (lit ''OID:1'') (lit ''bind'') rid re"
  have "length (?req 12) \<le> 200"
    using assms by (intro order_trans [OF length_request_bound])
       (simp add: listen_host_def sample_connection_def conn_init_def lit_def)
  then show ?thesis
    using length_layouts(1) [of en v "12 + length (?req 12)"] by (simp add: request_layout_def Let_def)
qed

lemma sample_length:
  "length (request_layout en M m (Some sample_connection) (lit ''OID:1'') (lit ''bind'') rid re
     (cdr_ulong en v)) < 2 ^ 32"
  "length (reply_layout en M m rid status (cdr_ulong en v)) < 2 ^ 32"
proof -
  show "length (request_layout en M m (Some sample_connection) (lit ''OID:1'') (lit ''bind'') rid re
     (cdr_ulong en v)) < 2 ^ 32" by (rule sample_length_known) simp
  show "length (reply_layout en M m rid status (cdr_ulong en v)) < 2 ^ 32"
    using length_layouts(1) [of en v 24] by (simp add: reply_layout_def)
qed

theorem request_roundtrip_witness:
  "\<exists>msg c' g g'. request_octets LE (lit ''OID:1'') (lit ''bind'') 4 True (wr_ok (on_buf (writeUlong LE 7)))
      (giop_enc_init (Some sample_connection)) = Inr (msg, c') \<and>
    scanGIOPHeader BE (giop_dec_init sample_decoder (Some sample_connection) (dec_init msg Endian_big)) =
      Inr (REQUEST, g) \<and>
    scanRequestHeader BE g = Inr (\<lparr>rq_requestId = 4, rq_responseExpected = True,
      rq_objectKey = lit ''OID:1'', rq_operation = lit ''bind''\<rparr>, g') \<and>
    ddata (dbuf g') = msg \<and> dendian (dbuf g') = Endian_little \<and>
    drop (m_offset (dbuf g')) msg = cdr_ulong Endian_little 7 (m_offset (dbuf g'))"
  using request_roundtrip [OF _ _ _ _ sample_sendable sample_args sample_length(1),
    of 1 2 "giop_enc_init (Some sample_connection)" LE 4 True 7 BE]
  by (simp add: enc_is_def giop_enc_init_def)

text \<open>C12. A reply with any status and any result, written by a host of either byte order
  behind the space for the headers, is scanned by a client of either byte order as a reply to
  the request it answers with that status, and the octets behind the header are the result.\<close>

theorem reply_roundtrip:
  assumes "m < 256" and "reply_status_cast (reply_status_code status) = status"
    and "gemits (\<lambda>_. True) encode (\<lambda>e. e) args"
    and "length (reply_layout (native h) 1 m rid status args) < 2 ^ 32"
  shows "\<exists>e g g'. encode (reply_encoder c 1 m) = Inr e \<and>
    scanGIOPHeader h' (giop_dec_init any (Some rc) (dec_init (finish_reply h rid status e) en0)) = Inr (REPLY, g) \<and>
    scanReplyHeader h' g = Inr (\<lparr>rp_requestId = rid, rp_replyStatus = status\<rparr>, g') \<and>
    drequestId g' = rid \<and> dreplyStatus g' = status \<and>
    dbuf g' = \<lparr>ddata = finish_reply h rid status e, m_offset = 24, dendian = native h\<rparr> \<and>
    drop 24 (finish_reply h rid status e) = args 24"
proof -
  obtain e where e: "encode (reply_encoder c 1 m) = Inr e"
    "finish_reply h rid status e = reply_layout (native h) 1 m rid status args"
    using reply_octets_layout [OF assms(3) TrueI] by blast
  have en: "native h \<noteq> Endian_0" by simp
  show ?thesis
    using scan_reply_layout [OF assms(1) en assms(4,2) e(2), of h' any rc en0] e(1) by metis
qed

theorem reply_roundtrip_witness:
  "\<exists>e g g'. wr_ok (on_buf (writeUlong BE 7)) (reply_encoder (Some sample_connection) 1 1) = Inr e \<and>
    scanGIOPHeader LE (giop_dec_init sample_decoder (Some sample_connection)
      (dec_init (finish_reply BE 4 USER_EXCEPTION e) Endian_little)) = Inr (REPLY, g) \<and>
    scanReplyHeader LE g = Inr (\<lparr>rp_requestId = 4, rp_replyStatus = USER_EXCEPTION\<rparr>, g') \<and>
    drequestId g' = 4 \<and> dreplyStatus g' = USER_EXCEPTION \<and>
    dbuf g' = \<lparr>ddata = finish_reply BE 4 USER_EXCEPTION e, m_offset = 24, dendian = native BE\<rparr> \<and>
    drop 24 (finish_reply BE 4 USER_EXCEPTION e) = cdr_ulong (native BE) 7 24"
  using reply_roundtrip [OF _ reply_status_cast_code sample_args sample_length(2),
    where m = 1 and status = USER_EXCEPTION and h = BE and rid = 4 and h' = LE]
  by simp

lemma request_octets_scanned:
  assumes "enc_is M m (Some c) e" and "ebuf e = enc_init" and "M < 256" and "m < 256"
    and "sendable (Some c) key operation" and "gemits (\<lambda>_. True) encode (\<lambda>e. e) args"
    and "length (request_layout (native h) M m (Some c) key operation rid re args) < 2 ^ 32"
  shows "\<exists>msg g g'. request_octets h key operation rid re encode e = Inr (msg, Some (c\<lparr>didSendBiDirIIOP := True\<rparr>)) \<and>
    scanGIOPHeader h' (giop_dec_init any (Some rc) (dec_init msg en0)) = Inr (REQUEST, g) \<and>
    scanRequestHeader h' g = Inr (\<lparr>rq_requestId = rid, rq_responseExpected = re, rq_objectKey = key, rq_operation = operation\<rparr>, g') \<and>
    dconn g' = dconn (hear (Some c) (any\<lparr>dconn := Some rc\<rparr>))"
proof -
  have en: "native h \<noteq> Endian_0" by simp
  let ?msg = "request_layout (native h) M m (Some c) key operation rid re args"
  have "request_octets h key operation rid re encode e = Inr (?msg, Some (c\<lparr>didSendBiDirIIOP := True\<rparr>))"
    using request_octets_layout [OF assms(1,2) _ assms(6)] assms(1,5) by (simp add: sendable_def sent_bidir_def enc_is_def)
  then show ?thesis using scan_request_layout [OF assms(3-5) en assms(7) refl] by metis
qed

lemma request_layout_counter:
  "request_layout en M m (Some (c\<lparr>didSendBiDirIIOP := True, requestId := n\<rparr>)) key operation rid re args =
    request_layout en M m (Some (c\<lparr>didSendBiDirIIOP := True\<rparr>)) key operation rid re args"
proof -
  have "cdr_service_context en (Some (c\<lparr>didSendBiDirIIOP := True, requestId := n\<rparr>)) =
      cdr_service_context en (Some (c\<lparr>didSendBiDirIIOP := True\<rparr>))" by (intro ext) simp
  then show ?thesis by (simp only: request_layout_def cdr_request_def)
qed

text \<open>C32. Bi-directional IIOP: the first request over a connection announces the sender's listen point, and the
  receiver renames the remote end of its connection to it if host and port both differ. The
  sender remembers it: a second request over the connection, whatever it is, and whatever requests
  have been counted in between, leaves every receiver's connection alone.\<close>

theorem listen_point_announced_once:
  assumes "enc_is M m (Some c) e" and "ebuf e = enc_init" and "M < 256" and "m < 256"
    and "\<not> didSendBiDirIIOP c" and "protocol_local c = Some l"
    and "sendable (Some c) key operation" and "gemits (\<lambda>_. True) encode (\<lambda>e. e) args"
    and "length (request_layout (native h) M m (Some c) key operation rid re args) < 2 ^ 32"
    and "sendable (Some c) key2 operation2" and "gemits (\<lambda>_. True) encode2 (\<lambda>e. e) args2"
    and "length (request_layout (native h) M m (Some (c\<lparr>didSendBiDirIIOP := True\<rparr>)) key2 operation2 rid2 re2 args2) < 2 ^ 32"
  shows "\<exists>msg c' g rq g'. request_octets h key operation rid re encode e = Inr (msg, Some c') \<and>
    scanGIOPHeader h' (giop_dec_init any (Some rc) (dec_init msg en0)) = Inr (REQUEST, g) \<and>
    scanRequestHeader h' g = Inr (rq, g') \<and>
    dconn g' = Some (if host l \<noteq> host (remote rc) \<and> port l \<noteq> port (remote rc) then rc\<lparr>remote := l\<rparr> else rc) \<and>
    (\<forall>n rc2. \<exists>msg2 g2 rq2 g2'. request_octets h key2 operation2 rid2 re2 encode2 (e\<lparr>econn := Some (c'\<lparr>requestId := n\<rparr>)\<rparr>) =
        Inr (msg2, Some (c'\<lparr>requestId := n\<rparr>)) \<and>
      scanGIOPHeader h' (giop_dec_init any (Some rc2) (dec_init msg2 en0)) = Inr (REQUEST, g2) \<and>
      scanRequestHeader h' g2 = Inr (rq2, g2') \<and> dconn g2' = Some rc2)"
proof -
  let ?c' = "c\<lparr>didSendBiDirIIOP := True\<rparr>"
  obtain msg g g' where 1: "request_octets h key operation rid re encode e = Inr (msg, Some ?c')"
    "scanGIOPHeader h' (giop_dec_init any (Some rc) (dec_init msg en0)) = Inr (REQUEST, g)"
    "scanRequestHeader h' g = Inr (\<lparr>rq_requestId = rid, rq_responseExpected = re, rq_objectKey = key, rq_operation = operation\<rparr>, g')"
    "dconn g' = dconn (hear (Some c) (any\<lparr>dconn := Some rc\<rparr>))"
    using request_octets_scanned [OF assms(1-4,7-9)] by blast
  have "\<exists>msg2 g2 rq2 g2'. request_octets h key2 operation2 rid2 re2 encode2 (e\<lparr>econn := Some (?c'\<lparr>requestId := n\<rparr>)\<rparr>) =
        Inr (msg2, Some (?c'\<lparr>requestId := n\<rparr>)) \<and>
      scanGIOPHeader h' (giop_dec_init any (Some rc2) (dec_init msg2 en0)) = Inr (REQUEST, g2) \<and>
      scanRequestHeader h' g2 = Inr (rq2, g2') \<and> dconn g2' = Some rc2" for n rc2
  proof -
    let ?e = "e\<lparr>econn := Some (?c'\<lparr>requestId := n\<rparr>)\<rparr>"
    have e: "enc_is M m (Some (?c'\<lparr>requestId := n\<rparr>)) ?e" "ebuf ?e = enc_init" using assms(1,2) by (simp_all add: enc_is_def)
    have s: "sendable (Some (?c'\<lparr>requestId := n\<rparr>)) key2 operation2" using assms(10) by (simp add: sendable_def)
    have "length (request_layout (native h) M m (Some (?c'\<lparr>requestId := n\<rparr>)) key2 operation2 rid2 re2 args2) < 2 ^ 32"
      using assms(12) by (simp only: request_layout_counter)
    from request_octets_scanned [OF e assms(3,4) s assms(11) this, of h' any rc2 en0] show ?thesis by auto
  qed
  with 1 show ?thesis using assms(5,6)
    by (intro exI [of _ msg] exI [of _ ?c'] exI [of _ g] exI [of _ g'] exI) (simp add: renamed_def)
qed

theorem listen_point_announced_once_witness:
  "\<exists>msg c' g rq g'. request_octets BE (lit ''OID:1'') (lit ''bind'') 4 True (wr_ok (on_buf (writeUlong BE 7)))
      ((giop_enc_init (Some sample_connection))\<lparr>eminor := 0\<rparr>) = Inr (msg, Some c') \<and>
    scanGIOPHeader LE (giop_dec_init sample_decoder (Some (conn_init None \<lparr>host = lit ''127.0.0.1'', port = 5\<rparr>))
      (dec_init msg Endian_little)) = Inr (REQUEST, g) \<and>
    scanRequestHeader LE g = Inr (rq, g') \<and>
    dconn g' = Some ((conn_init None \<lparr>host = lit ''127.0.0.1'', port = 5\<rparr>)
      \<lparr>remote := \<lparr>host = lit ''backend'', port = 2809\<rparr>\<rparr>)"
proof -
  have e: "enc_is 1 0 (Some sample_connection) ((giop_enc_init (Some sample_connection))\<lparr>eminor := 0\<rparr>)"
      "ebuf ((giop_enc_init (Some sample_connection))\<lparr>eminor := 0\<rparr>) = enc_init"
      "\<not> didSendBiDirIIOP sample_connection" "protocol_local sample_connection = Some \<lparr>host = lit ''backend'', port = 2809\<rparr>"
    by (simp_all add: enc_is_def giop_enc_init_def sample_connection_def conn_init_def)
  have two: "(1 :: u32) < 256" "(0 :: u32) < 256" by simp_all
  have len: "length (request_layout (native BE) 1 0 (Some (sample_connection\<lparr>didSendBiDirIIOP := True\<rparr>)) (lit ''OID:1'') (lit ''bind'') 6 True
      (cdr_ulong (native BE) 7)) < 2 ^ 32" by (rule sample_length_known) simp
  let ?rc = "conn_init None \<lparr>host = lit ''127.0.0.1'', port = 5\<rparr>"
  have differ: "host \<lparr>host = lit ''backend'', port = 2809\<rparr> \<noteq> host (remote ?rc)" "port \<lparr>host = lit ''backend'', port = 2809\<rparr> \<noteq> port (remote ?rc)"
    by (simp_all add: conn_init_def)
  show ?thesis
    using listen_point_announced_once [where rid = 4 and re = True and h' = LE and any = sample_decoder and rc = ?rc and
        args = "cdr_ulong (native BE) 7" and h = BE and ?en0.0 = Endian_little,
        OF e(1,2) two e(3,4) sample_sendable sample_args sample_length(1) sample_sendable sample_args len]
    unfolding if_P [OF conjI [OF differ]] by blast
qed

lemma writeObject_stream:
  assumes "econn e = Some c" and "append_mode (ebuf e)"
    and "obj = (if stub then StubObject className key else SkeletonObject className key)"
    and "reach stub c = Some a"
  obtains b where "writeObject h obj e = Inr (e\<lparr>ebuf := b\<rparr>)" "append_mode b"
    "stream b = stream (ebuf e) @
      cdr_reference (native h) (emajor e) (eminor e) className a key (eoffset (ebuf e))"
proof -
  have "enc_is (emajor e) (eminor e) (Some c) e" using assms(1) by (simp add: enc_is_def)
  from gemitsE [OF gemits_reference [OF assms(4)] this assms(2), of h className key]
  obtain b where "writeReference h className key stub e = Inr (e\<lparr>ebuf := b\<rparr>)" "append_mode b"
    "stream b = stream (ebuf e) @
      cdr_reference (native h) (emajor e) (eminor e) className a key (eoffset (ebuf e))"
    by metis
  then show ?thesis using that assms(3) by (cases stub) simp_all
qed

text \<open>C15. An object reference anywhere in a message: a stub is written with the address of its
  peer, a servant with the listen address of its ORB, and the reader, of either byte order and
  whatever follows the reference, gets the repository id, that address and the object key, and
  stops exactly behind the reference.\<close>

theorem object_reference_roundtrip:
  assumes "econn e = Some c" and "append_mode (ebuf e)"
    and "obj = (if stub then StubObject className key else SkeletonObject className key)"
    and "reach stub c = Some a" and "referable className a key" and "length className + 1 < 0x7fffff00"
  shows "\<exists>b. writeObject h obj e = Inr (e\<lparr>ebuf := b\<rparr>) \<and>
    readObject h' True (g\<lparr>dbuf := \<lparr>ddata = stream b @ rest, m_offset = eoffset (ebuf e), dendian = native h\<rparr>\<rparr>) =
      Inr (Some \<lparr>oid = className, ior_host = host a, ior_port = port a, objectKey = key\<rparr>,
           g\<lparr>dbuf := \<lparr>ddata = stream b @ rest, m_offset = eoffset b, dendian = native h\<rparr>\<rparr>)"
proof -
  let ?ref = "cdr_reference (native h) (emajor e) (eminor e) className a key (eoffset (ebuf e))"
  obtain b where b: "writeObject h obj e = Inr (e\<lparr>ebuf := b\<rparr>)" "append_mode b"
    "stream b = stream (ebuf e) @ ?ref"
    using writeObject_stream [OF assms(1-4)] by blast
  have len: "length (stream (ebuf e)) = eoffset (ebuf e)" using length_stream [OF assms(2)] .
  let ?d = "\<lparr>ddata = stream b @ rest, m_offset = eoffset (ebuf e), dendian = native h\<rparr>"
  have "at ?d ?ref" using len by (simp add: at_def b(3))
  moreover have "eoffset b = eoffset (ebuf e) + length ?ref"
    using length_stream [OF b(2)] len by (simp add: b(3))
  ultimately have "readObject h' True (g\<lparr>dbuf := ?d\<rparr>) =
      Inr (Some \<lparr>oid = className, ior_host = host a, ior_port = port a, objectKey = key\<rparr>,
           g\<lparr>dbuf := ?d\<lparr>m_offset := eoffset b\<rparr>\<rparr>)"
    using gparsesD [OF gparses_readObject [OF _ _ assms(5,6), of "native h" "\<lambda>_. True" h' "emajor e" "eminor e"],
        of "g\<lparr>dbuf := ?d\<rparr>"]
    by (simp add: dbuf_free_def advance_def)
  with b(1) show ?thesis by (intro exI [where x = b]) simp
qed

theorem object_reference_roundtrip_witness:
  "\<exists>b. writeObject LE (StubObject (lit ''IDL:A:1.0'') [1, 2, 3]) (giop_enc_init (Some sample_connection)) =
      Inr ((giop_enc_init (Some sample_connection))\<lparr>ebuf := b\<rparr>) \<and>
    readObject BE True (sample_decoder\<lparr>dbuf := \<lparr>ddata = stream b @ [7], m_offset = 0, dendian = native LE\<rparr>\<rparr>) =
      Inr (Some \<lparr>oid = lit ''IDL:A:1.0'', ior_host = lit ''frontend'', ior_port = 9001, objectKey = [1, 2, 3]\<rparr>,
           sample_decoder\<lparr>dbuf := \<lparr>ddata = stream b @ [7], m_offset = eoffset b, dendian = native LE\<rparr>\<rparr>)"
  using object_reference_roundtrip [of "giop_enc_init (Some sample_connection)" sample_connection
      "StubObject (lit ''IDL:A:1.0'') [1, 2, 3]" True "lit ''IDL:A:1.0''" "[1, 2, 3]"
      "\<lparr>host = lit ''frontend'', port = 9001\<rparr>", where h = LE and h' = BE and g = sample_decoder and rest = "[7]"]
  by (simp add: giop_enc_init_def enc_init_def append_mode_def reach_def sample_connection_def conn_init_def
      referable_def fits_def lit_def)

text \<open>The null reference does not survive: \<open>writeObject(nullptr)\<close> writes an empty repository
  id and no profile, and the reader, which takes the length 0 for null, reads it as a reference
  and ends up with a port that was never assigned.\<close>

theorem null_reference_misread:
  assumes "append_mode (ebuf e)"
  shows "\<exists>b. writeObject h NullObject e = Inr (e\<lparr>ebuf := b\<rparr>) \<and>
    readObject h' True (g\<lparr>dbuf := \<lparr>ddata = stream b @ rest, m_offset = eoffset (ebuf e), dendian = native h\<rparr>\<rparr>) =
      Inl Uninitialised"
proof -
  let ?b = "writeUlong h 0 (writeOctet 0 (writeUlong h 1 (ebuf e)))"
  let ?f = "cdr_seq (cdr_ulong (native h) 1) (cdr_seq (cdr_raw ([] @ [0])) (cdr_ulong (native h) 0))"
  have "emits (\<lambda>b. writeUlong h 0 (writeOctet 0 (writeUlong h 1 b))) ?f"
    using emits_comp [OF emits_comp [OF emits_word(2) emits_octet] emits_word(2), of h 0 0 h 1]
    by (simp add: cdr_seq_assoc)
  note b = emitsD [OF this assms]
  let ?d = "\<lparr>ddata = stream ?b @ rest, m_offset = eoffset (ebuf e), dendian = native h\<rparr>"
  have at: "at ?d (?f (m_offset ?d))"
    using length_stream [OF assms] by (simp add: at_def b(2))
  have p: "parses (native h) (rd_bind (readUlong h') (\<lambda>code. rd_bind (readStringN (unat (1::u32)))
      (\<lambda>s. rd_bind (readUlong h') (\<lambda>n. rd_return (code, s, n))))) (1, [], 0) ?f"
    by (intro parses_bind [OF parses_words(2)] parses_bind [OF parses_string_n(1)]
        parses_map [OF parses_words(2)]) simp_all
  have "rd_bind (readUlong h') (\<lambda>code. rd_bind (readStringN (unat (1::u32)))
      (\<lambda>s. rd_bind (readUlong h') (\<lambda>n. rd_return (code, s, n)))) ?d = Inr ((1, [], 0), advance (length (?f (m_offset ?d))) ?d)"
    by (rule parsesD [OF p _ at]) simp
  then have "readObject h' True (g\<lparr>dbuf := ?d\<rparr>) = Inl Uninitialised"
    by (auto simp: rd_bind_eq_Inr readObject_def readReferenceN_def rd_bind_def cdr_def split: sum.splits)
  then show ?thesis by (auto simp: on_buf_def)
qed

theorem null_reference_misread_witness:
  "\<exists>b. writeObject BE NullObject (giop_enc_init None) = Inr ((giop_enc_init None)\<lparr>ebuf := b\<rparr>) \<and>
    readObject LE True (sample_decoder\<lparr>dbuf := \<lparr>ddata = stream b @ [1], m_offset = eoffset (ebuf (giop_enc_init None)),
      dendian = native BE\<rparr>\<rparr>) = Inl Uninitialised"
  by (rule null_reference_misread) (simp add: giop_enc_init_def)

end
