(* ===== verification/Text.thy ===== *)
theory Text
  imports Corba_Prelude
begin

text \<open>
  The parts of the C and C++ library that the textual formats rest on: character classes in
  the C locale, \<open>std::format\<close> and \<open>std::from_chars\<close> for integers, and their inverses.
\<close>

section \<open>Character classes\<close>

text \<open>Bytes from 0x80 on are negative \<open>char\<close>s, which no class of the C locale contains.\<close>

definition is_digit :: "byte \<Rightarrow> bool" where
  "is_digit c \<longleftrightarrow> 0x30 \<le> c \<and> c \<le> 0x39"

definition is_alnum :: "byte \<Rightarrow> bool" where
  "is_alnum c \<longleftrightarrow> is_digit c \<or> (0x41 \<le> c \<and> c \<le> 0x5a) \<or> (0x61 \<le> c \<and> c \<le> 0x7a)"

definition is_space :: "byte \<Rightarrow> bool" where
  "is_space c \<longleftrightarrow> c = 0x20 \<or> (0x09 \<le> c \<and> c \<le> 0x0d)"

definition hex_value :: "byte \<Rightarrow> nat option" where
  "hex_value c =
     (if is_digit c then Some (unat c - 0x30)
      else if 0x41 \<le> c \<and> c \<le> 0x46 then Some (unat c - 0x37)
      else if 0x61 \<le> c \<and> c \<le> 0x66 then Some (unat c - 0x57)
      else None)"

section \<open>Decimal numbers\<close>

definition digit_char :: "nat \<Rightarrow> byte" where
  "digit_char d = of_nat (0x30 + d)"

fun show_decimal :: "nat \<Rightarrow> bytes" where
  "show_decimal n =
     (if n < 10 then [digit_char n] else show_decimal (n div 10) @ [digit_char (n mod 10)])"

declare show_decimal.simps [simp del]

definition read_decimal :: "bytes \<Rightarrow> nat" where
  "read_decimal ds = foldl (\<lambda>n c. 10 * n + (unat c - 0x30)) 0 ds"

lemma unat_digit_char: "d < 10 \<Longrightarrow> unat (digit_char d) = 0x30 + d"
  unfolding digit_char_def by (subst unat_of_nat) simp

lemma is_digit_char [simp]: "d < 10 \<Longrightarrow> is_digit (digit_char d)"
  by (simp add: is_digit_def word_le_nat_alt unat_digit_char)

lemma show_decimal_digits: "c \<in> set (show_decimal n) \<Longrightarrow> is_digit c"
proof (induction n rule: show_decimal.induct)
  case (1 n)
  then show ?case by (cases "n < 10") (auto simp: show_decimal.simps [of n])
qed

lemma show_decimal_nonempty [simp]: "show_decimal n \<noteq> []"
  by (subst show_decimal.simps) simp

lemma read_show_decimal [simp]: "read_decimal (show_decimal n) = n"
proof (induction n rule: show_decimal.induct)
  case (1 n)
  show ?case
  proof (cases "n < 10")
    case True
    then show ?thesis by (simp add: show_decimal.simps [of n] read_decimal_def unat_digit_char)
  next
    case False
    then have "read_decimal (show_decimal n) =
        10 * read_decimal (show_decimal (n div 10)) + (unat (digit_char (n mod 10)) - 0x30)"
      by (simp add: show_decimal.simps [of n] read_decimal_def)
    then show ?thesis using 1 [OF False] by (simp add: unat_digit_char)
  qed
qed

section \<open>Hexadecimal numbers\<close>

definition hex_digit :: "nat \<Rightarrow> byte" where
  "hex_digit d = of_nat (if d < 10 then 0x30 + d else 0x57 + d)"

text \<open>\<open>std::format("{:x}", n)\<close>.\<close>

fun show_hex :: "nat \<Rightarrow> bytes" where
  "show_hex n = (if n < 16 then [hex_digit n] else show_hex (n div 16) @ [hex_digit (n mod 16)])"

declare show_hex.simps [simp del]

text \<open>\<open>operator<<(ostream, blob)\<close> (src/corba/blob.hh): two digits per octet.\<close>

definition show_blob :: "bytes \<Rightarrow> bytes" where
  "show_blob bs = concat (map (\<lambda>b. [hex_digit (unat b div 16), hex_digit (unat b mod 16)]) bs)"

lemma unat_hex_digit: "d < 16 \<Longrightarrow> unat (hex_digit d) = (if d < 10 then 0x30 + d else 0x57 + d)"
  unfolding hex_digit_def by (subst unat_of_nat) simp

lemma hex_value_digit [simp]: "d < 16 \<Longrightarrow> hex_value (hex_digit d) = Some d"
  by (simp add: hex_value_def is_digit_def word_le_nat_alt unat_hex_digit)

definition read_hex :: "bytes \<Rightarrow> nat" where
  "read_hex ds = foldl (\<lambda>n c. 16 * n + the (hex_value c)) 0 ds"

lemma read_show_hex [simp]: "read_hex (show_hex n) = n"
proof (induction n rule: show_hex.induct)
  case (1 n)
  show ?case
  proof (cases "n < 16")
    case True
    then show ?thesis by (simp add: show_hex.simps [of n] read_hex_def)
  next
    case False
    then have "read_hex (show_hex n) =
        16 * read_hex (show_hex (n div 16)) + the (hex_value (hex_digit (n mod 16)))"
      by (simp add: show_hex.simps [of n] read_hex_def)
    then show ?thesis using 1 [OF False] by simp
  qed
qed

lemma show_hex_inj: "show_hex m = show_hex n \<Longrightarrow> m = n"
  by (metis read_show_hex)

text \<open>\<open>std::from_chars(p, p + 2, out, 16)\<close> into a byte: the digits up to the first other
  character; without any, \<open>out\<close> keeps the value it had.\<close>

definition from_chars_hex2 :: "byte \<Rightarrow> byte \<Rightarrow> byte option" where
  "from_chars_hex2 a b =
     (case hex_value a of
        None \<Rightarrow> None
      | Some x \<Rightarrow> (case hex_value b of None \<Rightarrow> Some (of_nat x) | Some y \<Rightarrow> Some (of_nat (16 * x + y))))"

lemma from_chars_show [simp]:
  "from_chars_hex2 (hex_digit (unat b div 16)) (hex_digit (unat b mod 16)) = Some b"
proof -
  have "unat b < 256" using unsigned_less [of b] by simp
  then have "unat b div 16 < 16" by simp
  then show ?thesis by (simp add: from_chars_hex2_def)
qed

end
