(* ===== verification/Exceptions.thy ===== *)
theory Exceptions
  imports GIOP_Messages Text
begin

text \<open>
  The CORBA exceptions (src/corba/exception.hh) and what the client makes of the status of a
  reply (the second half of \<open>ORB::_twowayCall\<close> in src/corba/orb.cc).
\<close>

section \<open>Exceptions\<close>

text \<open>
  The enumeration has no fixed type: \<open>static_cast\<close> of a ulong is defined up to 3, the values its
  two bits can hold.
\<close>

datatype CompletionStatus = YES | NO | MAYBE | CompletionStatus_3

fun completion_code :: "CompletionStatus \<Rightarrow> u32" where
  "completion_code YES = 0"
| "completion_code NO = 1"
| "completion_code MAYBE = 2"
| "completion_code CompletionStatus_3 = 3"

definition completion_cast :: "u32 \<Rightarrow> CompletionStatus option" where
  "completion_cast n =
     (if n = 0 then Some YES else if n = 1 then Some NO else if n = 2 then Some MAYBE
      else if n = 3 then Some CompletionStatus_3 else None)"

text \<open>The classes derived from \<open>SystemException\<close>, in the order of the source.\<close>

datatype system_class =
    BAD_INV_ORDER | ACTIVITY_COMPLETED | ACTIVITY_REQUIRED | BAD_CONTEXT | BAD_OPERATION
  | BAD_PARAM | BAD_TYPECODE | CODESET_INCOMPATIBLE | DATA_CONVERSION | IMP_LIMIT | INITIALIZE
  | INTERNAL | INTF_REPOS | INVALID_ACTIVITY | INV_OBJREF | INV_POLICY | MARSHAL | NO_IMPLEMENT
  | NO_RESOURCES | NO_RESPONSE | OBJECT_ADAPTER | OBJECT_NOT_EXIST | TIMEOUT
  | TRANSACTION_ROLLEDBACK | TRANSIENT | UNKNOWN | NO_PERMISSION | REBIND | COMM_FAILURE

record system_exception =
  sclass :: system_class
  sminor :: u32
  scompleted :: CompletionStatus

text \<open>\<open>_rep_id\<close>\<close>

fun rep_id :: "system_class \<Rightarrow> bytes" where
  "rep_id BAD_INV_ORDER = lit ''IDL:omg.org/CORBA/BAD_INV_ORDER:1.0''"
| "rep_id ACTIVITY_COMPLETED = lit ''IDL:omg.org/CORBA/ACTIVITY_COMPLETED:1.0''"
| "rep_id ACTIVITY_REQUIRED = lit ''IDL:omg.org/CORBA/ACTIVITY_REQUIRED:1.0''"
| "rep_id BAD_CONTEXT = lit ''IDL:omg.org/CORBA/BAD_CONTEXT:1.0''"
| "rep_id BAD_OPERATION = lit ''IDL:omg.org/CORBA/BAD_OPERATION:1.0''"
| "rep_id BAD_PARAM = lit ''IDL:omg.org/CORBA/BAD_PARAM:1.0''"
| "rep_id BAD_TYPECODE = lit ''IDL:omg.org/CORBA/BAD_TYPECODE:1.0''"
| "rep_id CODESET_INCOMPATIBLE = lit ''IDL:omg.org/CORBA/CODESET_INCOMPATIBLE:1.0''"
| "rep_id DATA_CONVERSION = lit ''IDL:omg.org/CORBA/DATA_CONVERSION:1.0''"
| "rep_id IMP_LIMIT = lit ''IDL:omg.org/CORBA/IMP_LIMIT:1.0''"
| "rep_id INITIALIZE = lit ''IDL:omg.org/CORBA/INITIALIZE:1.0''"
| "rep_id INTERNAL = lit ''IDL:omg.org/CORBA/INTERNAL:1.0''"
| "rep_id INTF_REPOS = lit ''IDL:omg.org/CORBA/INTF_REPOS:1.0''"
| "rep_id INVALID_ACTIVITY = lit ''IDL:omg.org/CORBA/INVALID_ACTIVITY:1.0''"
| "rep_id INV_OBJREF = lit ''IDL:omg.org/CORBA/INV_OBJREF:1.0''"
| "rep_id INV_POLICY = lit ''IDL:omg.org/CORBA/INV_POLICY:1.0''"
| "rep_id MARSHAL = lit ''IDL:omg.org/CORBA/MARSHAL:1.0''"
| "rep_id NO_IMPLEMENT = lit ''IDL:omg.org/CORBA/NO_IMPLEMENT:1.0''"
| "rep_id NO_RESOURCES = lit ''IDL:omg.org/CORBA/NO_RESOURCES:1.0''"
| "rep_id NO_RESPONSE = lit ''IDL:omg.org/CORBA/NO_RESPONSE:1.0''"
| "rep_id OBJECT_ADAPTER = lit ''IDL:omg.org/CORBA/OBJECT_ADAPTER:1.0''"
| "rep_id OBJECT_NOT_EXIST = lit ''IDL:omg.org/CORBA/OBJECT_NOT_EXIST:1.0''"
| "rep_id TIMEOUT = lit ''IDL:omg.org/CORBA/TIMEOUT:1.0''"
| "rep_id TRANSACTION_ROLLEDBACK = lit ''IDL:omg.org/CORBA/TRANSACTION_ROLLEDBACK:1.0''"
| "rep_id TRANSIENT = lit ''IDL:omg.org/CORBA/TRANSIENT:1.0''"
| "rep_id UNKNOWN = lit ''IDL:omg.org/CORBA/UNKNOWN:1.0''"
| "rep_id NO_PERMISSION = lit ''IDL:omg.org/CORBA/NO_PERMISSION:1.0''"
| "rep_id REBIND = lit ''IDL:omg.org/CORBA/REBIND:1.0''"
| "rep_id COMM_FAILURE = lit ''IDL:omg.org/CORBA/COMM_FAILURE:1.0''"

declare rep_id.simps [simp del]

text \<open>What is thrown: \<open>std::exception\<close> comes with the name of its type and its text.\<close>

datatype thrown =
    SystemException system_exception
  | UserException
  | StdException bytes bytes
  | OtherException

section \<open>The client's table\<close>

text \<open>The comparisons of \<open>_twowayCall\<close>, in its order.\<close>

definition exception_table :: "(string \<times> system_class) list" where
  "exception_table =
     [(''IDL:omg.org/CORBA/BAD_INV_ORDER:1.0'', BAD_INV_ORDER),
      (''IDL:omg.org/CORBA/ACTIVITY_COMPLETED:1.0'', ACTIVITY_COMPLETED),
      (''IDL:omg.org/CORBA/ACTIVITY_REQUIRED:1.0'', ACTIVITY_REQUIRED),
      (''IDL:omg.org/CORBA/BAD_CONTEXT:1.0'', BAD_CONTEXT),
      (''IDL:omg.org/CORBA/BAD_OPERATION:1.0'', BAD_OPERATION),
      (''IDL:omg.org/CORBA/BAD_PARAM:1.0'', BAD_PARAM),
      (''IDL:omg.org/CORBA/BAD_TYPECODE:1.0'', BAD_TYPECODE),
      (''IDL:omg.org/CORBA/CODESET_INCOMPATIBLE:1.0'', CODESET_INCOMPATIBLE),
      (''IDL:omg.org/CORBA/DATA_CONVERSION:1.0'', DATA_CONVERSION),
      (''IDL:omg.org/CORBA/IMP_LIMIT:1.0'', IMP_LIMIT),
      (''IDL:omg.org/CORBA/INITIALIZE:1.0'', INITIALIZE),
      (''IDL:omg.org/CORBA/INTERNAL:1.0'', INTERNAL),
      (''IDL:omg.org/CORBA/INTF_REPOS:1.0'', INTF_REPOS),
      (''IDL:omg.org/CORBA/INVALID_ACTIVITY:1.0'', INVALID_ACTIVITY),
      (''IDL:omg.org/CORBA/INV_OBJREF:1.0'', INV_OBJREF),
      (''IDL:omg.org/CORBA/INV_POLICY:1.0'', INV_POLICY),
      (''IDL:omg.org/CORBA/MARSHAL:1.0'', MARSHAL),
      (''IDL:omg.org/CORBA/NO_IMPLEMENT:1.0'', NO_IMPLEMENT),
      (''IDL:omg.org/CORBA/NO_RESPONSE:1.0'', NO_RESPONSE),
      (''IDL:omg.org/CORBA/OBJECT_ADAPTER:1.0'', OBJECT_ADAPTER),
      (''IDL:omg.org/CORBA/OBJECT_NOT_EXIST:1.0'', OBJECT_NOT_EXIST),
      (''IDL:omg.org/CORBA/TIMEOUT:1.0'', TIMEOUT),
      (''IDL:omg.org/CORBA/TRANSACTION_ROLLEDBACK:1.0'', TRANSACTION_ROLLEDBACK),
      (''IDL:omg.org/CORBA/TRANSIENT:1.0'', TRANSIENT),
      (''IDL:omg.org/CORBA/UNKNOWN:1.0'', UNKNOWN),
      (''IDL:omg.org/CORBA/NO_PERMISSION:1.0'', NO_PERMISSION),
      (''IDL:omg.org/CORBA/REBIND:1.0'', REBIND),
      (''IDL:omg.org/CORBA/COMM_FAILURE:1.0'', COMM_FAILURE)]"

fun table_lookup :: "(string \<times> 'a) list \<Rightarrow> bytes \<Rightarrow> 'a option" where
  "table_lookup [] exceptionId = None"
| "table_lookup ((rid, c) # t) exceptionId =
     (if exceptionId = lit rid then Some c else table_lookup t exceptionId)"

definition system_class_of :: "bytes \<Rightarrow> system_class option" where
  "system_class_of = table_lookup exception_table"

section \<open>Which exceptions come through\<close>

lemma unat_of_char: "unat (of_char c :: byte) = of_char c"
proof -
  have "(of_char c :: nat) < 256" by (cases c) (simp add: horner_sum_simps)
  then show ?thesis
    by (simp add: unsigned_of_nat take_bit_nat_eq_self flip: of_nat_of_char [where 'a = "8 word"])
qed

lemma lit_inject [simp]: "lit s = lit t \<longleftrightarrow> s = t"
proof -
  have "inj (of_char :: char \<Rightarrow> byte)"
    by (rule injI) (metis unat_of_char of_char_eq_iff)
  then show ?thesis by (simp add: lit_def inj_map_eq_map)
qed

lemma system_class_of_rep_id:
  "system_class_of (rep_id c) = (if c = NO_RESOURCES then None else Some c)"
  unfolding system_class_of_def exception_table_def
  by (cases c) (simp_all add: rep_id.simps del: lit_simps)

section \<open>On the server: the body of a system exception\<close>

definition write_system_exception :: "host \<Rightarrow> system_exception \<Rightarrow> cdr_encoder \<Rightarrow> cdr_encoder" where
  "write_system_exception h ex b =
     writeUlong h (completion_code (scompleted ex))
       (writeUlong h (sminor ex) (writeCString h (rep_id (sclass ex)) b))"

definition write_generic_exception :: "host \<Rightarrow> bytes \<Rightarrow> bytes \<Rightarrow> cdr_encoder \<Rightarrow> cdr_encoder" where
  "write_generic_exception h type_name what b =
     writeString h (lit ''IDL:'' @ type_name @ lit '':1.0: '' @ what)
       (writeUlong h 0 (writeUlong h 0 (writeCString h (lit ''IDL:mark13.org/CORBA/GENERIC:1.0'') b)))"

section \<open>On the client: what a reply is turned into\<close>

definition HostAndPort_str :: "HostAndPort \<Rightarrow> bytes" where
  "HostAndPort_str a = lit ''['' @ host a @ lit '']:'' @ show_decimal (unat (port a))"

definition Connection_str :: "connection \<Rightarrow> bytes" where
  "Connection_str c =
     (case protocol_local c of
        Some l \<Rightarrow> HostAndPort_str l @ lit '' -> '' @ HostAndPort_str (remote c)
      | None \<Rightarrow> lit ''null -> '' @ HostAndPort_str (remote c))"

text \<open>\<open>Returned\<close>: the decoder, standing at the result; \<open>ThrewRuntime\<close>: \<open>std::runtime_error\<close>.\<close>

datatype call_result =
    Returned giop_decoder
  | ThrewUser
  | ThrewSystem system_exception
  | ThrewRuntime bytes

definition read_system_exception :: "host \<Rightarrow> connection \<Rightarrow> call_result giop_reader" where
  "read_system_exception h c =
     rd_bind (cdr (readString h)) (\<lambda>exceptionId.
     rd_bind (cdr (readUlong h)) (\<lambda>minorCodeValue.
     rd_bind (cdr (readUlong h)) (\<lambda>n.
     case completion_cast n of
       None \<Rightarrow> rd_throw BadConversion
     | Some completionStatus \<Rightarrow>
         (case system_class_of exceptionId of
            Some cl \<Rightarrow>
              rd_return (ThrewSystem \<lparr>sclass = cl, sminor = minorCodeValue, scompleted = completionStatus\<rparr>)
          | None \<Rightarrow>
              if exceptionId = lit ''IDL:mark13.org/CORBA/GENERIC:1.0''
              then rd_bind (cdr (readString h)) (\<lambda>text.
                   rd_return (ThrewRuntime
                     (lit ''Remote CORBA exception from '' @ Connection_str c @ lit '': '' @ text)))
              else rd_return (ThrewRuntime
                     (lit ''CORBA System Exception '' @ exceptionId @ lit '' from '' @ Connection_str c))))))"

definition twoway_result :: "host \<Rightarrow> connection \<Rightarrow> giop_decoder \<Rightarrow> error + call_result" where
  "twoway_result h c decoder =
     (case dreplyStatus decoder of
        NO_EXCEPTION \<Rightarrow> Inr (Returned decoder)
      | USER_EXCEPTION \<Rightarrow> Inr ThrewUser
      | SYSTEM_EXCEPTION \<Rightarrow>
          (case read_system_exception h c decoder of Inl err \<Rightarrow> Inl err | Inr (r, _) \<Rightarrow> Inr r)
      | status \<Rightarrow> Inr (ThrewRuntime (lit ''ReplyStatusType '' @
          show_decimal (unat (reply_status_code status)) @ lit '' is not supported'')))"

section \<open>Both ends\<close>

lemma completion_cast_code [simp]: "completion_cast (completion_code s) = Some s"
  by (cases s) (simp_all add: completion_cast_def)

lemma rep_id_no_nul: "takeWhile (\<lambda>c. c \<noteq> 0) (rep_id c) = rep_id c" "fits (rep_id c)"
  by (cases c; simp add: rep_id.simps fits_def)+

definition cdr_system_exception :: "endian \<Rightarrow> system_exception \<Rightarrow> marshal" where
  "cdr_system_exception en ex =
     cdr_seq (cdr_string en (rep_id (sclass ex)))
    (cdr_seq (cdr_ulong en (sminor ex)) (cdr_ulong en (completion_code (scompleted ex))))"

lemma emits_system_exception:
  "emits (write_system_exception h ex) (cdr_system_exception (native h) ex)"
  using emits_comp [OF emits_comp [OF emits_cstring [of h "rep_id (sclass ex)"] emits_word(2) [of h "sminor ex"]]
      emits_word(2) [of h "completion_code (scompleted ex)"]]
  by (simp add: write_system_exception_def [abs_def] cdr_system_exception_def rep_id_no_nul cdr_seq_assoc)

definition thrown_at_client :: "connection \<Rightarrow> system_exception \<Rightarrow> call_result" where
  "thrown_at_client c ex =
     (if sclass ex = NO_RESOURCES
      then ThrewRuntime (lit ''CORBA System Exception '' @ rep_id NO_RESOURCES @ lit '' from '' @ Connection_str c)
      else ThrewSystem ex)"

lemma gparses_system_exception:
  assumes "en \<noteq> Endian_0"
  shows "gparses (\<lambda>_. True) en (read_system_exception h c) (thrown_at_client c ex) (\<lambda>g. g)
    (cdr_system_exception en ex)"
proof -
  have g: "rep_id NO_RESOURCES \<noteq> lit ''IDL:mark13.org/CORBA/GENERIC:1.0''"
    by (simp add: rep_id.simps del: lit_simps)
  have ex: "\<lparr>sclass = sclass ex, sminor = sminor ex, scompleted = scompleted ex\<rparr> = ex" by (cases ex) simp
  have 3: "gparses (\<lambda>_. True) en (rd_bind (cdr (readUlong h)) (\<lambda>n.
      case completion_cast n of
       None \<Rightarrow> rd_throw BadConversion
     | Some completionStatus \<Rightarrow>
         (case system_class_of (rep_id (sclass ex)) of
            Some cl \<Rightarrow>
              rd_return (ThrewSystem \<lparr>sclass = cl, sminor = sminor ex, scompleted = completionStatus\<rparr>)
          | None \<Rightarrow>
              if rep_id (sclass ex) = lit ''IDL:mark13.org/CORBA/GENERIC:1.0''
              then rd_bind (cdr (readString h)) (\<lambda>text.
                   rd_return (ThrewRuntime
                     (lit ''Remote CORBA exception from '' @ Connection_str c @ lit '': '' @ text)))
              else rd_return (ThrewRuntime
                     (lit ''CORBA System Exception '' @ rep_id (sclass ex) @ lit '' from '' @ Connection_str c)))))
     (thrown_at_client c ex) (\<lambda>g. g) (cdr_seq (cdr_ulong en (completion_code (scompleted ex))) (cdr_raw []))"
    by (rule gparses_cdr_seq [OF parses_words(2) [OF assms]])
       (simp_all add: thrown_at_client_def system_class_of_rep_id g ex gparses_return dbuf_free_def del: lit_simps)
  have len: "length (rep_id (sclass ex)) + 1 < 2 ^ 32" using rep_id_no_nul(2) [of "sclass ex"] by (simp add: fits_def)
  have "gparses (\<lambda>_. True) en (read_system_exception h c) (thrown_at_client c ex) (\<lambda>g. g)
    (cdr_seq (cdr_string en (rep_id (sclass ex)))
    (cdr_seq (cdr_ulong en (sminor ex)) (cdr_seq (cdr_ulong en (completion_code (scompleted ex))) (cdr_raw []))))"
    unfolding read_system_exception_def
    by (rule gparses_cdr_seq [OF parses_string(1) [OF len assms]], rule gparses_cdr_seq [OF parses_words(2) [OF assms]], rule 3)
       (simp_all add: dbuf_free_def)
  then show ?thesis by (simp add: cdr_system_exception_def)
qed

definition cdr_generic_exception :: "endian \<Rightarrow> bytes \<Rightarrow> bytes \<Rightarrow> marshal" where
  "cdr_generic_exception en type_name what =
     cdr_seq (cdr_string en (lit ''IDL:mark13.org/CORBA/GENERIC:1.0''))
    (cdr_seq (cdr_ulong en 0) (cdr_seq (cdr_ulong en 0)
     (cdr_string en (lit ''IDL:'' @ type_name @ lit '':1.0: '' @ what))))"

lemma generic_id:
  "takeWhile (\<lambda>c. c \<noteq> 0) (lit ''IDL:mark13.org/CORBA/GENERIC:1.0'') = lit ''IDL:mark13.org/CORBA/GENERIC:1.0''"
  "system_class_of (lit ''IDL:mark13.org/CORBA/GENERIC:1.0'') = None"
proof -
  show "takeWhile (\<lambda>c. c \<noteq> 0) (lit ''IDL:mark13.org/CORBA/GENERIC:1.0'') = lit ''IDL:mark13.org/CORBA/GENERIC:1.0''"
    by simp
  show "system_class_of (lit ''IDL:mark13.org/CORBA/GENERIC:1.0'') = None"
    unfolding system_class_of_def exception_table_def by (simp del: lit_simps)
qed

lemma emits_generic_exception:
  "emits (write_generic_exception h type_name what) (cdr_generic_exception (native h) type_name what)"
  using emits_comp [OF emits_comp [OF emits_comp [OF
      emits_cstring [of h "lit ''IDL:mark13.org/CORBA/GENERIC:1.0''"] emits_word(2) [of h 0]]
      emits_word(2) [of h 0]] emits_string [of h "lit ''IDL:'' @ type_name @ lit '':1.0: '' @ what"]]
  unfolding write_generic_exception_def [abs_def] cdr_generic_exception_def generic_id(1) cdr_seq_assoc .

definition generic_at_client :: "connection \<Rightarrow> bytes \<Rightarrow> bytes \<Rightarrow> call_result" where
  "generic_at_client c type_name what =
     ThrewRuntime (lit ''Remote CORBA exception from '' @ Connection_str c @ lit '': '' @
       (lit ''IDL:'' @ type_name @ lit '':1.0: '' @ what))"

lemma gparses_generic_exception:
  assumes en: "en \<noteq> Endian_0" and "length type_name + length what < 2 ^ 31"
  shows "gparses (\<lambda>_. True) en (read_system_exception h c) (generic_at_client c type_name what) (\<lambda>g. g)
    (cdr_generic_exception en type_name what)"
proof -
  let ?text = "lit ''IDL:'' @ type_name @ lit '':1.0: '' @ what"
  have len: "length ?text + 1 < 2 ^ 32" "length (lit ''IDL:mark13.org/CORBA/GENERIC:1.0'') + 1 < 2 ^ 32"
    using assms(2) by simp_all
  have c0: "completion_cast 0 = Some YES" by (simp add: completion_cast_def)
  have 4: "gparses (\<lambda>_. True) en (rd_bind (cdr (readString h)) (\<lambda>text. rd_return (ThrewRuntime
      (lit ''Remote CORBA exception from '' @ Connection_str c @ lit '': '' @ text))))
      (generic_at_client c type_name what) (\<lambda>g. g) (cdr_string en ?text)"
    unfolding generic_at_client_def
    by (rule gparses_then_return [OF gparses_cdr [OF parses_string(1) [OF len(1) en]]]) simp
  show ?thesis
    unfolding read_system_exception_def cdr_generic_exception_def
    apply (rule gparses_cdr_seq [OF parses_string(1) [OF len(2) en]])
      apply (rule gparses_cdr_seq [OF parses_words(2) [OF en]])
        apply (rule gparses_cdr_seq [OF parses_words(2) [OF en]])
          apply (simp only: c0 generic_id(2) option.case refl if_True)
          apply (rule 4)
         apply (simp_all add: dbuf_free_def)
    done
qed

end
