(* ===== verification/Naming.thy ===== *)
theory Naming
  imports Exceptions
begin

text \<open>
  The name service (src/corba/naming.cc, src/corba/naming.hh): the servant
  \<open>NamingContextExtImpl\<close> with its table, and the call of \<open>NamingContextExtStub\<close>.
\<close>

section \<open>Servants and references to objects\<close>

text \<open>
  A servant is known by the address of its object, \<open>sref\<close>. The part of \<open>Skeleton\<close> and
  \<open>Object\<close> the ORB looks at: whether the pointer to an ORB is set, the object key and the
  repository id its class returns.
\<close>

type_synonym sref = nat

record skeleton =
  sk_orb :: bool
  sk_key :: bytes
  sk_rid :: bytes

text \<open>A \<open>shared_ptr<Object>\<close>: to a servant, or to a stub with its repository id and object key.\<close>

datatype object_ref = ServantRef sref | StubRef bytes bytes

fun object_of :: "(sref \<Rightarrow> skeleton) \<Rightarrow> object_ref \<Rightarrow> corba_object" where
  "object_of skels (ServantRef s) = SkeletonObject (sk_rid (skels s)) (sk_key (skels s))"
| "object_of skels (StubRef rid key) = StubObject rid key"

section \<open>What becomes of a dispatched operation\<close>

text \<open>
  \<open>Finished\<close>: the coroutine has returned and the results are in the encoder; \<open>Failed\<close>: it
  has thrown, with what it had written until then; \<open>Suspended\<close>: it waits, and will go on
  later; \<open>Escaped\<close>: \<open>_dispatch\<close> itself has thrown a \<open>std::exception\<close>, before there was a
  coroutine.
\<close>

datatype dispatch_outcome =
    Finished giop_encoder
  | Failed thrown giop_encoder
  | Suspended
  | Escaped

text \<open>\<open>typeid(ex).name()\<close> and \<open>ex.what()\<close> of the exceptions of the library.\<close>

record exception_texts =
  type_name :: "error \<Rightarrow> bytes"
  what_text :: "error \<Rightarrow> bytes"

definition runtime_error :: "exception_texts \<Rightarrow> bytes \<Rightarrow> thrown" where
  "runtime_error x text = StdException (type_name x (RuntimeError [])) text"

text \<open>
  An exception of the decoder or encoder inside \<open>_dispatch\<close>. The encoder throws nothing after it
  has begun to write an object, because it has a connection.
\<close>

definition raise_in :: "exception_texts \<Rightarrow> error \<Rightarrow> giop_encoder \<Rightarrow> error + dispatch_outcome" where
  "raise_in x err e =
     (if undefined_behaviour err then Inl err
      else Inr (Failed (StdException (type_name x err) (what_text x err)) e))"

section \<open>The naming context\<close>

type_synonym names = "bytes \<Rightarrow> object_ref option"

text \<open>The left side is the text of the \<open>std::runtime_error\<close>.\<close>

definition naming_bind :: "bytes \<Rightarrow> object_ref \<Rightarrow> names \<Rightarrow> bytes + names" where
  "naming_bind name servant name2Object =
     (if name \<in> dom name2Object
      then Inl (lit ''name \"'' @ name @ lit ''\" is already bound to object'')
      else Inr (name2Object(name \<mapsto> servant)))"

definition naming_resolve :: "bytes \<Rightarrow> names \<Rightarrow> bytes + object_ref" where
  "naming_resolve name name2Object =
     (case name2Object name of
        None \<Rightarrow> Inl (lit ''NamingContextExtImpl::resolve(\"'' @ name @ lit ''\"): name is not bound to an object'')
      | Some servant \<Rightarrow> Inr servant)"

definition answer_resolve ::
    "host \<Rightarrow> exception_texts \<Rightarrow> (sref \<Rightarrow> skeleton) \<Rightarrow> names \<Rightarrow> bytes \<Rightarrow> giop_encoder \<Rightarrow> error + dispatch_outcome" where
  "answer_resolve h x skels names name e =
     (case naming_resolve name names of
        Inl text \<Rightarrow> Inr (Failed (runtime_error x text) e)
      | Inr result \<Rightarrow>
          (case writeObject h (object_of skels result) e of
             Inl err \<Rightarrow> raise_in x err e
           | Inr e' \<Rightarrow> Inr (Finished e')))"

text \<open>The number of entries and the kind are read and only warned about.\<close>

definition orb_resolve ::
    "host \<Rightarrow> exception_texts \<Rightarrow> (sref \<Rightarrow> skeleton) \<Rightarrow> names \<Rightarrow> giop_decoder \<Rightarrow> giop_encoder \<Rightarrow> error + dispatch_outcome" where
  "orb_resolve h x skels names decoder e =
     (case rd_bind (cdr (readUlong h)) (\<lambda>entries.
           rd_bind (cdr (readString h)) (\<lambda>name.
           rd_bind (cdr (readString h)) (\<lambda>key. rd_return name))) decoder of
        Inl err \<Rightarrow> raise_in x err e
      | Inr (name, _) \<Rightarrow> answer_resolve h x skels names name e)"

definition orb_resolve_str ::
    "host \<Rightarrow> exception_texts \<Rightarrow> (sref \<Rightarrow> skeleton) \<Rightarrow> names \<Rightarrow> giop_decoder \<Rightarrow> giop_encoder \<Rightarrow> error + dispatch_outcome" where
  "orb_resolve_str h x skels names decoder e =
     (case cdr (readString h) decoder of
        Inl err \<Rightarrow> raise_in x err e
      | Inr (name, _) \<Rightarrow> answer_resolve h x skels names name e)"

definition naming_dispatch ::
    "host \<Rightarrow> exception_texts \<Rightarrow> (sref \<Rightarrow> skeleton) \<Rightarrow> names \<Rightarrow> bytes \<Rightarrow> giop_decoder \<Rightarrow> giop_encoder \<Rightarrow>
     error + dispatch_outcome" where
  "naming_dispatch h x skels names operation decoder e =
     (if operation = lit ''resolve'' then orb_resolve h x skels names decoder e
      else if operation = lit ''resolve_str'' then orb_resolve_str h x skels names decoder e
      else Inr (Failed (runtime_error x (lit ''bad operation: '' @ [0x27] @ operation @ [0x27] @ lit '' does not exist'')) e))"

definition naming_rid :: bytes where
  "naming_rid = lit ''IDL:omg.org/CosNaming/NamingContext:1.0''"

section \<open>The stub\<close>

text \<open>What \<open>NamingContextExtStub::resolve_str\<close> gives to \<open>twowayCall\<close>: how to write and to read.\<close>

definition resolve_str_encode :: "host \<Rightarrow> bytes \<Rightarrow> giop_encoder writer" where
  "resolve_str_encode h name = wr_ok (on_buf (writeString h name))"

definition resolve_str_decode :: "host \<Rightarrow> ior giop_reader" where
  "resolve_str_decode h = readReference h"

end
