(* ===== verification/ORB.thy ===== *)
theory ORB
  imports Naming
begin

text \<open>
  The object request broker (src/corba/orb.cc, src/corba/orb.hh): servants and their keys,
  calls of stubs, and what is done with a message that has been received.
\<close>

section \<open>State\<close>

text \<open>
  \<open>skels\<close> and \<open>contexts\<close> are the objects in memory: every servant, and the tables of those that
  are a \<open>NamingContextExtImpl\<close>.
\<close>

record orb =
  skels :: "sref \<Rightarrow> skeleton"
  contexts :: "sref \<Rightarrow> names option"
  servants :: "bytes \<Rightarrow> sref option"
  servantIdCounter :: u64
  namingService :: "sref option"

text \<open>
  The code the ORB calls: the servants of the application, with the state they share, and the
  names and texts of C++ exceptions.
\<close>

record 'u environment =
  dispatch :: "sref \<Rightarrow> bytes \<Rightarrow> giop_decoder \<Rightarrow> giop_encoder \<Rightarrow> 'u \<Rightarrow> dispatch_outcome \<times> 'u"
  texts :: exception_texts

text \<open>
  What the ORB causes: \<open>Send\<close> gives octets to the connection the message came from; \<open>Resume\<close>
  continues the call suspended under a request id with the decoder of its reply; \<open>Awaiting\<close>:
  a servant has suspended, and its continuation holds the request id and whether a response is
  expected.
\<close>

datatype effect =
    Send bytes
  | Resume u32 giop_decoder
  | Awaiting u32 bool

section \<open>Activation\<close>

text \<open>
  \<open>emplace\<close> leaves the map alone where the key is taken; either way the servant is given the
  key.
\<close>

definition activate_object_with_id :: "bytes \<Rightarrow> sref \<Rightarrow> orb \<Rightarrow> orb" where
  "activate_object_with_id key servant o1 =
     (let o2 = o1\<lparr>skels := (skels o1)(servant := (skels o1 servant)\<lparr>sk_orb := True\<rparr>)\<rparr>;
          o3 = (if key \<in> dom (servants o2) then o2 else o2\<lparr>servants := (servants o2)(key \<mapsto> servant)\<rparr>)
      in o3\<lparr>skels := (skels o3)(servant := (skels o3 servant)\<lparr>sk_key := key\<rparr>)\<rparr>)"

definition generated_key :: "u64 \<Rightarrow> bytes" where
  "generated_key n = lit ''OID:'' @ show_hex (unat n)"

definition activate_object :: "sref \<Rightarrow> orb \<Rightarrow> orb" where
  "activate_object servant o1 =
     (let n = servantIdCounter o1 + 1
      in activate_object_with_id (generated_key n) servant (o1\<lparr>servantIdCounter := n\<rparr>))"

text \<open>\<open>ns\<close> is the address \<open>make_shared<NamingContextExtImpl>\<close> returns, if it is called.\<close>

definition make_naming :: "sref \<Rightarrow> orb \<Rightarrow> orb" where
  "make_naming ns o1 =
     (case namingService o1 of
        Some _ \<Rightarrow> o1
      | None \<Rightarrow>
          activate_object_with_id (lit ''NameService'') ns
            (o1\<lparr>skels := (skels o1)(ns := \<lparr>sk_orb = False, sk_key = [], sk_rid = naming_rid\<rparr>),
               contexts := (contexts o1)(ns \<mapsto> Map.empty),
               namingService := Some ns\<rparr>))"

text \<open>The first component is the text of the exception, where \<open>bind\<close> of the name service throws.\<close>

definition orb_bind :: "sref \<Rightarrow> bytes \<Rightarrow> sref \<Rightarrow> orb \<Rightarrow> bytes option \<times> orb" where
  "orb_bind ns name obj o1 =
     (let o2 = (if sk_orb (skels o1 obj) then o1 else activate_object obj o1);
          o3 = make_naming ns o2
      in case namingService o3 of
           None \<Rightarrow> (None, o3)
         | Some s \<Rightarrow>
             (case naming_bind name (ServantRef obj) (case contexts o3 s of None \<Rightarrow> Map.empty | Some t \<Rightarrow> t) of
                Inl text \<Rightarrow> (Some text, o3)
              | Inr t \<Rightarrow> (None, o3\<lparr>contexts := (contexts o3)(s \<mapsto> t)\<rparr>)))"

section \<open>Calls\<close>

record stub =
  stub_key :: bytes
  stub_conn :: "connection option"

text \<open>
  The first half of \<open>_twowayCall\<close> and of \<open>onewayCall\<close>: take a request id, encode, hand over
  the octets; and the connection afterwards.
\<close>

definition call_request ::
    "host \<Rightarrow> string \<Rightarrow> stub \<Rightarrow> bytes \<Rightarrow> bool \<Rightarrow> giop_encoder writer \<Rightarrow>
     error + u32 \<times> bytes \<times> connection option" where
  "call_request h no_connection st operation responseExpected encode =
     (case stub_conn st of
        None \<Rightarrow> Inl (RuntimeError no_connection)
      | Some c \<Rightarrow>
          (let rid = requestId c; c1 = c\<lparr>requestId := requestId c + 2\<rparr>
           in case request_octets h (stub_key st) operation rid responseExpected encode
                     (giop_enc_init (Some c1)) of
                Inl err \<Rightarrow> Inl err
              | Inr (msg, c2) \<Rightarrow> Inr (rid, msg, c2)))"

definition twowayCall ::
    "host \<Rightarrow> stub \<Rightarrow> bytes \<Rightarrow> giop_encoder writer \<Rightarrow> error + u32 \<times> bytes \<times> connection option" where
  "twowayCall h st operation encode =
     call_request h ''ORB::_twowayCall(): the stub has no connection'' st operation True encode"

definition onewayCall ::
    "host \<Rightarrow> stub \<Rightarrow> bytes \<Rightarrow> giop_encoder writer \<Rightarrow> error + u32 \<times> bytes \<times> connection option" where
  "onewayCall h st operation encode =
     call_request h ''ORB::onewayCall(): the stub has no connection'' st operation False encode"

text \<open>
  The template \<open>twowayCall<T>\<close> decodes the result when the call returns; the left side is what
  is thrown instead.
\<close>

definition twoway_value ::
    "host \<Rightarrow> connection \<Rightarrow> 'a giop_reader \<Rightarrow> giop_decoder \<Rightarrow> error + call_result + 'a" where
  "twoway_value h c decode d =
     (case twoway_result h c d of
        Inl err \<Rightarrow> Inl err
      | Inr (Returned d') \<Rightarrow>
          (case decode d' of Inl err \<Rightarrow> Inl err | Inr (v, _) \<Rightarrow> Inr (Inr v))
      | Inr r \<Rightarrow> Inr (Inl r))"

section \<open>When a servant has finished\<close>

definition servant_returned :: "host \<Rightarrow> bool \<Rightarrow> u32 \<Rightarrow> giop_encoder \<Rightarrow> effect list" where
  "servant_returned h responseExpected rid e =
     (if responseExpected then [Send (finish_reply h rid NO_EXCEPTION e)] else [])"

definition servant_threw :: "host \<Rightarrow> bool \<Rightarrow> u32 \<Rightarrow> thrown \<Rightarrow> giop_encoder \<Rightarrow> effect list" where
  "servant_threw h responseExpected rid ex e =
     (case ex of
        UserException \<Rightarrow>
          if responseExpected then [Send (finish_reply h rid USER_EXCEPTION e)] else []
      | SystemException s \<Rightarrow>
          if responseExpected
          then [Send (finish_reply h rid SYSTEM_EXCEPTION (on_buf (write_system_exception h s) e))] else []
      | StdException ty what \<Rightarrow>
          if responseExpected
          then [Send (finish_reply h rid SYSTEM_EXCEPTION (on_buf (write_generic_exception h ty what) e))]
          else []
      | OtherException \<Rightarrow> [])"

text \<open>
  The continuations of a servant that has suspended run after \<open>socketRcvd\<close> has returned. The
  one for success holds copies; the one for exceptions holds references to the locals.
\<close>

definition resumed_returned :: "host \<Rightarrow> bool \<Rightarrow> u32 \<Rightarrow> giop_encoder \<Rightarrow> error + effect list" where
  "resumed_returned h responseExpected rid e = Inr (servant_returned h responseExpected rid e)"

definition resumed_threw :: "thrown \<Rightarrow> error + effect list" where
  "resumed_threw ex = (if ex = OtherException then Inr [] else Inl DanglingReference)"

section \<open>Messages received\<close>

definition unknown_object_reply :: "host \<Rightarrow> u32 \<Rightarrow> giop_encoder \<Rightarrow> bytes" where
  "unknown_object_reply h rid e =
     finish_reply h rid SYSTEM_EXCEPTION
       (on_buf (\<lambda>b. writeUlong h (completion_code NO)
          (writeUlong h 0x4f4d0001 (writeCString h (lit ''IDL:omg.org/CORBA/OBJECT_NOT_EXIST:1.0'') b))) e)"

definition dispatch_servant ::
    "host \<Rightarrow> 'u environment \<Rightarrow> orb \<Rightarrow> sref \<Rightarrow> bytes \<Rightarrow> giop_decoder \<Rightarrow> giop_encoder \<Rightarrow> 'u \<Rightarrow>
     error + dispatch_outcome \<times> 'u" where
  "dispatch_servant h env o1 s operation g e u =
     (case contexts o1 s of
        None \<Rightarrow> Inr (dispatch env s operation g e u)
      | Some names \<Rightarrow>
          (case naming_dispatch h (texts env) (skels o1) names operation g e of
             Inl err \<Rightarrow> Inl err
           | Inr out \<Rightarrow> Inr (out, u)))"

definition after_dispatch :: "host \<Rightarrow> RequestHeader \<Rightarrow> dispatch_outcome \<Rightarrow> effect list" where
  "after_dispatch h rq out =
     (case out of
        Finished e \<Rightarrow> servant_returned h (rq_responseExpected rq) (rq_requestId rq) e
      | Failed ex e \<Rightarrow> servant_threw h (rq_responseExpected rq) (rq_requestId rq) ex e
      | Suspended \<Rightarrow> [Awaiting (rq_requestId rq) (rq_responseExpected rq)]
      | Escaped \<Rightarrow> [])"

definition handle_request ::
    "host \<Rightarrow> 'u environment \<Rightarrow> orb \<Rightarrow> RequestHeader \<Rightarrow> giop_decoder \<Rightarrow> 'u \<Rightarrow> error + effect list \<times> 'u" where
  "handle_request h env o1 rq g u =
     (let encoder = reply_encoder (dconn g) (dmajor g) (dminor g) in
      case servants o1 (rq_objectKey rq) of
        None \<Rightarrow>
          Inr (if rq_responseExpected rq
               then [Send (unknown_object_reply h (rq_requestId rq) encoder)] else [], u)
      | Some servant \<Rightarrow>
          if rq_operation rq = lit ''_is_a''
          then (case cdr (readStringView h) g of
                  Inl err \<Rightarrow> Inl err
                | Inr (repositoryId, _) \<Rightarrow>
                    Inr ([Send (finish_reply h (rq_requestId rq) NO_EXCEPTION
                           (on_buf (writeBoolean (repositoryId = sk_rid (skels o1 servant))) encoder))], u))
          else (case dispatch_servant h env o1 servant (rq_operation rq) g encoder u of
                  Inl err \<Rightarrow> Inl err
                | Inr (out, u') \<Rightarrow> Inr (after_dispatch h rq out, u')))"

definition locate_reply :: "host \<Rightarrow> orb \<Rightarrow> LocateRequest \<Rightarrow> giop_decoder \<Rightarrow> bytes" where
  "locate_reply h o1 lr g =
     (let encoder = (giop_enc_init (dconn g))\<lparr>emajor := dmajor g, eminor := dminor g\<rparr>;
          status = (if lr_objectKey lr \<in> dom (servants o1) then OBJECT_HERE else UNKNOWN_OBJECT)
      in edata (ebuf (setGIOPHeader h LOCATE_REPLY (encodeLocateReply h (lr_requestId lr) status encoder))))"

text \<open>
  \<open>socketRcvd\<close>; \<open>waiting\<close> tells for which request ids a call is suspended in the interlock of
  the connection, \<open>any\<close> what the memory of the decoder holds. The result is the connection, what
  is to be done, and the state of the servants.
\<close>

definition socketRcvd ::
    "host \<Rightarrow> 'u environment \<Rightarrow> giop_decoder \<Rightarrow> orb \<Rightarrow> (u32 \<Rightarrow> bool) \<Rightarrow> connection \<Rightarrow> bytes \<Rightarrow> 'u \<Rightarrow>
     error + connection option \<times> effect list \<times> 'u" where
  "socketRcvd h env any o1 waiting c buffer u =
     (if buffer = [] then Inr (Some c, [], u)
      else case scanGIOPHeader h (giop_dec_init any (Some c) (dec_init buffer Endian_0)) of
        Inl err \<Rightarrow> Inl err
      | Inr (type, g) \<Rightarrow>
          (case type of
             REQUEST \<Rightarrow>
               (case scanRequestHeader h g of
                  Inl err \<Rightarrow> Inl err
                | Inr (rq, g') \<Rightarrow>
                    (case handle_request h env o1 rq g' u of
                       Inl err \<Rightarrow> Inl err
                     | Inr (fx, u') \<Rightarrow> Inr (dconn g', fx, u')))
           | REPLY \<Rightarrow>
               (case scanReplyHeader h g of
                  Inl err \<Rightarrow> Inl err
                | Inr (rp, g') \<Rightarrow>
                    Inr (dconn g', if waiting (rp_requestId rp) then [Resume (rp_requestId rp) g'] else [], u))
           | LOCATE_REQUEST \<Rightarrow>
               (case scanLocateRequest h g of
                  Inl err \<Rightarrow> Inl err
                | Inr (lr, g') \<Rightarrow> Inr (dconn g', [Send (locate_reply h o1 lr g')], u))
           | _ \<Rightarrow> Inr (Some c, [], u)))"

end
