(* ===== verification/IOR.thy ===== *)
theory IOR
  imports GIOP_Messages Text
begin

text \<open>
  Stringified object references (src/corba/ior.cc): the constructor \<open>IOR::IOR(const string&)\<close>.
\<close>

definition blanks :: bytes where
  "blanks = [0x20, 0x0a, 0x0d, 0x09]"

definition trim :: "bytes \<Rightarrow> bytes" where
  "trim source = rev (dropWhile (\<lambda>c. c \<in> set blanks) (rev (dropWhile (\<lambda>c. c \<in> set blanks) source)))"

text \<open>
  The loop that fills the buffer. A pair without a leading hex digit copies an octet that was
  never given a value.
\<close>

fun decode_hex :: "bytes \<Rightarrow> error + bytes" where
  "decode_hex (a # b # cs) =
     (case from_chars_hex2 a b of
        None \<Rightarrow> Inl Uninitialised
      | Some out \<Rightarrow> (case decode_hex cs of Inl err \<Rightarrow> Inl err | Inr bs \<Rightarrow> Inr (out # bs)))"
| "decode_hex _ = Inr []"

definition ior_of_string :: "host \<Rightarrow> bytes \<Rightarrow> error + ior" where
  "ior_of_string h source =
     (let s = trim source in
      if take 4 s \<noteq> lit ''IOR:'' then Inl (RuntimeError ''Missing \"IOR:\" prefix in \"{}\".'')
      else if odd (length s) then Inl (RuntimeError ''IOR has a wrong length.'')
      else case decode_hex (drop 4 s) of
             Inl err \<Rightarrow> Inl err
           | Inr buffer \<Rightarrow>
               (case rd_bind (cdr readEndian) (\<lambda>_. readReference h)
                       (giop_dec_init sample_decoder None (dec_init buffer Endian_0)) of
                  Inl err \<Rightarrow> Inl err
                | Inr (ref, _) \<Rightarrow> Inr ref))"

section \<open>Reading back what a server prints\<close>

lemma decode_show_blob [simp]: "decode_hex (show_blob bs) = Inr bs"
  by (induction bs) (simp_all add: show_blob_def)

lemma even_show_blob [simp]: "even (length (show_blob bs))"
  by (induction bs) (simp_all add: show_blob_def)

lemma dropWhile_blanks:
  "set ws \<subseteq> set blanks \<Longrightarrow> dropWhile (\<lambda>c. c \<in> set blanks) (ws @ s) = dropWhile (\<lambda>c. c \<in> set blanks) s"
  by (rule dropWhile_append2) auto

lemma hex_digit_not_blank: "d < 16 \<Longrightarrow> hex_digit d \<notin> set blanks"
proof
  assume "d < 16" "hex_digit d \<in> set blanks"
  then have "unat (hex_digit d) \<in> {0x20, 0x0a, 0x0d, 0x09}" by (auto simp: blanks_def)
  then show False using \<open>d < 16\<close> by (auto simp: unat_hex_digit split: if_splits)
qed

lemma trim_frame:
  assumes "set ws \<subseteq> set blanks" and "set ws' \<subseteq> set blanks"
    and "s \<noteq> []" and "hd s \<notin> set blanks" and "last s \<notin> set blanks"
  shows "trim (ws @ s @ ws') = s"
proof -
  have 1: "dropWhile (\<lambda>c. c \<in> set blanks) (ws @ s @ ws') = s @ ws'"
    using assms by (cases s) (simp_all add: dropWhile_blanks)
  have 2: "dropWhile (\<lambda>c. c \<in> set blanks) (rev ws' @ rev s) = rev s"
    using assms by (cases "rev s") (simp_all add: dropWhile_blanks last_rev)
  show ?thesis by (simp add: trim_def 1 2)
qed

lemma trim_ior:
  assumes "set ws \<subseteq> set blanks" and "set ws' \<subseteq> set blanks"
  shows "trim (ws @ (lit ''IOR:'' @ show_blob bs) @ ws') = lit ''IOR:'' @ show_blob bs"
proof (rule trim_frame [OF assms])
  show "hd (lit ''IOR:'' @ show_blob bs) \<notin> set blanks" by (simp add: blanks_def)
  show "last (lit ''IOR:'' @ show_blob bs) \<notin> set blanks"
  proof (cases "bs = []")
    case True
    then show ?thesis by (simp add: show_blob_def blanks_def)
  next
    case False
    then have "show_blob bs = show_blob (butlast bs) @
        [hex_digit (unat (last bs) div 16), hex_digit (unat (last bs) mod 16)]"
      by (metis (no_types, lifting) append_butlast_last_id concat.simps(1,2) concat_append list.simps(8,9)
          map_append self_append_conv show_blob_def)
    then show ?thesis using hex_digit_not_blank [of "unat (last bs) mod 16"] by simp
  qed
qed simp

lemma ior_of_hex:
  assumes "set ws \<subseteq> set blanks" and "set ws' \<subseteq> set blanks"
  shows "ior_of_string h (ws @ (lit ''IOR:'' @ show_blob bs) @ ws') =
    (case rd_bind (cdr readEndian) (\<lambda>_. readReference h)
            (giop_dec_init sample_decoder None (dec_init bs Endian_0)) of
       Inl err \<Rightarrow> Inl err | Inr (ref, _) \<Rightarrow> Inr ref)"
  unfolding ior_of_string_def trim_ior [OF assms] Let_def by simp

lemma readEndian_at:
  assumes "en \<noteq> Endian_0" and "at d (endian_octet en # r)"
  shows "readEndian d = Inr ((), (advance 1 d)\<lparr>dendian := en\<rparr>)"
  using readOctet_at [OF assms(2)] assms(1)
  by (cases en) (simp_all add: readEndian_def rd_bind_def setLittleEndian_def endian_octet_def)

text \<open>A stringified reference: the byte order octet and the reference as a server marshals
  them, printed in hexadecimal behind \<open>IOR:\<close> with any blanks around, give back the repository
  id, the address and the object key on a host of either byte order.\<close>

theorem ior_string_roundtrip:
  assumes "reach stub c = Some a" and "referable className a key"
    and "set ws \<subseteq> set blanks" and "set ws' \<subseteq> set blanks"
  shows "\<exists>e. writeReference h className key stub (on_buf (writeEndian h) (giop_enc_init (Some c))) = Inr e \<and>
    ior_of_string h' (ws @ (lit ''IOR:'' @ show_blob (edata (reserve_all (ebuf e)))) @ ws') =
      Inr \<lparr>oid = className, ior_host = host a, ior_port = port a, objectKey = key\<rparr>"
proof -
  let ?e0 = "on_buf (writeEndian h) (giop_enc_init (Some c))"
  let ?ref = "cdr_reference (native h) 1 2 className a key"
  have e0: "append_mode (ebuf ?e0)" "stream (ebuf ?e0) = [endian_octet (native h)]" "eoffset (ebuf ?e0) = 1"
    using emitsD [OF emits_endian [of h], of enc_init]
    by (simp_all add: on_buf_def giop_enc_init_def) (simp_all add: enc_init_def)
  have "enc_is 1 2 (Some c) ?e0" by (simp add: enc_is_def on_buf_def giop_enc_init_def)
  from gemitsE [OF gemits_reference [OF assms(1)] this e0(1), of h className key]
  obtain b where b: "writeReference h className key stub ?e0 = Inr (?e0\<lparr>ebuf := b\<rparr>)" "append_mode b"
    "stream b = [endian_octet (native h)] @ ?ref 1"
    using e0(2,3) by metis
  let ?g = "giop_dec_init sample_decoder None (dec_init (stream b) Endian_0)"
  let ?d = "\<lparr>ddata = stream b, m_offset = 1, dendian = native h\<rparr>"
  have "at (dbuf ?g) (endian_octet (native h) # ?ref 1)"
    by (simp add: giop_dec_init_def dec_init_def at_def b(3))
  from readEndian_at [OF _ this]
  have 1: "cdr readEndian ?g = Inr ((), ?g\<lparr>dbuf := ?d\<rparr>)"
    by (simp add: cdr_def giop_dec_init_def dec_init_def advance_def)
  have "at ?d (?ref 1)" by (simp add: at_def b(3))
  then have "readReference h' (?g\<lparr>dbuf := ?d\<rparr>) =
      Inr (\<lparr>oid = className, ior_host = host a, ior_port = port a, objectKey = key\<rparr>,
        ?g\<lparr>dbuf := advance (length (?ref 1)) ?d\<rparr>)"
    using gparsesD [OF gparses_readReference [OF native_not_0 _ assms(2), of "\<lambda>_. True" h h' 1 2], of "?g\<lparr>dbuf := ?d\<rparr>"]
    by (simp add: dbuf_free_def)
  with 1 have "ior_of_string h' (ws @ (lit ''IOR:'' @ show_blob (stream b)) @ ws') =
      Inr \<lparr>oid = className, ior_host = host a, ior_port = port a, objectKey = key\<rparr>"
    unfolding ior_of_hex [OF assms(3,4)] by (simp add: rd_bind_def)
  then show ?thesis
    using b(1) by (intro exI [of _ "?e0\<lparr>ebuf := b\<rparr>"]) (simp add: edata_reserve_all [OF b(2)])
qed

theorem ior_string_roundtrip_witness:
  "\<exists>e. writeReference BE (lit ''IDL:A:1.0'') [1, 2] False
      (on_buf (writeEndian BE) (giop_enc_init (Some sample_connection))) = Inr e \<and>
    ior_of_string LE ([0x20] @ (lit ''IOR:'' @ show_blob (edata (reserve_all (ebuf e)))) @ [0x0a]) =
      Inr \<lparr>oid = lit ''IDL:A:1.0'', ior_host = lit ''backend'', ior_port = 2809, objectKey = [1, 2]\<rparr>"
  using ior_string_roundtrip [of False sample_connection "\<lparr>host = lit ''backend'', port = 2809\<rparr>"
      "lit ''IDL:A:1.0''" "[1, 2]" "[0x20]" "[0x0a]" BE LE]
  by (simp add: reach_def sample_connection_def conn_init_def referable_def fits_def lit_def blanks_def)

lemma decode_bad_digit: "from_chars_hex2 x y = None \<Longrightarrow> decode_hex (show_blob bs @ [x, y]) = Inl Uninitialised"
  by (induction bs) (simp_all add: show_blob_def)

text \<open>A stringified reference with a character that is no hexadecimal digit is not refused: the
  octet it stands for is copied from a variable that was never set.\<close>

theorem ior_bad_digit:
  assumes "hex_value x = None" and "x \<notin> set blanks" and "y \<notin> set blanks"
  shows "ior_of_string h (lit ''IOR:'' @ show_blob bs @ [x, y]) = Inl Uninitialised"
proof -
  have "trim ([] @ (lit ''IOR:'' @ show_blob bs @ [x, y]) @ []) = lit ''IOR:'' @ show_blob bs @ [x, y]"
    by (rule trim_frame) (use assms in \<open>simp_all add: blanks_def\<close>)
  then have "trim (lit ''IOR:'' @ show_blob bs @ [x, y]) = lit ''IOR:'' @ show_blob bs @ [x, y]"
    by (simp only: append_Nil append_Nil2 append_assoc)
  then show ?thesis
    unfolding ior_of_string_def Let_def using decode_bad_digit [of x y bs] assms(1)
    by (simp add: from_chars_hex2_def)
qed

theorem ior_bad_digit_witness: "ior_of_string LE (lit ''IOR:'' @ show_blob [0, 1] @ [0x7a, 0x30]) = Inl Uninitialised"
  by (rule ior_bad_digit) (simp_all add: hex_value_def is_digit_def blanks_def)

end
