(* ===== verification/URL.thy ===== *)
theory URL
  imports IOR
begin

text \<open>
  Object URLs (src/corba/url.hh, src/corba/url.cc): \<open>corbaloc:\<close> and \<open>corbaname:\<close>, the
  lexer, the recursive descent parser with its backtracking, and the printer.
\<close>

section \<open>Addresses\<close>

record ObjectAddress =
  proto :: bytes
  amajor :: byte
  aminor :: byte
  ahost :: bytes
  aport :: u16

definition address_init :: ObjectAddress where
  "address_init = \<lparr>proto = lit ''iiop'', amajor = 1, aminor = 0, ahost = [], aport = 2809\<rparr>"

record CorbaLocation =
  addr :: "ObjectAddress list"
  locKey :: bytes

record CorbaName = CorbaLocation +
  nname :: bytes

datatype decoded_uri = UriIOR ior | UriLocation CorbaLocation | UriName CorbaName

section \<open>Printing\<close>

definition address_str :: "ObjectAddress \<Rightarrow> bytes" where
  "address_str a =
     (if proto a = lit ''iiop''
      then proto a @ lit '':'' @ show_decimal (unat (amajor a)) @ lit ''.'' @
           show_decimal (unat (aminor a)) @ lit ''@'' @ ahost a @ lit '':'' @ show_decimal (unat (aport a))
      else if proto a = lit ''rir'' then lit ''rir:'' else [])"

definition addresses_str :: "ObjectAddress list \<Rightarrow> bytes" where
  "addresses_str as = foldl (\<lambda>txt a. (if length txt \<noteq> 0 then txt @ lit '','' else txt) @ address_str a) [] as"

definition key_str :: "bytes \<Rightarrow> bytes" where
  "key_str key = (if length key \<noteq> 0 then lit ''/'' @ key else [])"

definition location_str :: "('a) CorbaLocation_scheme \<Rightarrow> bytes" where
  "location_str loc = addresses_str (addr loc) @ key_str (locKey loc)"

definition CorbaLocation_str :: "CorbaLocation \<Rightarrow> bytes" where
  "CorbaLocation_str loc = lit ''corbaloc:'' @ location_str loc"

definition CorbaName_str :: "CorbaName \<Rightarrow> bytes" where
  "CorbaName_str n =
     lit ''corbaname:'' @ location_str n @ (if 0 < length (nname n) then lit ''#'' @ nname n else [])"

section \<open>Lexer\<close>

record url_lexer =
  udata :: bytes
  upos :: nat

type_synonym 'a url_reader = "('a, url_lexer) reader"

text \<open>\<open>data[pos]\<close> is defined up to and including \<open>pos = data.size()\<close>, where it is NUL.\<close>

definition getc :: "byte url_reader" where
  "getc l =
     (if upos l < length (udata l) then Inr (udata l ! upos l, l\<lparr>upos := upos l + 1\<rparr>)
      else if upos l = length (udata l) then Inr (0, l\<lparr>upos := upos l + 1\<rparr>)
      else Inl BadRead)"

definition ungetc :: "url_lexer \<Rightarrow> url_lexer" where
  "ungetc l = l\<lparr>upos := upos l - 1\<rparr>"

definition eof :: "url_lexer \<Rightarrow> bool" where
  "eof l \<longleftrightarrow> length (udata l) \<le> upos l"

definition set_pos :: "nat \<Rightarrow> url_lexer \<Rightarrow> url_lexer" where
  "set_pos p l = l\<lparr>upos := p\<rparr>"

definition match :: "bytes \<Rightarrow> bool url_reader" where
  "match s l =
     (if length (udata l) < upos l + length s then Inr (False, l)
      else if take (length s) (drop (upos l) (udata l)) \<noteq> s then Inr (False, l)
      else Inr (True, l\<lparr>upos := upos l + length s\<rparr>))"

text \<open>\<open>while (p(getc())) {}\<close>: the loop ends because NUL is in none of the classes.\<close>

lemma getc_less: "getc l = Inr (c, l') \<Longrightarrow> c \<noteq> 0 \<Longrightarrow> upos l < length (udata l) \<and> l' = l\<lparr>upos := upos l + 1\<rparr>"
  by (auto simp: getc_def split: if_splits)

function get_while :: "(byte \<Rightarrow> bool) \<Rightarrow> unit url_reader" where
  "get_while p l =
     (case getc l of
        Inl err \<Rightarrow> Inl err
      | Inr (c, l') \<Rightarrow> if c \<noteq> 0 \<and> p c then get_while p l' else Inr ((), l'))"
  by pat_completeness auto

termination get_while
  by (relation "measure (\<lambda>(p, l). length (udata l) - upos l)") (auto dest!: getc_less)

declare get_while.simps [simp del]

text \<open>
  \<open>std::from_chars(\<dots>, out, 10)\<close> leaves \<open>out\<close> alone when the number does not fit, and \<open>out\<close>
  was not initialised.
\<close>

definition number :: "nat option url_reader" where
  "number l =
     (let start = upos l in
      rd_bind (get_while is_digit) (\<lambda>_.
      rd_bind (rd_upd ungetc) (\<lambda>_.
      rd_bind (rd_get upos) (\<lambda>pos.
      if start = pos then rd_return None
      else rd_bind (rd_get udata) (\<lambda>data.
        (let v = read_decimal (take (pos - start) (drop start data))
         in if v < 2 ^ 32 then rd_return (Some v) else rd_throw Uninitialised))))) l)"

text \<open>
  \<open>sscanf(\<dots>, "%x", &ii)\<close> on at most two characters: blanks, a sign, digits. \<open>None\<close> when
  nothing matches; the value is what the conversion to \<open>char\<close> keeps of it.
\<close>

fun hex_prefix :: "bytes \<Rightarrow> bytes" where
  "hex_prefix [] = []"
| "hex_prefix (c # cs) = (if hex_value c = None then [] else c # hex_prefix cs)"

definition scan_unsigned :: "bytes \<Rightarrow> nat option" where
  "scan_unsigned cs =
     (if take 2 cs = lit ''0x'' \<or> take 2 cs = lit ''0X''
      then (if hex_prefix (drop 2 cs) = [] then None else Some (read_hex (hex_prefix (drop 2 cs))))
      else if hex_prefix cs = [] then None else Some (read_hex (hex_prefix cs)))"

definition scan_x :: "bytes \<Rightarrow> byte option" where
  "scan_x cs0 =
     (let cs = dropWhile is_space (takeWhile (\<lambda>c. c \<noteq> 0) cs0) in
      case cs of
        [] \<Rightarrow> None
      | c # r \<Rightarrow>
          if c = 0x2d then map_option (\<lambda>n. - of_nat n) (scan_unsigned r)
          else if c = 0x2b then map_option of_nat (scan_unsigned r)
          else map_option of_nat (scan_unsigned cs))"

text \<open>\<open>_decodeURI\<close>; the first argument is \<open>ii\<close>, which keeps its value between escapes.\<close>

function decode_escapes :: "byte option \<Rightarrow> bytes \<Rightarrow> error + bytes" where
  "decode_escapes ii [] = Inr []"
| "decode_escapes ii (c # cs) =
     (if c = 0x25
      then (let ii' = (case scan_x (take 2 cs) of None \<Rightarrow> ii | Some v \<Rightarrow> Some v) in
            case ii' of
              None \<Rightarrow> Inl Uninitialised
            | Some ch \<Rightarrow>
                (case decode_escapes ii' (drop 2 cs) of
                   Inl err \<Rightarrow> Inl err | Inr bs \<Rightarrow> Inr (ch # bs)))
      else (case decode_escapes ii cs of Inl err \<Rightarrow> Inl err | Inr bs \<Rightarrow> Inr (c # bs)))"
  by pat_completeness auto

termination decode_escapes
  by (relation "measure (\<lambda>(ii, cs). length cs)") auto

definition uri_punctuation :: bytes where
  "uri_punctuation = lit ''%;/:?:@&=+$,-_!~*'' @ [0xe2, 0x80, 0x99] @ lit ''|()''"

text \<open>\<open>strchr\<close> also finds the terminator.\<close>

definition uri_char :: "byte \<Rightarrow> bool" where
  "uri_char c \<longleftrightarrow> is_alnum c \<or> c \<in> set uri_punctuation \<or> c = 0"

function uri_loop :: "url_lexer \<Rightarrow> url_lexer" where
  "uri_loop l =
     (if eof l then l
      else (let c = udata l ! upos l; l' = l\<lparr>upos := upos l + 1\<rparr>
            in if \<not> uri_char c then ungetc l' else uri_loop l'))"
  by pat_completeness auto

termination uri_loop
  by (relation "measure (\<lambda>l. length (udata l) - upos l)") (auto simp: eof_def)

declare uri_loop.simps [simp del]

text \<open>The second argument of \<open>substr\<close> is a length, and the source passes the position.\<close>

definition uri :: "bytes option url_reader" where
  "uri l =
     (let start = upos l; l' = uri_loop l in
      if upos l' = start then Inr (None, l')
      else case decode_escapes None (take (upos l') (drop start (udata l'))) of
             Inl err \<Rightarrow> Inl err
           | Inr s \<Rightarrow> Inr (Some s, l'))"

section \<open>How the lexer moves\<close>

text \<open>
  \<open>moves m\<close>: whatever \<open>m\<close> returns, the text is the same, the position has not gone back, and
  a position inside the text is still inside.
\<close>

definition moves :: "'a url_reader \<Rightarrow> bool" where
  "moves m \<longleftrightarrow>
     (\<forall>l v l'. m l = Inr (v, l') \<longrightarrow> udata l' = udata l \<and> upos l \<le> upos l' \<and>
        (upos l \<le> length (udata l) \<longrightarrow> upos l' \<le> length (udata l)))"

lemma movesD:
  assumes "moves m" and "m l = Inr (v, l')"
  shows "udata l' = udata l" and "upos l \<le> upos l'"
    and "upos l \<le> length (udata l) \<Longrightarrow> upos l' \<le> length (udata l)"
  using assms by (auto simp: moves_def)

lemma moves_bind:
  assumes "moves m" and "\<And>v. moves (k v)"
  shows "moves (rd_bind m k)"
  unfolding moves_def
proof (intro allI impI)
  fix l w l''
  assume "rd_bind m k l = Inr (w, l'')"
  then obtain v l' where "m l = Inr (v, l')" "k v l' = Inr (w, l'')" by (auto simp: rd_bind_eq_Inr)
  from movesD [OF assms(1) this(1)] movesD [OF assms(2) this(2)]
  show "udata l'' = udata l \<and> upos l \<le> upos l'' \<and> (upos l \<le> length (udata l) \<longrightarrow> upos l'' \<le> length (udata l))"
    by simp
qed

lemma moves_simple [simp]:
  "moves (rd_return v)" "moves (rd_throw err)" "moves (rd_get f)"
  by (simp_all add: moves_def)

lemma moves_match [simp]: "moves (match s)"
  by (auto simp: moves_def match_def split: if_splits)

lemma moves_if: "(b \<Longrightarrow> moves m) \<Longrightarrow> (\<not> b \<Longrightarrow> moves k) \<Longrightarrow> moves (if b then m else k)"
  by simp

text \<open>A scanning loop and the \<open>ungetc\<close> behind it.\<close>

lemma get_while_ungetc:
  "get_while p l = Inr ((), l1) \<Longrightarrow> upos l \<le> length (udata l) \<Longrightarrow>
   ungetc l1 = l\<lparr>upos := upos l + length (takeWhile (\<lambda>c. c \<noteq> 0 \<and> p c) (drop (upos l) (udata l)))\<rparr>"
proof (induction p l arbitrary: l1 rule: get_while.induct)
  case (1 p l)
  show ?case
  proof (cases "upos l < length (udata l)")
    case True
    let ?c = "udata l ! upos l" and ?l1 = "l\<lparr>upos := upos l + 1\<rparr>"
    have g: "getc l = Inr (?c, ?l1)" using True by (simp add: getc_def)
    have d: "drop (upos l) (udata l) = ?c # drop (upos l + 1) (udata l)"
      using True by (simp add: Cons_nth_drop_Suc)
    show ?thesis
    proof (cases "?c \<noteq> 0 \<and> p ?c")
      case pc: True
      then have "get_while p ?l1 = Inr ((), l1)" using "1.prems"(1) g by (simp add: get_while.simps [of p l])
      from "1.IH" [OF g _ _ this] pc True show ?thesis by (simp add: d)
    next
      case False
      then have "l1 = ?l1" using "1.prems"(1) g
        by (auto simp: get_while.simps [of p l] split: if_splits)
      then show ?thesis using False by (auto simp: d ungetc_def)
    qed
  next
    case False
    then have "getc l = Inr (0, l\<lparr>upos := upos l + 1\<rparr>)" using "1.prems"(2) by (simp add: getc_def)
    then have "l1 = l\<lparr>upos := upos l + 1\<rparr>" using "1.prems"(1) by (simp add: get_while.simps [of p l])
    then show ?thesis using False "1.prems"(2) by (simp add: ungetc_def)
  qed
qed

lemma get_while_total: "upos l \<le> length (udata l) \<Longrightarrow> \<exists>l1. get_while p l = Inr ((), l1)"
proof (induction p l rule: get_while.induct)
  case (1 p l)
  then show ?case
    by (subst get_while.simps) (auto simp: getc_def split: if_splits)
qed

lemma get_while_less: "get_while p l = Inr (u, l1) \<Longrightarrow> upos l \<le> length (udata l)"
  by (subst (asm) get_while.simps) (auto simp: getc_def split: if_splits)

text \<open>What a class of characters covers from the position on.\<close>

definition span :: "(byte \<Rightarrow> bool) \<Rightarrow> url_lexer \<Rightarrow> bytes" where
  "span p l = takeWhile (\<lambda>c. c \<noteq> 0 \<and> p c) (drop (upos l) (udata l))"

lemma length_span: "upos l \<le> length (udata l) \<Longrightarrow> upos l + length (span p l) \<le> length (udata l)"
  using length_takeWhile_le [of "\<lambda>c. c \<noteq> 0 \<and> p c" "drop (upos l) (udata l)"] by (simp add: span_def)

lemma scan_span:
  assumes "upos l \<le> length (udata l)"
  shows "rd_bind (get_while p) (\<lambda>_. rd_bind (rd_upd ungetc) k) l =
    k () (l\<lparr>upos := upos l + length (span p l)\<rparr>)"
proof -
  obtain l1 where "get_while p l = Inr ((), l1)" using get_while_total [OF assms] by blast
  then show ?thesis using get_while_ungetc [OF _ assms] by (simp add: rd_bind_def span_def)
qed

lemma scan_outside:
  assumes "\<not> upos l \<le> length (udata l)"
  shows "rd_bind (get_while p) k l = Inl BadRead"
  using assms by (simp add: rd_bind_def get_while.simps [of p l] getc_def)

lemma number_eq:
  assumes "upos l \<le> length (udata l)"
  shows "number l =
    (if span is_digit l = [] then Inr (None, l)
     else if read_decimal (span is_digit l) < 2 ^ 32
     then Inr (Some (read_decimal (span is_digit l)), l\<lparr>upos := upos l + length (span is_digit l)\<rparr>)
     else Inl Uninitialised)"
proof -
  have "take (length (span is_digit l)) (drop (upos l) (udata l)) = span is_digit l"
    by (simp add: span_def takeWhile_eq_take [symmetric] flip: takeWhile_eq_take)
  then show ?thesis
    unfolding number_def Let_def scan_span [OF assms] by (simp add: rd_bind_def)
qed

lemma moves_number [simp]: "moves number"
  unfolding moves_def
proof (intro allI impI)
  fix l v l'
  assume n: "number l = Inr (v, l')"
  show "udata l' = udata l \<and> upos l \<le> upos l' \<and> (upos l \<le> length (udata l) \<longrightarrow> upos l' \<le> length (udata l))"
  proof (cases "upos l \<le> length (udata l)")
    case True
    then show ?thesis
      using n length_span [OF True, of is_digit] unfolding number_eq [OF True] by (auto split: if_splits)
  next
    case False
    then show ?thesis using n by (simp add: number_def Let_def scan_outside)
  qed
qed

section \<open>Parser\<close>

definition label :: "unit url_reader" where
  "label =
     rd_bind getc (\<lambda>c.
     if \<not> is_alnum c then rd_upd ungetc
     else rd_bind (get_while (\<lambda>c. is_alnum c \<or> c = 0x2d)) (\<lambda>_. rd_upd ungetc))"

lemma moves_label [simp]: "moves label"
  unfolding moves_def
proof (intro allI impI)
  fix l v l'
  assume lab: "label l = Inr (v, l')"
  obtain c l1 where g: "getc l = Inr (c, l1)" and le: "upos l \<le> length (udata l)"
    "l1 = l\<lparr>upos := upos l + 1\<rparr>"
    using lab by (auto simp: label_def rd_bind_def getc_def split: if_splits)
  show "udata l' = udata l \<and> upos l \<le> upos l' \<and> (upos l \<le> length (udata l) \<longrightarrow> upos l' \<le> length (udata l))"
  proof (cases "is_alnum c")
    case True
    then have "c \<noteq> 0" by (auto simp: is_alnum_def is_digit_def)
    then have "upos l < length (udata l)" using getc_less [OF g] by simp
    then have "upos l1 \<le> length (udata l1)" using le by simp
    moreover from this have "v = () \<and> l' = l1\<lparr>upos := upos l1 + length (span (\<lambda>c. is_alnum c \<or> c = 0x2d) l1)\<rparr>"
      using lab g True scan_span [of l1 "\<lambda>c. is_alnum c \<or> c = 0x2d" "\<lambda>_. rd_return ()"]
      by (auto simp: label_def rd_bind_def split: sum.splits)
    ultimately show ?thesis using le length_span [of l1 "\<lambda>c. is_alnum c \<or> c = 0x2d"] by simp
  next
    case False
    then show ?thesis using lab g le by (auto simp: label_def rd_bind_def ungetc_def)
  qed
qed

lemma match_True: "match s l = Inr (True, l') \<Longrightarrow> upos l' = upos l + length s \<and> upos l' \<le> length (udata l) \<and> udata l' = udata l"
  by (auto simp: match_def split: if_splits)

text \<open>\<open>do { label(addr); } while (url.match("."));\<close>\<close>

function labels :: "unit url_reader" where
  "labels l =
     (case label l of
        Inl err \<Rightarrow> Inl err
      | Inr (_, l1) \<Rightarrow>
          (case match (lit ''.'') l1 of
             Inl err \<Rightarrow> Inl err
           | Inr (b, l2) \<Rightarrow> if b then labels l2 else Inr ((), l2)))"
  by pat_completeness auto

termination labels
proof (relation "measure (\<lambda>l. length (udata l) - upos l)", goal_cases)
  case (2 l p u l1 q b l2)
  then show ?case
    using movesD [OF moves_label, of l u l1] match_True [of "lit ''.''" l1 l2] by fastforce
qed simp

declare labels.simps [simp del]

definition find_char :: "byte \<Rightarrow> nat \<Rightarrow> bytes \<Rightarrow> nat option" where
  "find_char c start data =
     (let n = start + length (takeWhile (\<lambda>x. x \<noteq> c) (drop start data))
      in if n < length data then Some n else None)"

definition parse_host :: "ObjectAddress \<Rightarrow> ObjectAddress url_reader" where
  "parse_host a =
     rd_bind (rd_get upos) (\<lambda>start.
     rd_bind (match (lit ''['')) (\<lambda>bracket.
     if bracket
     then rd_bind (rd_get udata) (\<lambda>data.
            case find_char 0x5d start data of
              None \<Rightarrow> rd_throw (RuntimeError ''missing ] in IPv6 address'')
            | Some e \<Rightarrow>
                rd_bind (rd_upd (set_pos (e + 1))) (\<lambda>_.
                rd_return (a\<lparr>ahost := take (e + 1 - start) (drop start data)\<rparr>)))
     else rd_bind labels (\<lambda>_.
          rd_bind (rd_get upos) (\<lambda>pos.
          if start = pos then rd_return a
          else rd_bind (rd_get udata) (\<lambda>data.
               rd_return (a\<lparr>ahost := take (pos - start) (drop start data)\<rparr>))))))"

text \<open>
  \<open>version\<close> backtracks to where it started unless it has seen all of \<open>major.minor@\<close>; the
  numbers are cut to eight bits.
\<close>

definition parse_version :: "ObjectAddress \<Rightarrow> ObjectAddress url_reader" where
  "parse_version a =
     rd_bind (rd_get upos) (\<lambda>start.
     rd_bind number (\<lambda>major.
     case major of
       None \<Rightarrow> rd_return a
     | Some mj \<Rightarrow>
         rd_bind (match (lit ''.'')) (\<lambda>dot.
         if \<not> dot then rd_bind (rd_upd (set_pos start)) (\<lambda>_. rd_return a)
         else rd_bind number (\<lambda>minor.
         case minor of
           None \<Rightarrow> rd_bind (rd_upd (set_pos start)) (\<lambda>_. rd_return a)
         | Some mn \<Rightarrow>
             rd_bind (match (lit ''@'')) (\<lambda>at.
             if \<not> at then rd_bind (rd_upd (set_pos start)) (\<lambda>_. rd_return a)
             else rd_return (a\<lparr>amajor := of_nat mj, aminor := of_nat mn\<rparr>))))))"

definition parse_port :: "ObjectAddress \<Rightarrow> (bool \<times> ObjectAddress) url_reader" where
  "parse_port a =
     rd_bind number (\<lambda>p.
     case p of None \<Rightarrow> rd_return (False, a) | Some n \<Rightarrow> rd_return (True, a\<lparr>aport := of_nat n\<rparr>))"

definition iiop_addr :: "ObjectAddress \<Rightarrow> (bool \<times> ObjectAddress) url_reader" where
  "iiop_addr a =
     rd_bind (parse_version a) (\<lambda>a.
     rd_bind (parse_host a) (\<lambda>a.
     rd_bind (match (lit '':'')) (\<lambda>colon.
     if colon
     then rd_bind (parse_port a) (\<lambda>(ok, a).
          if \<not> ok then rd_throw (RuntimeError ''missing port number after :'')
          else rd_return (True, a))
     else rd_return (True, a))))"

definition iiop_id :: "bool url_reader" where
  "iiop_id = rd_bind (match (lit ''iiop:'')) (\<lambda>b. if b then rd_return True else match (lit '':''))"

definition iiop_prot_addr :: "ObjectAddress \<Rightarrow> (bool \<times> ObjectAddress) url_reader" where
  "iiop_prot_addr a =
     rd_bind iiop_id (\<lambda>b. if \<not> b then rd_return (False, a) else iiop_addr a)"

definition rir_prot_addr :: "ObjectAddress \<Rightarrow> (bool \<times> ObjectAddress) url_reader" where
  "rir_prot_addr a =
     rd_bind (match (lit ''rir:'')) (\<lambda>b.
     if b then rd_return (True, a\<lparr>proto := lit ''rir''\<rparr>) else rd_return (False, a))"

definition prot_addr :: "ObjectAddress \<Rightarrow> (bool \<times> ObjectAddress) url_reader" where
  "prot_addr a =
     rd_bind (rir_prot_addr a) (\<lambda>(b, a). if b then rd_return (True, a) else iiop_prot_addr a)"

definition obj_addr :: "ObjectAddress \<Rightarrow> (bool \<times> ObjectAddress) url_reader" where
  "obj_addr a = prot_addr a"

section \<open>Backtracking stays inside\<close>

text \<open>\<open>stays p m\<close>: from a position at or behind \<open>p\<close>, \<open>m\<close> does not go back behind \<open>p\<close>.\<close>

definition stays :: "nat \<Rightarrow> 'a url_reader \<Rightarrow> bool" where
  "stays p m \<longleftrightarrow>
     (\<forall>l v l'. p \<le> upos l \<longrightarrow> m l = Inr (v, l') \<longrightarrow> udata l' = udata l \<and> p \<le> upos l' \<and>
        (upos l \<le> length (udata l) \<longrightarrow> upos l' \<le> length (udata l)))"

lemma stays_moves: "moves m \<Longrightarrow> stays p m"
  by (fastforce simp: moves_def stays_def)

lemma stays_set_pos: "stays p (rd_upd (set_pos p))"
  by (simp add: stays_def set_pos_def)

lemma stays_bind:
  assumes "stays p m" and "\<And>v. stays p (k v)"
  shows "stays p (rd_bind m k)"
  unfolding stays_def
proof (intro allI impI)
  fix l w l''
  assume p: "p \<le> upos l" and "rd_bind m k l = Inr (w, l'')"
  then obtain v l' where m: "m l = Inr (v, l')" and k: "k v l' = Inr (w, l'')" by (auto simp: rd_bind_eq_Inr)
  have 1: "udata l' = udata l \<and> p \<le> upos l' \<and> (upos l \<le> length (udata l) \<longrightarrow> upos l' \<le> length (udata l))"
    using assms(1) p m unfolding stays_def by blast
  then have "udata l'' = udata l' \<and> p \<le> upos l'' \<and> (upos l' \<le> length (udata l') \<longrightarrow> upos l'' \<le> length (udata l'))"
    using assms(2) k unfolding stays_def by blast
  with 1 show "udata l'' = udata l \<and> p \<le> upos l'' \<and> (upos l \<le> length (udata l) \<longrightarrow> upos l'' \<le> length (udata l))"
    by simp
qed

lemma moves_from_pos:
  assumes "\<And>p. stays p (k p)"
  shows "moves (rd_bind (rd_get upos) k)"
  unfolding moves_def
proof (intro allI impI)
  fix l v l'
  assume "rd_bind (rd_get upos) k l = Inr (v, l')"
  then show "udata l' = udata l \<and> upos l \<le> upos l' \<and> (upos l \<le> length (udata l) \<longrightarrow> upos l' \<le> length (udata l))"
    using assms [of "upos l", unfolded stays_def, rule_format, OF order_refl, of v l']
    by (simp add: rd_bind_def)
qed

lemma moves_labels [simp]: "moves labels"
  unfolding moves_def
proof (intro allI impI)
  fix l v l'
  assume "labels l = Inr (v, l')"
  then show "udata l' = udata l \<and> upos l \<le> upos l' \<and> (upos l \<le> length (udata l) \<longrightarrow> upos l' \<le> length (udata l))"
  proof (induction l arbitrary: v l' rule: labels.induct)
    case (1 l)
    obtain l1 b l2 where 2: "label l = Inr ((), l1)" "match (lit ''.'') l1 = Inr (b, l2)"
      and 3: "(if b then labels l2 else Inr ((), l2)) = Inr (v, l')"
      using "1.prems" by (subst (asm) labels.simps) (auto split: sum.splits)
    note m = movesD [OF moves_label 2(1)] movesD [OF moves_match 2(2)]
    show ?case
    proof (cases b)
      case True
      then have "labels l2 = Inr (v, l')" using 3 by simp
      from "1.IH" [OF 2(1) refl 2(2) refl True this] m show ?thesis by simp
    next
      case False
      then show ?thesis using 3 m by simp
    qed
  qed
qed

lemma stays_bracket:
  "stays p (rd_bind (rd_get udata) (\<lambda>data.
     case find_char c p data of
       None \<Rightarrow> rd_throw err
     | Some e \<Rightarrow> rd_bind (rd_upd (set_pos (e + 1))) (\<lambda>_. rd_return (f e data))))"
  by (auto simp: stays_def rd_bind_def set_pos_def find_char_def Let_def split: if_splits)

lemma stays_cases:
  "(b \<Longrightarrow> stays p m) \<Longrightarrow> (\<not> b \<Longrightarrow> stays p k) \<Longrightarrow> stays p (if b then m else k)"
  "stays p m \<Longrightarrow> (\<And>x. stays p (f x)) \<Longrightarrow> stays p (case v of None \<Rightarrow> m | Some x \<Rightarrow> f x)"
  by (simp_all split: option.split)

lemma moves_cases:
  "(b \<Longrightarrow> moves m) \<Longrightarrow> (\<not> b \<Longrightarrow> moves k) \<Longrightarrow> moves (if b then m else k)"
  "moves m \<Longrightarrow> (\<And>x. moves (f x)) \<Longrightarrow> moves (case v of None \<Rightarrow> m | Some x \<Rightarrow> f x)"
  "(\<And>x y. moves (g x y)) \<Longrightarrow> moves (case q of (x, y) \<Rightarrow> g x y)"
  by (simp_all split: option.split prod.split)

lemmas stays_intros = stays_bracket stays_bind stays_cases stays_set_pos
  stays_moves [OF moves_number] stays_moves [OF moves_match] stays_moves [OF moves_labels]
  stays_moves [OF moves_simple(1)] stays_moves [OF moves_simple(2)] stays_moves [OF moves_simple(3)]

lemma moves_host [simp]: "moves (parse_host a)"
  unfolding parse_host_def by (intro moves_from_pos stays_intros)

lemma moves_version [simp]: "moves (parse_version a)"
  unfolding parse_version_def by (intro moves_from_pos stays_intros)

lemma moves_obj_addr [simp]: "moves (obj_addr a)"
  unfolding obj_addr_def prot_addr_def rir_prot_addr_def iiop_prot_addr_def iiop_id_def iiop_addr_def
    parse_port_def
  by (intro moves_bind moves_cases moves_match moves_version moves_host moves_number moves_simple)

text \<open>\<open>do { \<dots> } while (url.match(","));\<close>\<close>

function obj_addr_list :: "ObjectAddress list \<Rightarrow> ObjectAddress list url_reader" where
  "obj_addr_list as l =
     (case obj_addr address_init l of
        Inl err \<Rightarrow> Inl err
      | Inr ((ok, a), l1) \<Rightarrow>
          if \<not> ok then Inl (RuntimeError ''expected object address after comma'')
          else (case match (lit '','') l1 of
                  Inl err \<Rightarrow> Inl err
                | Inr (b, l2) \<Rightarrow> if b then obj_addr_list (as @ [a]) l2 else Inr (as @ [a], l2)))"
  by pat_completeness auto

termination obj_addr_list
proof (relation "measure (\<lambda>(as, l). length (udata l) - upos l)", goal_cases)
  case (2 as l p q l1 ok a r b l2)
  then show ?case
    using movesD [OF moves_obj_addr, of address_init l q l1] match_True [of "lit '',''" l1 l2] by fastforce
qed simp

declare obj_addr_list.simps [simp del]

definition key_string :: "bytes url_reader" where
  "key_string = rd_bind uri (\<lambda>u. case u of Some s \<Rightarrow> rd_return s | None \<Rightarrow> rd_return [])"

definition corbaloc :: "('a) CorbaLocation_scheme \<Rightarrow> ('a) CorbaLocation_scheme url_reader" where
  "corbaloc loc =
     rd_bind (obj_addr_list (addr loc)) (\<lambda>as.
     rd_bind (match (lit ''/'')) (\<lambda>slash.
     if slash then rd_bind key_string (\<lambda>key. rd_return (loc\<lparr>addr := as, locKey := key\<rparr>))
     else rd_return (loc\<lparr>addr := as\<rparr>)))"

definition corbaname :: "CorbaName \<Rightarrow> CorbaName url_reader" where
  "corbaname name =
     rd_bind (corbaloc name) (\<lambda>name.
     rd_bind (match (lit ''#'')) (\<lambda>hash.
     if hash
     then rd_bind uri (\<lambda>u. case u of Some s \<Rightarrow> rd_return (name\<lparr>nname := s\<rparr>) | None \<Rightarrow> rd_return name)
     else rd_return name))"

definition location_init :: CorbaLocation where
  "location_init = \<lparr>addr = [], locKey = []\<rparr>"

definition name_init :: CorbaName where
  "name_init = \<lparr>addr = [], locKey = lit ''NameService'', nname = []\<rparr>"

definition parse_uri :: "host \<Rightarrow> decoded_uri url_reader" where
  "parse_uri h =
     rd_bind (match (lit ''IOR:'')) (\<lambda>b1.
     if b1 then rd_bind (rd_get udata) (\<lambda>data.
       case ior_of_string h data of Inl err \<Rightarrow> rd_throw err | Inr ref \<Rightarrow> rd_return (UriIOR ref))
     else
     rd_bind (match (lit ''corbaloc:'')) (\<lambda>b2.
     if b2 then rd_bind (corbaloc location_init) (\<lambda>loc. rd_return (UriLocation loc))
     else
     rd_bind (match (lit ''corbaname:'')) (\<lambda>b3.
     if b3 then rd_bind (corbaname name_init) (\<lambda>name. rd_return (UriName name))
     else rd_throw (RuntimeError
       ''Bad string, expected on of IOR:..., corbaloc:... or corbaname:...''))))"

definition decodeURI :: "host \<Rightarrow> bytes \<Rightarrow> error + decoded_uri" where
  "decodeURI h s =
     (case parse_uri h \<lparr>udata = s, upos = 0\<rparr> of Inl err \<Rightarrow> Inl err | Inr (u, _) \<Rightarrow> Inr u)"

end
