(* ===== verification/Connections.thy ===== *)
theory Connections
  imports ORB URL
begin

text \<open>
  The connections of an ORB (src/corba/net/connection.cc, the part of src/corba/orb.cc that
  looks for connections, and who makes them): the pool, protocols, outgoing and incoming
  connections, and what is found under a URL.
\<close>

section \<open>State\<close>

text \<open>
  Connections and protocols are objects in memory; a \<open>shared_ptr\<close> is the address. \<open>porb\<close> is
  whether the member \<open>orb\<close> of a protocol has been set, which is then this ORB.
\<close>

type_synonym cref = nat
type_synonym pref = nat

record protocol =
  plocal :: HostAndPort
  porb :: bool

text \<open>
  \<open>pool\<close> is a \<open>std::set\<close> of pointers, in the order of their addresses. The member \<open>local\<close> of a
  protocol is shared by its connections; \<open>connection_of\<close> is the connection as the messages
  see it.
\<close>

record network =
  pool :: "cref list"
  conn_at :: "cref \<Rightarrow> connection"
  protocol_of :: "cref \<Rightarrow> pref option"
  protos :: "pref \<Rightarrow> protocol"
  protocols :: "pref list"

definition connection_of :: "network \<Rightarrow> cref \<Rightarrow> connection" where
  "connection_of n c =
     (conn_at n c)\<lparr>protocol_local := map_option (\<lambda>p. plocal (protos n p)) (protocol_of n c)\<rparr>"

definition c_str :: "bytes \<Rightarrow> bytes" where
  "c_str s = takeWhile (\<lambda>c. c \<noteq> 0) s"

section \<open>The pool\<close>

definition pool_insert :: "cref \<Rightarrow> cref list \<Rightarrow> cref list" where
  "pool_insert c p = (if c \<in> set p then p else insort c p)"

definition pool_erase :: "cref \<Rightarrow> cref list \<Rightarrow> cref list" where
  "pool_erase c p = filter (\<lambda>x. x \<noteq> c) p"

fun find_local :: "network \<Rightarrow> HostAndPort \<Rightarrow> cref list \<Rightarrow> error + cref option" where
  "find_local n a [] = Inr None"
| "find_local n a (c # cs) =
     (case protocol_of n c of
        None \<Rightarrow> Inl NullDeref
      | Some p \<Rightarrow> if host (plocal (protos n p)) = host a \<and> port (plocal (protos n p)) = port a
                  then Inr (Some c) else find_local n a cs)"

definition findByLocal :: "network \<Rightarrow> bytes \<Rightarrow> u16 \<Rightarrow> error + cref option" where
  "findByLocal n hst prt = find_local n \<lparr>host = c_str hst, port = prt\<rparr> (pool n)"

fun find_remote :: "network \<Rightarrow> HostAndPort \<Rightarrow> cref list \<Rightarrow> cref option" where
  "find_remote n a [] = None"
| "find_remote n a (c # cs) =
     (if host (remote (conn_at n c)) = host a \<and> port (remote (conn_at n c)) = port a
      then Some c else find_remote n a cs)"

definition findByRemote :: "network \<Rightarrow> bytes \<Rightarrow> u16 \<Rightarrow> cref option" where
  "findByRemote n hst prt = find_remote n \<lparr>host = c_str hst, port = prt\<rparr> (pool n)"

section \<open>Protocols\<close>

definition registerProtocol :: "pref \<Rightarrow> network \<Rightarrow> network" where
  "registerProtocol p n =
     n\<lparr>protos := (protos n)(p := (protos n p)\<lparr>porb := True\<rparr>), protocols := protocols n @ [p]\<rparr>"

text \<open>The new object is at the address \<open>c\<close>; the host is a C string.\<close>

definition connectOutgoing :: "cref \<Rightarrow> pref \<Rightarrow> bytes \<Rightarrow> u16 \<Rightarrow> network \<Rightarrow> network" where
  "connectOutgoing c p hst prt n =
     n\<lparr>conn_at := (conn_at n)(c := conn_init None \<lparr>host = c_str hst, port = prt\<rparr>),
       protocol_of := (protocol_of n)(c \<mapsto> p)\<rparr>"

definition connectIncoming :: "cref \<Rightarrow> pref \<Rightarrow> bytes \<Rightarrow> u16 \<Rightarrow> network \<Rightarrow> network" where
  "connectIncoming c p hst prt n =
     (let n1 = connectOutgoing c p hst prt n
      in n1\<lparr>conn_at := (conn_at n1)(c := (conn_at n1 c)\<lparr>cstate := ESTABLISHED\<rparr>)\<rparr>)"

text \<open>
  The end of \<open>libev_accept_cb\<close> of the protocol \<open>p\<close>: \<open>setup\<close> is whether the socket could be
  prepared, \<open>peer\<close> the name of the other end.
\<close>

definition accepted :: "bool \<Rightarrow> cref \<Rightarrow> pref \<Rightarrow> HostAndPort \<Rightarrow> network \<Rightarrow> error + network" where
  "accepted setup c p peer n =
     (if \<not> setup then Inr n
      else let n1 = connectIncoming c p (c_str (host peer)) (port peer) n
        in if \<not> porb (protos n1 p) then Inl NullDeref
           else Inr (n1\<lparr>pool := pool_insert c (pool n1)\<rparr>))"

section \<open>Connections of the ORB\<close>

text \<open>
  \<open>uuid\<close> is the text of the random number that stands for the host name of an ORB that does not
  listen; \<open>fresh\<close> the address of a new connection.
\<close>

definition getConnection :: "bytes \<Rightarrow> cref \<Rightarrow> bytes \<Rightarrow> u16 \<Rightarrow> network \<Rightarrow> error + cref \<times> network" where
  "getConnection uuid fresh hst prt n =
     (case findByRemote n hst prt of
        Some c \<Rightarrow> Inr (c, n)
      | None \<Rightarrow>
          (case protocols n of
             [] \<Rightarrow> Inl (RuntimeError ''failed to allocate connection to {}:{}'')
           | p # _ \<Rightarrow>
               (let n1 = (if host (plocal (protos n p)) = []
                          then n\<lparr>protos := (protos n)(p := (protos n p)\<lparr>plocal := \<lparr>host = uuid, port = 2809\<rparr>\<rparr>)\<rparr>
                          else n);
                    n2 = connectOutgoing fresh p hst prt n1
                in Inr (fresh, n2\<lparr>pool := pool_insert fresh (pool n2)\<rparr>))))"

definition narrow_servant :: "network \<Rightarrow> orb \<Rightarrow> ior \<Rightarrow> error + sref option" where
  "narrow_servant n o1 ref =
     (case findByLocal n (ior_host ref) (ior_port ref) of
        Inl err \<Rightarrow> Inl err
      | Inr None \<Rightarrow> Inr None
      | Inr (Some c) \<Rightarrow>
          (case protocol_of n c of
             None \<Rightarrow> Inl NullDeref
           | Some p \<Rightarrow> if \<not> porb (protos n p) then Inl NullDeref else Inr (servants o1 (objectKey ref))))"

definition shutdown :: "orb \<Rightarrow> network \<Rightarrow> orb \<times> network" where
  "shutdown o1 n = (o1\<lparr>servants := Map.empty, namingService := None\<rparr>, n\<lparr>pool := [], protocols := []\<rparr>)"

section \<open>Objects behind URLs\<close>

text \<open>
  Either the reference is known, or the naming context at the other end of a connection has to
  be asked, which is a call of \<open>resolve_str\<close>.
\<close>

datatype object_at =
    Reference ior
  | AskNames stub bytes

definition stringToObject ::
    "host \<Rightarrow> bytes \<Rightarrow> cref \<Rightarrow> bytes \<Rightarrow> network \<Rightarrow> error + object_at \<times> network" where
  "stringToObject h uuid fresh s n =
     (let failed = RuntimeError ''ORB::stringToObject(\"{}\") failed'' in
      case decodeURI h s of
        Inl err \<Rightarrow> Inl err
      | Inr (UriIOR r) \<Rightarrow> Inr (Reference r, n)
      | Inr (UriLocation _) \<Rightarrow> Inl failed
      | Inr (UriName nm) \<Rightarrow>
          (case addr nm of
             [] \<Rightarrow> Inl BadRead
           | a # _ \<Rightarrow>
               if proto a = lit ''iiop''
               then (case getConnection uuid fresh (ahost a) (aport a) n of
                       Inl err \<Rightarrow> Inl err
                     | Inr (c, n') \<Rightarrow>
                         Inr (AskNames \<lparr>stub_key = locKey nm, stub_conn = Some (connection_of n' c)\<rparr> (nname nm), n'))
               else Inl failed))"

end
