(* ===== verification/ORB_Servants.thy ===== *)
theory ORB_Servants
  imports Connections
begin

text \<open>
  Servants and their keys: what activation, \<open>ORB::bind\<close> and \<open>ORB::shutdown\<close> keep, and where a servant is
  found.
\<close>

section \<open>The keys the ORB makes\<close>

lemma generated_key_inject [simp]: "generated_key m = generated_key n \<longleftrightarrow> m = n"
  by (auto simp: generated_key_def word_unat_eq_iff dest!: show_hex_inj)

lemma generated_key_not_naming: "generated_key n \<noteq> lit ''NameService''"
  by (simp add: generated_key_def)

section \<open>Activation\<close>

lemma activate_with_id_simps [simp]:
  "servants (activate_object_with_id key s o1) =
     (if key \<in> dom (servants o1) then servants o1 else (servants o1)(key \<mapsto> s))"
  "skels (activate_object_with_id key s o1) =
     (skels o1)(s := (skels o1 s)\<lparr>sk_orb := True, sk_key := key\<rparr>)"
  "contexts (activate_object_with_id key s o1) = contexts o1"
  "servantIdCounter (activate_object_with_id key s o1) = servantIdCounter o1"
  "namingService (activate_object_with_id key s o1) = namingService o1"
  by (cases "key \<in> dom (servants o1)"; simp add: activate_object_with_id_def)+

lemma activate_object_simps [simp]:
  "servants (activate_object s o1) =
     (let key = generated_key (servantIdCounter o1 + 1)
      in if key \<in> dom (servants o1) then servants o1 else (servants o1)(key \<mapsto> s))"
  "skels (activate_object s o1) =
     (skels o1)(s := (skels o1 s)\<lparr>sk_orb := True, sk_key := generated_key (servantIdCounter o1 + 1)\<rparr>)"
  "contexts (activate_object s o1) = contexts o1"
  "servantIdCounter (activate_object s o1) = servantIdCounter o1 + 1"
  "namingService (activate_object s o1) = namingService o1"
  by (simp_all add: activate_object_def Let_def)

lemma activation_keeps: "servants o1 key = Some s' \<Longrightarrow> servants (activate_object s o1) key = Some s'"
  by (auto simp: Let_def domIff)

lemma activations_keep:
  "servants o1 key = Some s' \<Longrightarrow> servants (fold activate_object ss o1) key = Some s'"
  "s \<notin> set ss \<Longrightarrow> skels (fold activate_object ss o1) s = skels o1 s"
  by (induction ss arbitrary: o1) (auto simp: activation_keeps simp del: activate_object_simps(1))

lemma activations_found:
  assumes "distinct ss" and "\<forall>n > servantIdCounter o1. generated_key n \<notin> dom (servants o1)"
    and "unat (servantIdCounter o1) + length ss < 2 ^ 64"
  shows "(\<forall>s\<in>set ss. sk_orb (skels (fold activate_object ss o1) s) \<and>
      servants (fold activate_object ss o1) (sk_key (skels (fold activate_object ss o1) s)) = Some s) \<and>
    (\<forall>key s. servants o1 key = Some s \<longrightarrow> servants (fold activate_object ss o1) key = Some s)"
  using assms
proof (induction ss arbitrary: o1)
  case (Cons s ss)
  let ?n = "servantIdCounter o1" and ?o2 = "activate_object s o1"
  have n: "unat (?n + 1) = unat ?n + 1"
    using Cons.prems(3) unat_add_lem [of ?n 1] by simp
  then have gt: "?n < ?n + 1" by (simp add: word_less_nat_alt)
  then have new: "generated_key (?n + 1) \<notin> dom (servants o1)" using Cons.prems(2) by blast
  have "\<forall>n > servantIdCounter ?o2. generated_key n \<notin> dom (servants ?o2)"
    using Cons.prems(2) new gt by (auto simp: Let_def)
  then have IH: "\<forall>s'\<in>set ss. sk_orb (skels (fold activate_object ss ?o2) s') \<and>
      servants (fold activate_object ss ?o2) (sk_key (skels (fold activate_object ss ?o2) s')) = Some s'"
    using Cons.IH [of ?o2] Cons.prems(1,3) n by simp
  have s: "skels (fold activate_object ss ?o2) s = skels ?o2 s"
    using Cons.prems(1) by (intro activations_keep) simp
  have "servants (fold activate_object ss ?o2) (generated_key (?n + 1)) = Some s"
    using new by (intro activations_keep) (simp add: Let_def)
  with IH s show ?case using activations_keep(1) [of o1 _ _ "s # ss"] by auto
qed simp

definition orb_init :: orb where
  "orb_init = \<lparr>skels = (\<lambda>_. \<lparr>sk_orb = False, sk_key = [], sk_rid = []\<rparr>), contexts = (\<lambda>_. None),
     servants = Map.empty, servantIdCounter = 0, namingService = None\<rparr>"

text \<open>A key that is taken is not given to another servant, but the other servant believes it is: a
  reference to it leads to the first one.\<close>

theorem taken_key_shared:
  assumes "servants o1 key = Some s1" and "s1 \<noteq> s2"
  shows "sk_key (skels (activate_object_with_id key s2 o1) s2) = key \<and>
    servants (activate_object_with_id key s2 o1) key = Some s1"
  using assms by (auto simp: domIff)

theorem taken_key_shared_witness:
  "sk_key (skels (activate_object_with_id (lit ''k'') 2 (activate_object_with_id (lit ''k'') 1 orb_init)) 2) = lit ''k'' \<and>
    servants (activate_object_with_id (lit ''k'') 2 (activate_object_with_id (lit ''k'') 1 orb_init)) (lit ''k'') = Some 1"
  by (rule taken_key_shared) (simp_all add: orb_init_def)

section \<open>The operations of an application\<close>

text \<open>
  What holds of an ORB: every servant of \<open>A\<close> is activated and has a key under which there is a servant, and
  the name service, once made, has a table and is found under its key, unless the application has
  \<open>taken\<close> that key before.
\<close>

definition orb_ok :: "sref set \<Rightarrow> bool \<Rightarrow> orb \<Rightarrow> bool" where
  "orb_ok A taken o1 \<longleftrightarrow>
     (\<forall>s \<in> A. sk_orb (skels o1 s) \<and> sk_key (skels o1 s) \<in> dom (servants o1)) \<and>
     (case namingService o1 of
        None \<Rightarrow> taken \<or> lit ''NameService'' \<notin> dom (servants o1)
      | Some ns \<Rightarrow> contexts o1 ns \<noteq> None \<and> lit ''NameService'' \<in> dom (servants o1) \<and>
          (taken \<or> servants o1 (lit ''NameService'') = Some ns))"

lemma orb_ok_activate_with_id:
  "orb_ok A taken o1 \<Longrightarrow>
    orb_ok (insert s A) (taken \<or> key = lit ''NameService'' \<and> key \<notin> dom (servants o1)) (activate_object_with_id key s o1)"
  by (auto simp: orb_ok_def domIff simp del: lit_simps split: option.splits)

lemma orb_ok_counter: "orb_ok A taken (o1\<lparr>servantIdCounter := k\<rparr>) = orb_ok A taken o1"
  by (simp add: orb_ok_def cong: option.case_cong)

lemma orb_ok_activate:
  assumes "orb_ok A taken o1"
  shows "orb_ok (insert s A) taken (activate_object s o1)"
proof -
  let ?n = "servantIdCounter o1 + 1"
  have "orb_ok A taken (o1\<lparr>servantIdCounter := ?n\<rparr>)" using assms by (simp only: orb_ok_counter)
  from orb_ok_activate_with_id [OF this, of s "generated_key ?n"] show ?thesis
    unfolding activate_object_def Let_def by (simp only: generated_key_not_naming simp_thms)
qed

lemma orb_ok_make_naming:
  assumes "orb_ok A taken o1"
  shows "orb_ok (if namingService o1 = None then insert ns A else A) taken (make_naming ns o1)"
    and "namingService (make_naming ns o1) \<noteq> None"
    and "sk_orb (skels o1 s) \<Longrightarrow> s \<noteq> ns \<Longrightarrow> skels (make_naming ns o1) s = skels o1 s"
  using assms by (auto simp: orb_ok_def make_naming_def domIff simp del: lit_simps split: option.splits)

definition with_servant :: "sref \<Rightarrow> orb \<Rightarrow> orb" where
  "with_servant obj o1 = (if sk_orb (skels o1 obj) then o1 else activate_object obj o1)"

lemma orb_ok_with_servant:
  "orb_ok A taken o1 \<Longrightarrow> orb_ok (if sk_orb (skels o1 obj) then A else insert obj A) taken (with_servant obj o1)"
  by (simp add: with_servant_def orb_ok_activate)

lemma with_servant_naming [simp]: "namingService (with_servant obj o1) = namingService o1"
  by (simp add: with_servant_def)

lemma orb_bind_eq:
  assumes "orb_ok A taken o1"
  obtains s t where "namingService (make_naming ns (with_servant obj o1)) = Some s"
    "contexts (make_naming ns (with_servant obj o1)) s = Some t"
    "orb_bind ns name obj o1 =
      (case naming_bind name (ServantRef obj) t of
         Inl text \<Rightarrow> (Some text, make_naming ns (with_servant obj o1))
       | Inr t' \<Rightarrow> (None, (make_naming ns (with_servant obj o1))\<lparr>contexts :=
           (contexts (make_naming ns (with_servant obj o1)))(s \<mapsto> t')\<rparr>))"
proof -
  let ?o3 = "make_naming ns (with_servant obj o1)"
  note ok = orb_ok_with_servant [OF assms, of obj]
  obtain s where s: "namingService ?o3 = Some s" using orb_ok_make_naming(2) [OF ok, of ns] by blast
  then obtain t where "contexts ?o3 s = Some t" using orb_ok_make_naming(1) [OF ok, of ns] by (auto simp: orb_ok_def)
  with s show ?thesis using that by (simp add: orb_bind_def Let_def flip: with_servant_def)
qed

text \<open>
  The operations an application can call, in any order. \<open>P\<close> says which keys it chooses itself. \<open>n\<close> counts
  the keys the ORB has made, \<open>A\<close> are the servants activated since the last \<open>shutdown\<close>, the
  name service among them, and \<open>taken\<close> is whether the application has put a servant of its own
  under the key of the name service since then.
\<close>

inductive orb_reachable :: "(bytes \<Rightarrow> bool) \<Rightarrow> nat \<Rightarrow> sref set \<Rightarrow> bool \<Rightarrow> orb \<Rightarrow> bool" for P where
  start: "orb_reachable P 0 {} False orb_init"
| activate: "orb_reachable P n A taken o1 \<Longrightarrow> orb_reachable P (Suc n) (insert s A) taken (activate_object s o1)"
| activate_id: "orb_reachable P n A taken o1 \<Longrightarrow> P key \<Longrightarrow>
    orb_reachable P n (insert s A) (taken \<or> key = lit ''NameService'' \<and> key \<notin> dom (servants o1)) (activate_object_with_id key s o1)"
| bind: "orb_reachable P n A taken o1 \<Longrightarrow> A' = (if sk_orb (skels o1 obj) then A else insert obj A) \<Longrightarrow>
    orb_reachable P (if sk_orb (skels o1 obj) then n else Suc n)
      (if namingService o1 = None then insert ns A' else A') taken (snd (orb_bind ns name obj o1))"
| shutdown: "orb_reachable P n A taken o1 \<Longrightarrow> orb_reachable P n {} False (fst (shutdown o1 network))"

lemma orb_ok_bind:
  assumes "orb_ok A taken o1" and "A' = (if sk_orb (skels o1 obj) then A else insert obj A)"
  shows "orb_ok (if namingService o1 = None then insert ns A' else A') taken (snd (orb_bind ns name obj o1))"
proof -
  let ?o3 = "make_naming ns (with_servant obj o1)" and ?A = "if namingService o1 = None then insert ns A' else A'"
  have o3: "orb_ok ?A taken ?o3"
    using orb_ok_make_naming(1) [OF orb_ok_with_servant [OF assms(1)], of obj ns] unfolding assms(2) by simp
  then have "orb_ok ?A taken (?o3\<lparr>contexts := (contexts ?o3)(s \<mapsto> t)\<rparr>)" for s t
    by (auto simp: orb_ok_def split: option.splits)
  moreover obtain s t where "orb_bind ns name obj o1 = (case naming_bind name (ServantRef obj) t of
      Inl text \<Rightarrow> (Some text, ?o3) | Inr t' \<Rightarrow> (None, ?o3\<lparr>contexts := (contexts ?o3)(s \<mapsto> t')\<rparr>))"
    by (rule orb_bind_eq [OF assms(1)])
  ultimately show ?thesis using o3 by (auto split: sum.splits)
qed

lemma orb_ok_shutdown: "orb_ok {} False (fst (shutdown o1 network))"
  by (simp add: orb_ok_def shutdown_def)

lemma reachable_ok: "orb_reachable P n A taken o1 \<Longrightarrow> orb_ok A taken o1"
proof (induction rule: orb_reachable.induct)
  case start
  show ?case by (simp add: orb_ok_def orb_init_def)
qed (simp_all only: orb_ok_activate orb_ok_activate_with_id orb_ok_bind orb_ok_shutdown)

text \<open>The keys the ORB has made so far.\<close>

definition counted :: "nat \<Rightarrow> orb \<Rightarrow> bool" where
  "counted n o1 \<longleftrightarrow> servantIdCounter o1 = of_nat n \<and> (\<forall>m. generated_key m \<in> dom (servants o1) \<longrightarrow> unat m \<le> n)"

lemma counted_activate: "counted n o1 \<Longrightarrow> counted (Suc n) (activate_object s o1)"
proof -
  have "unat (of_nat (Suc n) :: u64) \<le> Suc n" unfolding unsigned_of_nat of_nat_id by (rule take_bit_nat_less_eq_self)
  then show "counted n o1 \<Longrightarrow> counted (Suc n) (activate_object s o1)"
    by (auto simp: counted_def Let_def add.commute le_SucI domIff split: if_splits)
qed

lemma counted_activate_with_id: "counted n o1 \<Longrightarrow> key \<notin> range generated_key \<Longrightarrow> counted n (activate_object_with_id key s o1)"
  by (auto simp: counted_def)

lemma counted_make_naming: "counted n o1 \<Longrightarrow> counted n (make_naming ns o1)"
  using generated_key_not_naming by (auto simp: counted_def make_naming_def simp del: lit_simps split: option.split)

lemma reachable_counted: "orb_reachable (\<lambda>key. key \<notin> range generated_key) n A taken o1 \<Longrightarrow> counted n o1"
proof (induction rule: orb_reachable.induct)
  case start
  show ?case by (simp add: counted_def orb_init_def)
next
  case (bind n A taken o1 A' obj ns name)
  let ?o3 = "make_naming ns (with_servant obj o1)" and ?n = "if sk_orb (skels o1 obj) then n else Suc n"
  have o3: "counted ?n ?o3" using bind.IH counted_activate counted_make_naming by (simp add: with_servant_def)
  obtain s t where "orb_bind ns name obj o1 = (case naming_bind name (ServantRef obj) t of
      Inl text \<Rightarrow> (Some text, ?o3) | Inr t' \<Rightarrow> (None, ?o3\<lparr>contexts := (contexts ?o3)(s \<mapsto> t')\<rparr>))"
    by (rule orb_bind_eq [OF reachable_ok [OF bind.hyps(1)]])
  then show ?case using o3 by (auto simp: counted_def split: sum.splits)
next
  case (shutdown n A taken o1 network)
  then show ?case by (simp add: counted_def shutdown_def)
qed (simp_all add: counted_activate counted_activate_with_id)

text \<open>C37. Objects activated one after another are each found under the key the ORB has given them, so no two
  have the same key, and what was found before is still found. This in every state an application can bring
  an ORB to by activating, binding and shutting down, if it has not itself chosen a key of the form the ORB
  makes (\<open>OID:\<close> and a number) and the ORB makes fewer than 2^64 keys in all.\<close>

theorem activated_objects_found:
  assumes "orb_reachable (\<lambda>key. key \<notin> range generated_key) n A taken o1" and "distinct ss" and "n + length ss < 2 ^ 64"
  shows "(\<forall>s\<in>set ss. sk_orb (skels (fold activate_object ss o1) s) \<and>
      servants (fold activate_object ss o1) (sk_key (skels (fold activate_object ss o1) s)) = Some s) \<and>
    (\<forall>key s. servants o1 key = Some s \<longrightarrow> servants (fold activate_object ss o1) key = Some s)"
proof -
  have "counted n o1" by (rule reachable_counted [OF assms(1)])
  moreover have n: "unat (of_nat n :: u64) = n" using assms(3) unfolding unsigned_of_nat of_nat_id by (intro take_bit_nat_eq_self) simp
  ultimately have "\<forall>m > servantIdCounter o1. generated_key m \<notin> dom (servants o1)"
    by (auto simp: counted_def word_less_nat_alt)
  moreover have "unat (servantIdCounter o1) + length ss < 2 ^ 64"
    using \<open>counted n o1\<close> n assms(3) by (simp add: counted_def)
  ultimately show ?thesis using activations_found [OF assms(2)] by blast
qed

theorem activated_objects_found_witness:
  "servants (fold activate_object [4, 2, 9] (activate_object_with_id (lit ''k'') 5 orb_init))
    (sk_key (skels (fold activate_object [4, 2, 9] (activate_object_with_id (lit ''k'') 5 orb_init)) 2)) = Some 2"
proof -
  have "lit ''k'' \<notin> range generated_key" by (auto simp: generated_key_def)
  with orb_reachable.start obtain taken where "orb_reachable (\<lambda>key. key \<notin> range generated_key) 0 {5} taken
      (activate_object_with_id (lit ''k'') 5 orb_init)" using orb_reachable.activate_id [where P = "\<lambda>key. key \<notin> range generated_key"] by blast
  from conjunct1 [OF activated_objects_found [OF this, of "[4, 2, 9]"]]
  show ?thesis by (simp del: activate_object_simps activate_with_id_simps)
qed

text \<open>C38. In every state an application can bring an ORB to by activating objects under any keys, binding names
  and shutting down: each servant activated since the last \<open>shutdown\<close> has a key under which a servant is found,
  and the name service, once there is one, has a table and is found under \<open>NameService\<close>, unless the
  application had put a servant of its own under that key before; then there still is a servant.\<close>

theorem servants_registered:
  assumes "orb_reachable P n A taken o1"
  shows "(\<forall>s \<in> A. sk_orb (skels o1 s) \<and> sk_key (skels o1 s) \<in> dom (servants o1)) \<and>
    (\<forall>ns. namingService o1 = Some ns \<longrightarrow> contexts o1 ns \<noteq> None \<and> lit ''NameService'' \<in> dom (servants o1) \<and>
      (\<not> taken \<longrightarrow> servants o1 (lit ''NameService'') = Some ns))"
  using reachable_ok [OF assms] by (auto simp: orb_ok_def simp del: lit_simps split: option.splits)

theorem servants_registered_witness:
  "\<forall>network. sk_key (skels (activate_object 1 (fst (shutdown (activate_object 2 orb_init) network))) 1) \<in>
    dom (servants (activate_object 1 (fst (shutdown (activate_object 2 orb_init) network))))"
proof
  fix network
  have "orb_reachable (\<lambda>_. True) 2 {1} False (activate_object 1 (fst (shutdown (activate_object 2 orb_init) network)))"
    using orb_reachable.activate [OF orb_reachable.shutdown [OF orb_reachable.activate [OF orb_reachable.start]]]
    by (simp add: numeral_2_eq_2)
  from conjunct1 [OF servants_registered [OF this]]
  show "sk_key (skels (activate_object 1 (fst (shutdown (activate_object 2 orb_init) network))) 1) \<in>
    dom (servants (activate_object 1 (fst (shutdown (activate_object 2 orb_init) network))))" by blast
qed

text \<open>A servant keeps its ORB when the ORB is shut down: \<open>bind\<close> does not activate it again, and the name leads
  to an object that is not found.\<close>

lemma bound_after_shutdown:
  assumes "sk_orb (skels o1 obj)" and "ns \<noteq> obj" and "sk_key (skels o1 obj) \<noteq> lit ''NameService''"
  shows "sk_key (skels (snd (orb_bind ns name obj (fst (shutdown o1 network)))) obj) \<notin>
    dom (servants (snd (orb_bind ns name obj (fst (shutdown o1 network)))))"
  using assms by (auto simp: orb_bind_def shutdown_def make_naming_def Let_def domIff simp del: lit_simps split: sum.split)

section \<open>The name service\<close>

text \<open>What a name is bound to at an ORB.\<close>

definition bound :: "orb \<Rightarrow> names" where
  "bound o1 =
     (case namingService o1 of
        None \<Rightarrow> Map.empty
      | Some s \<Rightarrow> (case contexts o1 s of None \<Rightarrow> Map.empty | Some t \<Rightarrow> t))"

lemma bound_prepared: "orb_ok A taken o1 \<Longrightarrow> bound (make_naming ns (with_servant obj o1)) = bound o1"
  by (auto simp: bound_def make_naming_def with_servant_def split: option.splits)

text \<open>Binding a name that is free binds it to the object, which has a key, and leaves the other
  names alone; binding one that is taken throws, with the name in the text, and changes no name.\<close>

theorem bind_binds:
  assumes "orb_reachable P n A taken o1" and "ns \<noteq> obj"
  shows "case bound o1 name of
      None \<Rightarrow> fst (orb_bind ns name obj o1) = None \<and>
        bound (snd (orb_bind ns name obj o1)) = (bound o1)(name \<mapsto> ServantRef obj) \<and>
        sk_orb (skels (snd (orb_bind ns name obj o1)) obj)
    | Some _ \<Rightarrow> fst (orb_bind ns name obj o1) =
          Some (lit ''name \"'' @ name @ lit ''\" is already bound to object'') \<and>
        bound (snd (orb_bind ns name obj o1)) = bound o1"
proof -
  let ?o3 = "make_naming ns (with_servant obj o1)"
  note ok = reachable_ok [OF assms(1)]
  obtain s t where st: "namingService ?o3 = Some s" "contexts ?o3 s = Some t"
    "orb_bind ns name obj o1 = (case naming_bind name (ServantRef obj) t of
      Inl text \<Rightarrow> (Some text, ?o3) | Inr t' \<Rightarrow> (None, ?o3\<lparr>contexts := (contexts ?o3)(s \<mapsto> t')\<rparr>))"
    by (rule orb_bind_eq [OF ok])
  have t: "t = bound o1" using bound_prepared [OF ok, of ns obj] st(1,2) by (simp add: bound_def)
  have obj: "sk_orb (skels (with_servant obj o1) obj)" by (simp add: with_servant_def)
  from orb_ok_make_naming(3) [OF orb_ok_with_servant [OF ok] obj] assms(2) obj have obj3: "sk_orb (skels ?o3 obj)" by auto
  show ?thesis
  proof (cases "bound o1 name")
    case None
    then have "naming_bind name (ServantRef obj) t = Inr (t(name \<mapsto> ServantRef obj))"
      by (simp add: naming_bind_def t domIff)
    with st None obj3 show ?thesis by (simp add: bound_def [of "?o3\<lparr>contexts := c\<rparr>" for c] t)
  next
    case (Some x)
    then have "naming_bind name (ServantRef obj) t = Inl (lit ''name \"'' @ name @ lit ''\" is already bound to object'')"
      by (simp add: naming_bind_def t domIff del: lit_simps)
    with st Some bound_prepared [OF ok] show ?thesis by (simp del: lit_simps)
  qed
qed

theorem bind_binds_witness:
  "fst (orb_bind 7 (lit ''a'') 1 orb_init) = None \<and>
    bound (snd (orb_bind 7 (lit ''a'') 1 orb_init)) = (bound orb_init)(lit ''a'' \<mapsto> ServantRef 1) \<and>
    sk_orb (skels (snd (orb_bind 7 (lit ''a'') 1 orb_init)) 1)"
proof -
  have "bound orb_init (lit ''a'') = None" by (simp add: bound_def orb_init_def)
  then show ?thesis using bind_binds [OF orb_reachable.start, of 7 1 "lit ''a''"] by simp
qed

end
