(* ===== verification/ORB_Properties.thy ===== *)
theory ORB_Properties
  imports ORB
begin

text \<open>
  Calls from end to end: what the stub of a client gives to its connection, what the ORB of the
  server answers, and what the client makes of the answer.
\<close>

section \<open>The request, seen from both ends\<close>

definition next_call :: "connection \<Rightarrow> connection" where
  "next_call c = c\<lparr>requestId := requestId c + 2\<rparr>"

definition told :: "connection \<Rightarrow> connection" where
  "told c = c\<lparr>didSendBiDirIIOP := True\<rparr>"

lemma next_call_simps [simp]:
  "didSendBiDirIIOP (next_call c) = didSendBiDirIIOP c" "protocol_local (next_call c) = protocol_local c"
  "remote (next_call c) = remote c"
  by (simp_all add: next_call_def)

lemma service_context_next_call [simp]:
  "cdr_service_context en (Some (next_call c)) = cdr_service_context en (Some c)"
  by simp

lemma request_layout_next_call [simp]:
  "request_layout en M m (Some (next_call c)) = request_layout en M m (Some c)"
  by (intro ext) (unfold request_layout_def cdr_request_def service_context_next_call, rule refl)

lemma sendable_next_call [simp]: "sendable (Some (next_call c)) = sendable (Some c)"
  by (intro ext) (simp add: sendable_def)

lemma call_request_layout:
  assumes "stub_conn st = Some c" and "sendable (Some c) (stub_key st) operation"
    and "gemits (\<lambda>_. True) encode (\<lambda>e. e) args"
  shows "call_request h text st operation re encode = Inr (requestId c,
    request_layout (native h) 1 2 (Some c) (stub_key st) operation (requestId c) re args,
    Some (told (next_call c)))"
proof -
  let ?e = "giop_enc_init (Some (next_call c))"
  have "enc_is 1 2 (Some (next_call c)) ?e" "ebuf ?e = enc_init"
    by (simp_all add: enc_is_def giop_enc_init_def)
  moreover have "listen_point_known (Some (next_call c))"
    using assms(2) sendable_next_call [of c] by (metis sendable_def)
  ultimately have "request_octets h (stub_key st) operation (requestId c) re encode ?e =
      Inr (request_layout (native h) 1 2 (Some c) (stub_key st) operation (requestId c) re args,
           econn (sent_bidir ?e))"
    using request_octets_layout [OF _ _ _ assms(3)] by simp
  then show ?thesis
    using assms(1) by (simp add: call_request_def next_call_def told_def sent_bidir_def giop_enc_init_def Let_def)
qed

text \<open>What the server's connection is after the service context of the client has been read.\<close>

definition heard :: "connection option \<Rightarrow> connection \<Rightarrow> connection option" where
  "heard c rc = dconn (hear c (sample_decoder\<lparr>dconn := Some rc\<rparr>))"

lemma heard_any: "dconn (hear c (any\<lparr>dconn := Some rc\<rparr>)) = heard c rc"
  by (cases c) (simp_all add: heard_def)

definition stands_at :: "giop_decoder \<Rightarrow> endian \<Rightarrow> u32 \<Rightarrow> connection option \<Rightarrow> marshal \<Rightarrow> bool" where
  "stands_at g en m rc args \<longleftrightarrow>
     dendian (dbuf g) = en \<and> dmajor g = 1 \<and> dminor g = m \<and> dconn g = rc \<and>
     drop (m_offset (dbuf g)) (ddata (dbuf g)) = args (m_offset (dbuf g)) \<and>
     m_offset (dbuf g) \<le> length (ddata (dbuf g))"

lemma request_received:
  assumes "m < 256" and "sendable c key operation" and "en \<noteq> Endian_0"
    and len: "length (request_layout en 1 m c key operation rid re args) < 2 ^ 32"
  obtains g where "stands_at g en m (heard c rc) args"
    and "socketRcvd h env any o1 waiting rc (request_layout en 1 m c key operation rid re args) u =
      (case handle_request h env o1 \<lparr>rq_requestId = rid, rq_responseExpected = re,
              rq_objectKey = key, rq_operation = operation\<rparr> g u of
         Inl err \<Rightarrow> Inl err
       | Inr (fx, u') \<Rightarrow> Inr (heard c rc, fx, u'))"
proof -
  let ?msg = "request_layout en 1 m c key operation rid re args"
  have M: "(1 :: u32) < 256" by simp
  obtain g g' where g:
    "scanGIOPHeader h (giop_dec_init any (Some rc) (dec_init ?msg Endian_0)) = Inr (REQUEST, g)"
    "scanRequestHeader h g = Inr
       (\<lparr>rq_requestId = rid, rq_responseExpected = re, rq_objectKey = key, rq_operation = operation\<rparr>, g')"
    "drop (m_offset (dbuf g')) ?msg = args (m_offset (dbuf g'))" "dendian (dbuf g') = en"
    "ddata (dbuf g') = ?msg" "m_offset (dbuf g') \<le> length ?msg"
    "dmajor g' = 1" "dminor g' = m" "dconn g' = heard c rc"
    by (rule scan_request_layout [OF M assms(1-3) len refl, of h any rc Endian_0, unfolded heard_any])
  have "?msg \<noteq> []" by (simp add: request_layout_def Let_def giop_header_def)
  then have "socketRcvd h env any o1 waiting rc ?msg u =
      (case handle_request h env o1 \<lparr>rq_requestId = rid, rq_responseExpected = re,
              rq_objectKey = key, rq_operation = operation\<rparr> g' u of
         Inl err \<Rightarrow> Inl err
       | Inr (fx, u') \<Rightarrow> Inr (heard c rc, fx, u'))"
    using g by (simp add: socketRcvd_def split: sum.split)
  moreover have "stands_at g' en m (heard c rc) args" using g by (simp add: stands_at_def)
  ultimately show ?thesis using that by blast
qed

section \<open>The reply, seen from both ends\<close>

definition replied :: "giop_decoder \<Rightarrow> endian \<Rightarrow> ReplyStatus \<Rightarrow> marshal \<Rightarrow> bool" where
  "replied g en status args \<longleftrightarrow>
     dendian (dbuf g) = en \<and> dreplyStatus g = status \<and> at (dbuf g) (args (m_offset (dbuf g)))"

lemma reply_received:
  assumes "m < 256" and "en \<noteq> Endian_0" and len: "length (reply_layout en 1 m rid status args) < 2 ^ 32"
    and "reply_status_cast (reply_status_code status) = status"
  obtains g where "replied g en status args"
    and "socketRcvd h env any o1 waiting rc (reply_layout en 1 m rid status args) u =
      Inr (Some rc, if waiting rid then [Resume rid g] else [], u)"
proof -
  let ?msg = "reply_layout en 1 m rid status args"
  obtain g g' where g:
    "scanGIOPHeader h (giop_dec_init any (Some rc) (dec_init ?msg Endian_0)) = Inr (REPLY, g)"
    "scanReplyHeader h g = Inr (\<lparr>rp_requestId = rid, rp_replyStatus = status\<rparr>, g')"
    "dbuf g' = \<lparr>ddata = ?msg, m_offset = 24, dendian = en\<rparr>" "drop 24 ?msg = args 24"
    "dreplyStatus g' = status" "dconn g' = Some rc"
    using scan_reply_layout [OF assms(1,2) len assms(4) refl, of h any rc Endian_0] by metis
  have "?msg \<noteq> []" by (simp add: reply_layout_def giop_header_def)
  then have "socketRcvd h env any o1 waiting rc ?msg u =
      Inr (Some rc, if waiting rid then [Resume rid g'] else [], u)"
    using g by (simp add: socketRcvd_def)
  moreover have "replied g' en status args" using g by (simp add: replied_def at_def reply_layout_def)
  ultimately show ?thesis using that by blast
qed

section \<open>Sizes\<close>

lemma request_fits:
  assumes "length key + length operation + 2 * listen_host c < 2 ^ 30" and "\<And>p. length (args p) < 2 ^ 30"
  shows "length (request_layout en M m c key operation rid re args) < 2 ^ 32"
proof -
  let ?req = "cdr_request en (v1_0_or_1 M m) c key operation rid re"
  have "length (?req 12) < 2 ^ 30 + 120"
    using length_request_bound [of en "v1_0_or_1 M m" c key operation rid re 12] assms(1) by simp
  then show ?thesis
    using assms(2) [of "12 + length (?req 12)"] by (simp add: request_layout_def Let_def)
qed

lemma reply_fits: "length (args 24) < 2 ^ 30 \<Longrightarrow> length (reply_layout en M m rid status args) < 2 ^ 32"
  by (simp add: reply_layout_def)

section \<open>A call from end to end\<close>

text \<open>An ORB with the machine it runs on, the servants of its application and its memory.\<close>

record 'u node =
  nhost :: host
  nenv :: "'u environment"
  norb :: orb
  nmem :: giop_decoder

definition receive ::
    "'u node \<Rightarrow> (u32 \<Rightarrow> bool) \<Rightarrow> connection \<Rightarrow> bytes \<Rightarrow> 'u \<Rightarrow>
     error + connection option \<times> effect list \<times> 'u" where
  "receive n = socketRcvd (nhost n) (nenv n) (nmem n) (norb n)"

datatype 'a call_end = Value 'a | Threw call_result | NoAnswer | Broken error

fun call_end_of :: "error + call_result + 'a \<Rightarrow> 'a call_end" where
  "call_end_of (Inl err) = Broken err"
| "call_end_of (Inr (Inl r)) = Threw r"
| "call_end_of (Inr (Inr v)) = Value v"

text \<open>
  The client sends the request, the server receives it, what it sends is received by the client,
  and the call that was suspended goes on. \<open>NoAnswer\<close>: nothing is sent back, or the reply
  resumes no call.
\<close>

definition round_trip ::
    "'c node \<Rightarrow> 's node \<Rightarrow> connection \<Rightarrow> stub \<Rightarrow> bytes \<Rightarrow> giop_encoder writer \<Rightarrow> 'a giop_reader \<Rightarrow>
     'c \<Rightarrow> 's \<Rightarrow> 'a call_end \<times> 's" where
  "round_trip cl sv sc st operation encode decode uc us =
     (case twowayCall (nhost cl) st operation encode of
        Inl err \<Rightarrow> (Broken err, us)
      | Inr (rid, msg, cc) \<Rightarrow>
          (case receive sv (\<lambda>_. False) sc msg us of
             Inl err \<Rightarrow> (Broken err, us)
           | Inr (_, [Send reply], us') \<Rightarrow>
               (case receive cl (\<lambda>r. r = rid) (the cc) reply uc of
                  Inl err \<Rightarrow> (Broken err, us')
                | Inr (cc', [Resume r d], _) \<Rightarrow>
                    (call_end_of (twoway_value (nhost cl) (the cc') decode d), us')
                | Inr _ \<Rightarrow> (NoAnswer, us'))
           | Inr (_, _, us') \<Rightarrow> (NoAnswer, us')))"

text \<open>What the client needs to have sent the request.\<close>

definition callable :: "stub \<Rightarrow> connection \<Rightarrow> bytes \<Rightarrow> bool" where
  "callable st c operation \<longleftrightarrow>
     stub_conn st = Some c \<and> sendable (Some c) (stub_key st) operation \<and>
     length (stub_key st) + length operation + 2 * listen_host (Some c) < 2 ^ 30"

definition short :: "marshal \<Rightarrow> bool" where
  "short args \<longleftrightarrow> (\<forall>p. length (args p) < 2 ^ 30)"

definition request_of :: "stub \<Rightarrow> connection \<Rightarrow> bytes \<Rightarrow> RequestHeader" where
  "request_of st c operation =
     \<lparr>rq_requestId = requestId c, rq_responseExpected = True, rq_objectKey = stub_key st, rq_operation = operation\<rparr>"

text \<open>The octets on the way to the server and back.\<close>

definition request_octets_of :: "'c node \<Rightarrow> stub \<Rightarrow> connection \<Rightarrow> bytes \<Rightarrow> marshal \<Rightarrow> bytes" where
  "request_octets_of cl st c operation args =
     request_layout (native (nhost cl)) 1 2 (Some c) (stub_key st) operation (requestId c) True args"

definition reply_octets_of :: "'s node \<Rightarrow> connection \<Rightarrow> ReplyStatus \<Rightarrow> marshal \<Rightarrow> bytes" where
  "reply_octets_of sv c status results = reply_layout (native (nhost sv)) 1 2 (requestId c) status results"

lemma request_sent:
  assumes "callable st c operation" and "gemits (\<lambda>_. True) encode (\<lambda>e. e) args"
  shows "twowayCall (nhost cl) st operation encode =
    Inr (requestId c, request_octets_of cl st c operation args, Some (told (next_call c)))"
  using call_request_layout [OF _ _ assms(2)] assms(1)
  by (simp add: twowayCall_def callable_def request_octets_of_def)

lemma length_request_octets_of:
  "callable st c operation \<Longrightarrow> short args \<Longrightarrow> length (request_octets_of cl st c operation args) < 2 ^ 32"
  unfolding request_octets_of_def by (intro request_fits) (simp_all add: callable_def short_def)

lemma request_answered:
  assumes st: "callable st c operation" and args: "short args"
    and answer: "\<And>g. stands_at g (native (nhost cl)) 2 (heard (Some c) sc) args \<Longrightarrow>
      handle_request (nhost sv) (nenv sv) (norb sv) (request_of st c operation) g us =
        Inr ([Send (reply_octets_of sv c status results)], us')"
  shows "receive sv (\<lambda>_. False) sc (request_octets_of cl st c operation args) us =
    Inr (heard (Some c) sc, [Send (reply_octets_of sv c status results)], us')"
proof -
  let ?msg = "request_octets_of cl st c operation args"
  have st': "sendable (Some c) (stub_key st) operation" using st by (simp add: callable_def)
  have two: "(2 :: u32) < 256" by simp
  obtain g where g: "stands_at g (native (nhost cl)) 2 (heard (Some c) sc) args"
    "receive sv (\<lambda>_. False) sc ?msg us =
      (case handle_request (nhost sv) (nenv sv) (norb sv) (request_of st c operation) g us of
         Inl err \<Rightarrow> Inl err | Inr (fx, u') \<Rightarrow> Inr (heard (Some c) sc, fx, u'))"
    unfolding receive_def request_of_def request_octets_of_def
    by (rule request_received [OF two st' native_not_0 length_request_octets_of [OF st args, unfolded request_octets_of_def]])
  show ?thesis using g(2) answer [OF g(1)] by simp
qed

lemma reply_resumes:
  assumes "length (results 24) < 2 ^ 30" and "reply_status_cast (reply_status_code status) = status"
  obtains d where "replied d (native (nhost sv)) status results"
    and "receive cl (\<lambda>r. r = requestId c) (told (next_call c)) (reply_octets_of sv c status results) uc =
      Inr (Some (told (next_call c)), [Resume (requestId c) d], uc)"
proof (rule reply_received [OF _ native_not_0 reply_fits [of results, OF assms(1)] assms(2)])
  show "(2 :: u32) < 256" by simp
  fix d
  assume "replied d (native (nhost sv)) status results"
    and "socketRcvd (nhost cl) (nenv cl) (nmem cl) (norb cl) (\<lambda>r. r = requestId c) (told (next_call c))
        (reply_layout (native (nhost sv)) 1 2 (requestId c) status results) uc =
      Inr (Some (told (next_call c)), if requestId c = requestId c then [Resume (requestId c) d] else [], uc)"
  then show thesis using that by (simp add: receive_def reply_octets_of_def)
qed

lemma round_trip_reply:
  assumes st: "callable st c operation" and args: "gemits (\<lambda>_. True) encode (\<lambda>e. e) args" "short args"
    and answer: "\<And>g. stands_at g (native (nhost cl)) 2 (heard (Some c) sc) args \<Longrightarrow>
      handle_request (nhost sv) (nenv sv) (norb sv) (request_of st c operation) g us =
        Inr ([Send (reply_layout (native (nhost sv)) 1 2 (requestId c) status results)], us')"
    and results: "length (results 24) < 2 ^ 30" "reply_status_cast (reply_status_code status) = status"
  shows "\<exists>d. replied d (native (nhost sv)) status results \<and>
    round_trip cl sv sc st operation encode decode uc us =
      (call_end_of (twoway_value (nhost cl) (told (next_call c)) decode d), us')"
proof -
  have sent: "receive sv (\<lambda>_. False) sc (request_octets_of cl st c operation args) us =
      Inr (heard (Some c) sc, [Send (reply_octets_of sv c status results)], us')"
    by (rule request_answered [OF st args(2) answer [folded reply_octets_of_def]])
  have call: "twowayCall (nhost cl) st operation encode =
      Inr (requestId c, request_octets_of cl st c operation args, Some (told (next_call c)))"
    by (rule request_sent [OF st args(1)])
  obtain d where "replied d (native (nhost sv)) status results"
    "receive cl (\<lambda>r. r = requestId c) (told (next_call c)) (reply_octets_of sv c status results) uc =
      Inr (Some (told (next_call c)), [Resume (requestId c) d], uc)"
    by (rule reply_resumes [where results = results and status = status and sv = sv and cl = cl and c = c and uc = uc, OF results])
  then show ?thesis using call sent by (intro exI [of _ d]) (simp add: round_trip_def)
qed

lemma value_returned:
  assumes "replied d en NO_EXCEPTION results" and "gparses (\<lambda>_. True) en decode w (\<lambda>g. g) results"
  shows "twoway_value h c decode d = Inr (Inr w)"
  using assms gparsesD [OF assms(2), of d] by (simp add: replied_def twoway_value_def twoway_result_def)

lemma value_threw:
  assumes "replied d en SYSTEM_EXCEPTION body" and "gparses (\<lambda>_. True) en (read_system_exception h c) r (\<lambda>g. g) body"
    and "\<And>d. r \<noteq> Returned d"
  shows "twoway_value h c decode d = Inr (Inl r)"
proof (cases r)
  case (Returned d')
  then show ?thesis using assms(3) by blast
qed (use assms(1) gparsesD [OF assms(2), of d] in \<open>simp_all add: replied_def twoway_value_def twoway_result_def\<close>)

lemma value_user_exception: "replied d en USER_EXCEPTION body \<Longrightarrow> twoway_value h c decode d = Inr (Inl ThrewUser)"
  by (simp add: replied_def twoway_value_def twoway_result_def)

text \<open>The server's side: the octets of the reply.\<close>

lemma finish_reply_layout:
  assumes "gemits P wr (\<lambda>e. e) results" and "P (reply_encoder c 1 m)" and "wr (reply_encoder c 1 m) = Inr e"
  shows "finish_reply h rid status e = reply_layout (native h) 1 m rid status results"
  using reply_octets_layout [OF assms(1,2), of h rid status] assms(3) by auto

lemma finish_reply_buf:
  assumes "emits f results"
  shows "finish_reply h rid status (on_buf f (reply_encoder c 1 m)) = reply_layout (native h) 1 m rid status results"
  by (rule finish_reply_layout [OF gemits_buf [OF assms], of "\<lambda>_. True"]) simp_all

section \<open>Calls that return\<close>

lemma stands_at_reads:
  assumes "stands_at g en m rc args" and "gparses (\<lambda>_. True) en rd v (\<lambda>g. g) args"
  obtains g' where "rd g = Inr (v, g')"
proof -
  have "at (dbuf g) (args (m_offset (dbuf g)))" using assms(1) by (simp add: stands_at_def at_def)
  then show ?thesis using gparsesD [OF assms(2), of g] assms(1) that by (simp add: stands_at_def)
qed

text \<open>What the server hands to the servant to write the results.\<close>

definition result_encoder :: "connection option \<Rightarrow> giop_encoder" where
  "result_encoder c = reply_encoder c 1 2"

lemma handle_request_dispatch:
  assumes "stands_at g en 2 rc args" and "servants o1 key = Some s" and "contexts o1 s = None"
    and "operation \<noteq> lit ''_is_a''"
  shows "handle_request h env o1 \<lparr>rq_requestId = rid, rq_responseExpected = re, rq_objectKey = key,
      rq_operation = operation\<rparr> g us =
    (let (out, us') = dispatch env s operation g (result_encoder rc) us
     in Inr (after_dispatch h \<lparr>rq_requestId = rid, rq_responseExpected = re, rq_objectKey = key,
      rq_operation = operation\<rparr> out, us'))"
  using assms by (simp add: handle_request_def stands_at_def dispatch_servant_def result_encoder_def Let_def split: prod.split)

lemma servant_answers:
  assumes "operation \<noteq> lit ''_is_a''" and "servants (norb sv) (stub_key st) = Some s" and "contexts (norb sv) s = None"
    and "gparses (\<lambda>_. True) (native (nhost cl)) rd v (\<lambda>g. g) args"
    and "gemits (\<lambda>_. True) wr (\<lambda>e. e) results"
    and "\<And>g e g' e'. rd g = Inr (v, g') \<Longrightarrow> wr e = Inr e' \<Longrightarrow>
      dispatch (nenv sv) s operation g e us = (Finished e', us')"
    and g: "stands_at g (native (nhost cl)) 2 (heard (Some c) sc) args"
  shows "handle_request (nhost sv) (nenv sv) (norb sv) (request_of st c operation) g us =
    Inr ([Send (reply_layout (native (nhost sv)) 1 2 (requestId c) NO_EXCEPTION results)], us')"
proof -
  let ?reply = "reply_layout (native (nhost sv)) 1 2 (requestId c) NO_EXCEPTION results"
  obtain g' where rd: "rd g = Inr (v, g')" using stands_at_reads [OF g assms(4)] .
  obtain e where e: "wr (result_encoder (heard (Some c) sc)) = Inr e"
    "finish_reply (nhost sv) (requestId c) NO_EXCEPTION e = ?reply"
    unfolding result_encoder_def by (rule reply_octets_layout [OF assms(5) TrueI])
  show ?thesis
    using handle_request_dispatch [OF g assms(2,3,1), of "nhost sv" "nenv sv" "requestId c" True us] assms(6) [OF rd e(1)] e(2)
    by (simp add: request_of_def after_dispatch_def servant_returned_def)
qed

text \<open>C3. A remote call returns what the servant returns: between machines of either byte order, for
  any object key, operation, arguments and results in CDR, the arguments the stub writes are
  the ones the servant reads, the servant is the one activated under the key, and the value
  the client decodes is the one the servant wrote.\<close>

theorem remote_call_returns:
  assumes "callable st c operation" and "operation \<noteq> lit ''_is_a''"
    and "gemits (\<lambda>_. True) encode (\<lambda>e. e) args" and "short args"
    and "servants (norb sv) (stub_key st) = Some s" and "contexts (norb sv) s = None"
    and "gparses (\<lambda>_. True) (native (nhost cl)) rd v (\<lambda>g. g) args"
    and "gemits (\<lambda>_. True) wr (\<lambda>e. e) results" and "short results"
    and "\<And>g e g' e'. rd g = Inr (v, g') \<Longrightarrow> wr e = Inr e' \<Longrightarrow>
      dispatch (nenv sv) s operation g e us = (Finished e', us')"
    and "gparses (\<lambda>_. True) (native (nhost sv)) decode w (\<lambda>g. g) results"
  shows "round_trip cl sv sc st operation encode decode uc us = (Value w, us')"
proof -
  have answer: "handle_request (nhost sv) (nenv sv) (norb sv) (request_of st c operation) g us =
      Inr ([Send (reply_layout (native (nhost sv)) 1 2 (requestId c) NO_EXCEPTION results)], us')"
    if "stands_at g (native (nhost cl)) 2 (heard (Some c) sc) args" for g
    by (rule servant_answers [OF assms(2,5,6,7,8,10) that])
  from round_trip_reply [OF assms(1,3,4) answer, where sc = sc and decode = decode and uc = uc] assms(9)
  obtain d where "replied d (native (nhost sv)) NO_EXCEPTION results"
    "round_trip cl sv sc st operation encode decode uc us =
      (call_end_of (twoway_value (nhost cl) (told (next_call c)) decode d), us')"
    by (auto simp: short_def reply_status_cast_def)
  then show ?thesis using value_returned [OF _ assms(11)] by simp
qed

section \<open>Calls that throw\<close>

text \<open>What the client makes of a body the server writes for a system exception.\<close>

lemma round_trip_exception:
  assumes "callable st c operation" and "gemits (\<lambda>_. True) encode (\<lambda>e. e) args" and "short args"
    and answer: "\<And>g. stands_at g (native (nhost cl)) 2 (heard (Some c) sc) args \<Longrightarrow>
      handle_request (nhost sv) (nenv sv) (norb sv) (request_of st c operation) g us =
        Inr ([Send (finish_reply (nhost sv) (requestId c) SYSTEM_EXCEPTION
          (on_buf body (result_encoder (heard (Some c) sc))))], us')"
    and "emits body results" and "length (results 24) < 2 ^ 30"
    and "gparses (\<lambda>_. True) (native (nhost sv)) (read_system_exception (nhost cl) (told (next_call c))) r (\<lambda>g. g) results"
    and "\<And>d. r \<noteq> Returned d"
  shows "round_trip cl sv sc st operation encode decode uc us = (Threw r, us')"
proof -
  have "handle_request (nhost sv) (nenv sv) (norb sv) (request_of st c operation) g us =
      Inr ([Send (reply_layout (native (nhost sv)) 1 2 (requestId c) SYSTEM_EXCEPTION results)], us')"
    if "stands_at g (native (nhost cl)) 2 (heard (Some c) sc) args" for g
    using answer [OF that] finish_reply_buf [OF assms(5)] by (simp add: result_encoder_def)
  from round_trip_reply [OF assms(1-3) this assms(6), where cl = cl and sc = sc and decode = decode and uc = uc]
  obtain d where d: "replied d (native (nhost sv)) SYSTEM_EXCEPTION results"
    "round_trip cl sv sc st operation encode decode uc us =
      (call_end_of (twoway_value (nhost cl) (told (next_call c)) decode d), us')"
    by (auto simp: reply_status_cast_def)
  then show ?thesis using value_threw [OF d(1) assms(7,8), of decode] d(2) by simp
qed

lemma length_system_exception: "length (cdr_system_exception en ex p) < 2 ^ 30"
proof -
  let ?p = "p + length (cdr_string en (rep_id (sclass ex)) p)"
  have "length (rep_id (sclass ex)) \<le> 60" by (cases "sclass ex") (simp_all add: rep_id.simps)
  then have "length (cdr_string en (rep_id (sclass ex)) p) \<le> 68"
    using length_layouts(3) [of en "rep_id (sclass ex)" p] by linarith
  then show ?thesis
    unfolding cdr_system_exception_def length_cdr_seq
    using length_layouts(1) [of en "sminor ex" ?p]
      length_layouts(1) [of en "completion_code (scompleted ex)" "?p + length (cdr_ulong en (sminor ex) ?p)"]
    by simp
qed

lemma length_generic_exception:
  assumes "length ty + length what < 2 ^ 29"
  shows "length (cdr_generic_exception en ty what p) < 2 ^ 30"
proof -
  let ?id = "lit ''IDL:mark13.org/CORBA/GENERIC:1.0''" and ?text = "lit ''IDL:'' @ ty @ lit '':1.0: '' @ what"
  let ?p = "p + length (cdr_string en ?id p)"
  let ?q = "?p + length (cdr_ulong en 0 ?p)"
  note length_layouts(3) [of en ?id p] length_layouts(1) [of en 0 ?p] length_layouts(1) [of en 0 ?q]
    length_layouts(3) [of en ?text "?q + length (cdr_ulong en 0 ?q)"]
  then show ?thesis
    unfolding cdr_generic_exception_def length_cdr_seq using assms by (simp del: lit_simps)
qed


text \<open>A user exception arrives as a user exception, without its members; any other \<open>std::exception\<close> as \<open>std::runtime_error\<close> with the name of its type and
  its text.\<close>

theorem remote_other_exceptions:
  assumes "callable st c operation" and "operation \<noteq> lit ''_is_a''"
    and "gemits (\<lambda>_. True) encode (\<lambda>e. e) args" and "short args"
    and "servants (norb sv) (stub_key st) = Some s" and "contexts (norb sv) s = None"
    and "\<And>g e. dispatch (nenv sv) s operation g e us =
      (Failed (if user then UserException else StdException ty what) e, us')"
    and "length ty + length what < 2 ^ 29"
  shows "round_trip cl sv sc st operation encode decode uc us =
    (if user then Threw ThrewUser else Threw (generic_at_client (told (next_call c)) ty what), us')"
proof (cases user)
  case True
  have "handle_request (nhost sv) (nenv sv) (norb sv) (request_of st c operation) g us =
      Inr ([Send (reply_layout (native (nhost sv)) 1 2 (requestId c) USER_EXCEPTION (cdr_raw []))], us')"
    if "stands_at g (native (nhost cl)) 2 (heard (Some c) sc) args" for g
    using handle_request_dispatch [OF that assms(5,6,2), of "nhost sv" "nenv sv" "requestId c" True us] assms(7) True
      finish_reply_layout [OF gemits_ok_id TrueI, of "heard (Some c) sc" 2 "result_encoder (heard (Some c) sc)"]
    by (simp add: request_of_def after_dispatch_def servant_threw_def result_encoder_def)
  from round_trip_reply [OF assms(1,3,4) this, where cl = cl and sc = sc and decode = decode and uc = uc] True
  show ?thesis by (auto simp: reply_status_cast_def value_user_exception)
next
  case False
  have "length (cdr_generic_exception (native (nhost sv)) ty what 24) < 2 ^ 30"
    using assms(8) by (rule length_generic_exception)
  moreover have "length ty + length what < 2 ^ 31" using assms(8) by simp
  ultimately show ?thesis
    using False
    by (intro trans [OF round_trip_exception [OF assms(1,3,4) _ emits_generic_exception _
          gparses_generic_exception [OF native_not_0]]])
       (simp_all add: handle_request_dispatch [OF _ assms(5,6,2)] assms(7,8) request_of_def after_dispatch_def
          servant_threw_def generic_at_client_def)
qed

text \<open>C25. A call to an object key nobody has activated throws \<open>OBJECT_NOT_EXIST\<close> at the client, with
  the minor code for an object that is not registered, completed \<open>NO\<close>; no servant runs.\<close>

theorem unknown_object:
  assumes "callable st c operation" and "gemits (\<lambda>_. True) encode (\<lambda>e. e) args" and "short args"
    and "servants (norb sv) (stub_key st) = None"
  shows "round_trip cl sv sc st operation encode decode uc us =
    (Threw (ThrewSystem \<lparr>sclass = OBJECT_NOT_EXIST, sminor = 0x4f4d0001, scompleted = NO\<rparr>), us)"
proof -
  let ?ex = "\<lparr>sclass = OBJECT_NOT_EXIST, sminor = 0x4f4d0001, scompleted = NO\<rparr>"
  have r: "thrown_at_client (told (next_call c)) ?ex = ThrewSystem ?ex" by (simp add: thrown_at_client_def)
  have body: "(\<lambda>b. writeUlong h (completion_code NO) (writeUlong h 0x4f4d0001
      (writeCString h (lit ''IDL:omg.org/CORBA/OBJECT_NOT_EXIST:1.0'') b))) = write_system_exception h ?ex" for h
    by (simp add: write_system_exception_def [abs_def] rep_id.simps del: lit_simps)
  have "handle_request (nhost sv) (nenv sv) (norb sv) (request_of st c operation) g us =
      Inr ([Send (finish_reply (nhost sv) (requestId c) SYSTEM_EXCEPTION
        (on_buf (write_system_exception (nhost sv) ?ex) (result_encoder (heard (Some c) sc))))], us)"
    if "stands_at g (native (nhost cl)) 2 (heard (Some c) sc) args" for g
    using that assms(4)
    by (simp only: body handle_request_def unknown_object_reply_def request_of_def stands_at_def result_encoder_def
        Let_def option.case RequestHeader.simps if_True)
  then show ?thesis
    by (rule round_trip_exception [OF assms(1-3) _ emits_system_exception length_system_exception
          gparses_system_exception [OF native_not_0, of _ _ "told (next_call c)" ?ex, unfolded r]]) simp_all
qed

lemma short_string: "length s < 2 ^ 28 \<Longrightarrow> short (cdr_string en s)"
  unfolding short_def
proof
  show "length (cdr_string en s p) < 2 ^ 30" if "length s < 2 ^ 28" for p
    using length_layouts(3) [of en s p] that by simp
qed

text \<open>\<open>_is_a\<close> is answered by the ORB itself: true exactly for the repository id of the servant's
  class, and the servant is not called.\<close>

theorem is_a_answered:
  assumes "callable st c (lit ''_is_a'')" and "length rid < 2 ^ 28"
    and "servants (norb sv) (stub_key st) = Some s"
  shows "round_trip cl sv sc st (lit ''_is_a'') (wr_ok (on_buf (writeString (nhost cl) rid))) (cdr readBoolean) uc us =
    (Value (rid = sk_rid (skels (norb sv) s)), us)"
proof -
  let ?args = "cdr_string (native (nhost cl)) rid" and ?b = "rid = sk_rid (skels (norb sv) s)"
  let ?res = "cdr_raw [if ?b then 1 else 0]"
  have args: "gemits (\<lambda>_. True) (wr_ok (on_buf (writeString (nhost cl) rid))) (\<lambda>e. e) ?args" "short ?args"
    using assms(2) by (simp_all add: gemits_buf emits_string short_string)
  have len: "length rid + 1 < 2 ^ 32" using assms(2) by simp
  have "handle_request (nhost sv) (nenv sv) (norb sv) (request_of st c (lit ''_is_a'')) g us =
      Inr ([Send (reply_layout (native (nhost sv)) 1 2 (requestId c) NO_EXCEPTION ?res)], us)"
    if g: "stands_at g (native (nhost cl)) 2 (heard (Some c) sc) ?args" for g
  proof -
    obtain g' where rd: "cdr (readStringView (nhost sv)) g = Inr (rid, g')"
      by (rule stands_at_reads [OF g gparses_cdr [OF parses_string(2) [OF len native_not_0]]])
    show ?thesis
      using rd assms(3) g finish_reply_buf [OF emits_boolean, of "nhost sv" "requestId c" NO_EXCEPTION ?b "heard (Some c) sc" 2]
      by (simp add: handle_request_def request_of_def stands_at_def Let_def del: lit_simps)
  qed
  from round_trip_reply [OF assms(1) args this, where cl = cl and sc = sc and decode = "cdr readBoolean" and uc = uc]
  obtain d where d: "replied d (native (nhost sv)) NO_EXCEPTION ?res"
    "round_trip cl sv sc st (lit ''_is_a'') (wr_ok (on_buf (writeString (nhost cl) rid))) (cdr readBoolean) uc us =
      (call_end_of (twoway_value (nhost cl) (told (next_call c)) (cdr readBoolean) d), us)"
    by (auto simp: reply_status_cast_def)
  then show ?thesis
    using value_returned [OF d(1) gparses_cdr [OF parses_boolean]] by simp
qed

section \<open>Oneway calls\<close>

definition silent :: "effect \<Rightarrow> bool" where
  "silent fx \<longleftrightarrow> (\<forall>bs. fx \<noteq> Send bs)"

lemma after_dispatch_silent:
  "\<not> rq_responseExpected rq \<Longrightarrow> fx \<in> set (after_dispatch h rq out) \<Longrightarrow> silent fx"
  by (cases out; simp add: after_dispatch_def silent_def servant_returned_def servant_threw_def split: thrown.splits)

lemma dispatch_silent:
  assumes "handle_request h env o1 rq g us = Inr (fxs, us')" and "\<not> rq_responseExpected rq"
    and "rq_operation rq \<noteq> lit ''_is_a''" and "fx \<in> set fxs"
  shows "silent fx"
  using assms after_dispatch_silent [OF assms(2)]
  by (auto simp: handle_request_def Let_def simp del: lit_simps split: option.splits sum.splits prod.splits)

lemma after_dispatch_awaits: "Awaiting rid re \<in> set (after_dispatch h rq out) \<Longrightarrow> re = rq_responseExpected rq"
  by (cases out; simp add: after_dispatch_def servant_returned_def servant_threw_def split: thrown.splits if_splits)

lemma dispatch_awaits:
  "handle_request h env o1 rq g us = Inr (fxs, us') \<Longrightarrow> Awaiting rid re \<in> set fxs \<Longrightarrow> re = rq_responseExpected rq"
  using after_dispatch_awaits [of rid re h rq]
  by (auto simp: handle_request_def Let_def simp del: lit_simps split: option.splits sum.splits prod.splits if_splits)

text \<open>What is sent back.\<close>

definition answers :: "error + connection option \<times> effect list \<times> 'u \<Rightarrow> bytes list" where
  "answers r = (case r of Inl err \<Rightarrow> []
     | Inr (_, fxs, _) \<Rightarrow> concat (map (\<lambda>fx. case fx of Send bs \<Rightarrow> [bs] | _ \<Rightarrow> []) fxs))"

text \<open>C33. A oneway call other than \<open>_is_a\<close>, which is answered even so, is not answered: not when the servant
  returns, not when it throws, not when there is no such object, and not when the servant suspends and returns
  later. (A servant that throws after it has suspended is undefined behaviour, oneway or not.)\<close>

theorem oneway_not_answered:
  assumes "callable st c operation" and "gemits (\<lambda>_. True) encode (\<lambda>e. e) args" and "short args"
    and "operation \<noteq> lit ''_is_a''"
  shows "\<exists>rid msg cc. onewayCall (nhost cl) st operation encode = Inr (rid, msg, cc) \<and>
    answers (receive sv (\<lambda>_. False) sc msg us) = [] \<and>
    (\<forall>sc' fx us' re e. receive sv (\<lambda>_. False) sc msg us = Inr (sc', fx, us') \<longrightarrow> Awaiting rid re \<in> set fx \<longrightarrow>
       resumed_returned (nhost sv) re rid e = Inr [])"
proof -
  let ?rid = "requestId c"
  let ?msg = "request_layout (native (nhost cl)) 1 2 (Some c) (stub_key st) operation ?rid False args"
  let ?rq = "\<lparr>rq_requestId = ?rid, rq_responseExpected = False, rq_objectKey = stub_key st, rq_operation = operation\<rparr>"
  have st': "stub_conn st = Some c" "sendable (Some c) (stub_key st) operation" using assms(1) by (simp_all add: callable_def)
  have len: "length ?msg < 2 ^ 32" using assms(1,3) by (intro request_fits) (simp_all add: callable_def short_def)
  have two: "(2 :: u32) < 256" by simp
  have call: "onewayCall (nhost cl) st operation encode = Inr (?rid, ?msg, Some (told (next_call c)))"
    using call_request_layout [OF st' assms(2)] by (simp add: onewayCall_def)
  obtain g where g: "receive sv (\<lambda>_. False) sc ?msg us =
      (case handle_request (nhost sv) (nenv sv) (norb sv) ?rq g us of
         Inl err \<Rightarrow> Inl err | Inr (fx, u') \<Rightarrow> Inr (heard (Some c) sc, fx, u'))"
    unfolding receive_def by (rule request_received [OF two st'(2) native_not_0 len])
  have "answers (receive sv (\<lambda>_. False) sc ?msg us) = []"
    using assms(4) dispatch_silent [of "nhost sv" "nenv sv" "norb sv"] unfolding g
    by (fastforce simp: silent_def answers_def simp del: lit_simps split: sum.splits prod.splits effect.splits)
  moreover have "\<not> re" if "receive sv (\<lambda>_. False) sc ?msg us = Inr (sc', fx, us')" "Awaiting ?rid re \<in> set fx" for sc' fx us' re
    using that dispatch_awaits [of "nhost sv" "nenv sv" "norb sv" ?rq g us fx] unfolding g by (auto split: sum.splits)
  ultimately show ?thesis using call
    by (intro exI [of _ ?rid] exI [of _ ?msg]) (auto simp: resumed_returned_def servant_returned_def)
qed

section \<open>The name service over the network\<close>

text \<open>Upper bounds of what is written, wherever it is.\<close>

definition at_most :: "nat \<Rightarrow> marshal \<Rightarrow> bool" where
  "at_most n f \<longleftrightarrow> (\<forall>p. length (f p) \<le> n)"

lemma at_most_seq: "at_most m f \<Longrightarrow> at_most n g \<Longrightarrow> at_most (m + n) (cdr_seq f g)"
  by (simp add: at_most_def add_mono)

lemma at_most_encaps:
  assumes "at_most n f"
  shows "at_most (n + 15) (cdr_encaps en type f)"
  unfolding at_most_def length_encaps
proof
  fix p
  define q where "q = p + length (cdr_ulong en type p)"
  have "length (cdr_ulong en type p) \<le> 7" "padding 4 q \<le> 3" "length (f (q + padding 4 q + 5)) \<le> n"
    using length_layouts(1) padding_less [of 4 q] assms by (auto simp: at_most_def)
  then show "length (cdr_ulong en type p) + padding 4 (p + length (cdr_ulong en type p)) + 5 +
      length (f (p + length (cdr_ulong en type p) + padding 4 (p + length (cdr_ulong en type p)) + 5)) \<le> n + 15"
    by (simp add: q_def)
qed

lemma at_most_reference:
  "at_most (length className + length (host a) + length key + 90) (cdr_reference en M m className a key)"
proof -
  have 1: "at_most (length className + 8) (cdr_string en className)" "at_most 7 (cdr_ulong en 1)"
    "at_most (length (host a) + length key + 20) (cdr_profile en M m a key)" "at_most 40 (cdr_components en M m)"
    using length_layouts(1,3) length_profile length_components by (simp_all add: at_most_def)
  show ?thesis
    using at_most_seq [OF 1(1) at_most_seq [OF 1(2) at_most_encaps [OF at_most_seq [OF 1(3,4)]]]]
    by (simp add: cdr_reference_def ac_simps)
qed

lemma heard_protocol: "protocol_local (the (heard c rc)) = protocol_local rc" "heard c rc \<noteq> None"
  by (cases c; simp add: heard_def renamed_def)+

text \<open>A name bound at the server is resolved by a client to a reference with the repository id of
  the servant, the listen address of the server and the object key of the servant.\<close>

theorem name_resolved:
  assumes "callable st c (lit ''resolve_str'')" and "length name < 2 ^ 28"
    and "servants (norb sv) (stub_key st) = Some ns" and "contexts (norb sv) ns = Some names"
    and "names name = Some (ServantRef obj)" and "protocol_local sc = Some a"
    and "length (sk_rid (skels (norb sv) obj)) + length (host a) + length (sk_key (skels (norb sv) obj)) < 2 ^ 28"
  shows "round_trip cl sv sc st (lit ''resolve_str'') (resolve_str_encode (nhost cl) name)
      (resolve_str_decode (nhost cl)) uc us =
    (Value \<lparr>oid = sk_rid (skels (norb sv) obj), ior_host = host a, ior_port = port a,
       objectKey = sk_key (skels (norb sv) obj)\<rparr>, us)"
proof -
  let ?args = "cdr_string (native (nhost cl)) name"
  let ?rid = "sk_rid (skels (norb sv) obj)" and ?key = "sk_key (skels (norb sv) obj)"
  let ?res = "cdr_reference (native (nhost sv)) 1 2 ?rid a ?key"
  obtain hc where hc: "heard (Some c) sc = Some hc" "protocol_local hc = Some a"
    using heard_protocol [of "Some c" sc] assms(6) by (cases "heard (Some c) sc") auto
  have args: "gemits (\<lambda>_. True) (resolve_str_encode (nhost cl) name) (\<lambda>e. e) ?args" "short ?args"
    using assms(2) by (simp_all add: resolve_str_encode_def gemits_buf emits_string short_string)
  have len: "length name + 1 < 2 ^ 32" using assms(2) by simp
  have "reach False hc = Some a" using hc(2) by (simp add: reach_def)
  note wr = gemits_reference [OF this, of 1 2 "nhost sv" ?rid ?key]
  have P: "enc_is 1 2 (Some hc) (reply_encoder (Some hc) 1 2)"
    using reply_encoder_frame [of "Some hc" 1 2]
    by (simp add: enc_is_def reply_encoder_def skipReplyHeader_def on_buf_def giop_enc_init_def)
  have answer: "handle_request (nhost sv) (nenv sv) (norb sv) (request_of st c (lit ''resolve_str'')) g us =
      Inr ([Send (reply_layout (native (nhost sv)) 1 2 (requestId c) NO_EXCEPTION ?res)], us)"
    if g: "stands_at g (native (nhost cl)) 2 (heard (Some c) sc) ?args" for g
  proof -
    obtain g' where rd: "cdr (readString (nhost sv)) g = Inr (name, g')"
      by (rule stands_at_reads [OF g gparses_cdr [OF parses_string(1) [OF len native_not_0]]])
    obtain e where e: "writeReference (nhost sv) ?rid ?key False (reply_encoder (Some hc) 1 2) = Inr e"
      "finish_reply (nhost sv) (requestId c) NO_EXCEPTION e = reply_layout (native (nhost sv)) 1 2 (requestId c) NO_EXCEPTION ?res"
      by (rule reply_octets_layout [OF wr P])
    have op: "lit ''resolve_str'' \<noteq> lit ''_is_a''" "lit ''resolve_str'' \<noteq> lit ''resolve''"
      by (simp_all del: lit_simps)
    have "naming_dispatch (nhost sv) (texts (nenv sv)) (skels (norb sv)) names (lit ''resolve_str'') g (reply_encoder (Some hc) 1 2) =
        Inr (Finished e)"
      using rd e(1) op(2) assms(5)
      by (simp add: naming_dispatch_def orb_resolve_str_def answer_resolve_def naming_resolve_def del: lit_simps)
    then show ?thesis
      using g assms(3,4) e(2) op(1) hc(1)
      by (simp add: handle_request_def request_of_def stands_at_def dispatch_servant_def after_dispatch_def
          servant_returned_def Let_def del: lit_simps)
  qed
  have "length (?res 24) \<le> length ?rid + length (host a) + length ?key + 90"
    using at_most_reference [of ?rid a ?key "native (nhost sv)" 1 2] by (simp add: at_most_def)
  then have "length (?res 24) < 2 ^ 30" using assms(7) by simp
  from round_trip_reply [OF assms(1) args answer this, where cl = cl and sc = sc and
      decode = "resolve_str_decode (nhost cl)" and uc = uc]
  obtain d where d: "replied d (native (nhost sv)) NO_EXCEPTION ?res"
    "round_trip cl sv sc st (lit ''resolve_str'') (resolve_str_encode (nhost cl) name) (resolve_str_decode (nhost cl)) uc us =
      (call_end_of (twoway_value (nhost cl) (told (next_call c)) (resolve_str_decode (nhost cl)) d), us)"
    by (auto simp: reply_status_cast_def)
  have "gparses (\<lambda>_. True) (native (nhost sv)) (resolve_str_decode (nhost cl))
      \<lparr>oid = ?rid, ior_host = host a, ior_port = port a, objectKey = ?key\<rparr> (\<lambda>g. g) ?res"
    unfolding resolve_str_decode_def by (rule gparses_readReference [OF native_not_0])
      (use assms(7) in \<open>simp_all add: dbuf_free_def referable_def fits_def\<close>)
  from value_returned [OF d(1) this] d(2) show ?thesis by simp
qed

section \<open>An example\<close>

text \<open>A server with one servant, which adds one to its argument and counts its calls.\<close>

definition sample_texts :: exception_texts where
  "sample_texts = \<lparr>type_name = (\<lambda>_. lit ''St13runtime_error''), what_text = (\<lambda>_. [])\<rparr>"

definition sample_dispatch ::
    "host \<Rightarrow> sref \<Rightarrow> bytes \<Rightarrow> giop_decoder \<Rightarrow> giop_encoder \<Rightarrow> nat \<Rightarrow> dispatch_outcome \<times> nat" where
  "sample_dispatch h s operation g e n =
     (if operation = lit ''next''
      then (case cdr (readUlong h) g of
              Inl err \<Rightarrow> (Failed UserException e, n)
            | Inr (v, _) \<Rightarrow> (Finished (on_buf (writeUlong h (v + 1)) e), Suc n))
      else if operation = lit ''refuse''
      then (Failed (SystemException \<lparr>sclass = BAD_PARAM, sminor = 3, scompleted = MAYBE\<rparr>) e, n)
      else if operation = lit ''exhaust''
      then (Failed (SystemException \<lparr>sclass = NO_RESOURCES, sminor = 0, scompleted = NO\<rparr>) e, n)
      else (Failed (StdException (lit ''E'') (lit ''x'')) e, n))"

definition sample_skeleton :: "bytes \<Rightarrow> bytes \<Rightarrow> skeleton" where
  "sample_skeleton rid key = \<lparr>sk_orb = True, sk_key = key, sk_rid = rid\<rparr>"

definition sample_orb :: orb where
  "sample_orb = \<lparr>skels = (\<lambda>s. if s = 0 then sample_skeleton naming_rid (lit ''NameService'')
                             else sample_skeleton (lit ''IDL:A:1.0'') (lit ''OID:1'')),
     contexts = (\<lambda>s. if s = 0 then Some [lit ''Backend'' \<mapsto> ServantRef 1] else None),
     servants = [lit ''NameService'' \<mapsto> 0, lit ''OID:1'' \<mapsto> 1], servantIdCounter = 1, namingService = Some 0\<rparr>"

definition sample_node :: "host \<Rightarrow> nat node" where
  "sample_node h = \<lparr>nhost = h, nenv = \<lparr>dispatch = sample_dispatch h, texts = sample_texts\<rparr>, norb = sample_orb,
     nmem = sample_decoder\<rparr>"

definition sample_stub :: "bytes \<Rightarrow> stub" where
  "sample_stub key = \<lparr>stub_key = key, stub_conn = Some sample_connection\<rparr>"

lemma sample_callable: "length key + length operation < 100 \<Longrightarrow> callable (sample_stub key) sample_connection operation"
  by (simp add: callable_def sample_stub_def sendable_def fits_def sample_connection_def conn_init_def listen_host_def)

lemma short_ulong: "short (cdr_ulong en v)"
  unfolding short_def
proof
  show "length (cdr_ulong en v p) < 2 ^ 30" for p using length_layouts(1) [of en v p] by simp
qed

lemmas sample_simps = sample_node_def sample_orb_def sample_stub_def sample_dispatch_def sample_skeleton_def

lemma gparses_ulong: "gparses P (native h) (cdr (readUlong h')) v (\<lambda>g. g) (cdr_ulong (native h) v)"
  by (intro gparses_cdr parses_words) simp

theorem remote_call_returns_witness:
  "round_trip (sample_node LE) (sample_node BE) sample_connection (sample_stub (lit ''OID:1'')) (lit ''next'')
     (wr_ok (on_buf (writeUlong LE 41))) (cdr (readUlong LE)) 0 7 = (Value 42, 8)"
proof (rule remote_call_returns [where c = sample_connection and s = 1 and args = "cdr_ulong (native LE) 41" and
      rd = "cdr (readUlong BE)" and v = 41 and wr = "wr_ok (on_buf (writeUlong BE 42))" and results = "cdr_ulong (native BE) 42"])
  show "gparses (\<lambda>_. True) (native (nhost (sample_node LE))) (cdr (readUlong BE)) 41 (\<lambda>g. g) (cdr_ulong (native LE) 41)"
    "gparses (\<lambda>_. True) (native (nhost (sample_node BE))) (cdr (readUlong LE)) 42 (\<lambda>g. g) (cdr_ulong (native BE) 42)"
    by (simp_all add: sample_node_def gparses_ulong del: native.simps)
qed (simp_all add: sample_simps sample_callable [unfolded sample_stub_def] sample_args short_ulong del: native.simps)

lemma sample_local: "protocol_local sample_connection = Some \<lparr>host = lit ''backend'', port = 2809\<rparr>"
  by (simp add: sample_connection_def conn_init_def)

lemmas sample_call = sample_callable [unfolded sample_stub_def] sample_args short_ulong


theorem remote_other_exceptions_witness:
  "round_trip (sample_node LE) (sample_node BE) sample_connection (sample_stub (lit ''OID:1'')) (lit ''fail'')
     (wr_ok (on_buf (writeUlong LE 41))) (cdr (readUlong LE)) 0 7 =
   (if False then Threw ThrewUser
    else Threw (generic_at_client (told (next_call sample_connection)) (lit ''E'') (lit ''x'')), 7)"
  by (rule remote_other_exceptions [where s = 1 and args = "cdr_ulong (native LE) 41" and user = False])
     (simp_all add: sample_simps sample_call del: native.simps)

theorem unknown_object_witness:
  "round_trip (sample_node LE) (sample_node BE) sample_connection (sample_stub (lit ''OID:2'')) (lit ''next'')
     (wr_ok (on_buf (writeUlong LE 41))) (cdr (readUlong LE)) 0 7 =
   (Threw (ThrewSystem \<lparr>sclass = OBJECT_NOT_EXIST, sminor = 0x4f4d0001, scompleted = NO\<rparr>), 7)"
  by (rule unknown_object [where c = sample_connection and args = "cdr_ulong (native LE) 41"])
     (simp_all add: sample_simps sample_call del: native.simps)

theorem is_a_answered_witness:
  "round_trip (sample_node LE) (sample_node BE) sample_connection (sample_stub (lit ''OID:1'')) (lit ''_is_a'')
     (wr_ok (on_buf (writeString (nhost (sample_node LE)) (lit ''IDL:B:1.0'')))) (cdr readBoolean) 0 7 =
   (Value (lit ''IDL:B:1.0'' = sk_rid (skels (norb (sample_node BE)) 1)), 7)"
  by (rule is_a_answered [where c = sample_connection])
     (simp_all add: sample_simps sample_call del: native.simps)

theorem oneway_not_answered_witness:
  "\<exists>rid msg cc. onewayCall (nhost (sample_node LE)) (sample_stub (lit ''OID:1'')) (lit ''next'')
       (wr_ok (on_buf (writeUlong LE 41))) = Inr (rid, msg, cc) \<and>
    answers (receive (sample_node BE) (\<lambda>_. False) sample_connection msg 0) = []"
proof -
  have "callable (sample_stub (lit ''OID:1'')) sample_connection (lit ''next'')" "(lit ''next'') \<noteq> lit ''_is_a''"
    by (simp_all add: sample_callable)
  from oneway_not_answered [OF this(1) sample_args short_ulong this(2), where cl = "sample_node LE" and sv = "sample_node BE" and
      sc = sample_connection and us = 0]
  show ?thesis by blast
qed

theorem name_resolved_witness:
  "round_trip (sample_node LE) (sample_node BE) sample_connection (sample_stub (lit ''NameService'')) (lit ''resolve_str'')
     (resolve_str_encode (nhost (sample_node LE)) (lit ''Backend'')) (resolve_str_decode (nhost (sample_node LE))) 0 7 =
   (Value \<lparr>oid = sk_rid (skels (norb (sample_node BE)) 1), ior_host = host \<lparr>host = lit ''backend'', port = 2809\<rparr>,
      ior_port = port \<lparr>host = lit ''backend'', port = 2809\<rparr>,
      objectKey = sk_key (skels (norb (sample_node BE)) 1)\<rparr>, 7)"
  by (rule name_resolved [where c = sample_connection and ns = 0 and names = "[lit ''Backend'' \<mapsto> ServantRef 1]"])
     (simp_all add: sample_simps sample_call sample_local del: native.simps)

end
