(* ===== verification/Remote_Calls.thy ===== *)
theory Remote_Calls
  imports ORB_Properties
begin

text \<open>
  One call of many over a connection: what its stub and its servant do, when both sides fit together, and
  what each end makes of its request and of its reply (\<open>twowayCall\<close>, \<open>_twowayCall\<close> and \<open>socketRcvd\<close> of orb.cc),
  whatever else the connection carries. The call may end with a value or with an exception, thrown by
  the servant or by the ORB that knows no such object.
\<close>

section \<open>Calls and how they end\<close>

text \<open>
  How a servant ends a call that is answered: it returns, or throws an exception that the ORB puts
  into the reply. What is no \<open>std::exception\<close> is not answered.
\<close>

datatype 'w ending =
    Returns 'w
  | RaisesSystem system_exception
  | RaisesUser
  | RaisesStd bytes bytes

fun raised :: "'w ending \<Rightarrow> thrown option" where
  "raised (Returns w) = None"
| "raised (RaisesSystem ex) = Some (SystemException ex)"
| "raised RaisesUser = Some UserException"
| "raised (RaisesStd ty what) = Some (StdException ty what)"

fun ending_status :: "'w ending \<Rightarrow> ReplyStatus" where
  "ending_status (Returns w) = NO_EXCEPTION"
| "ending_status (RaisesSystem ex) = SYSTEM_EXCEPTION"
| "ending_status RaisesUser = USER_EXCEPTION"
| "ending_status (RaisesStd ty what) = SYSTEM_EXCEPTION"

text \<open>The body of the reply, where \<open>results\<close> is what a servant that returns has written.\<close>

fun ending_body :: "endian \<Rightarrow> marshal \<Rightarrow> 'w ending \<Rightarrow> marshal" where
  "ending_body en results (Returns w) = results"
| "ending_body en results (RaisesSystem ex) = cdr_system_exception en ex"
| "ending_body en results RaisesUser = cdr_raw []"
| "ending_body en results (RaisesStd ty what) = cdr_generic_exception en ty what"

text \<open>What the call returns or throws at the client, over the connection \<open>c\<close>.\<close>

fun at_client :: "connection \<Rightarrow> 'w ending \<Rightarrow> call_result + 'w" where
  "at_client c (Returns w) = Inr w"
| "at_client c (RaisesSystem ex) = Inl (thrown_at_client c ex)"
| "at_client c RaisesUser = Inl ThrewUser"
| "at_client c (RaisesStd ty what) = Inl (generic_at_client c ty what)"

text \<open>\<open>P\<close> of the value that is returned; the text of an exception is not too long.\<close>

fun ending_ok :: "('w \<Rightarrow> bool) \<Rightarrow> 'w ending \<Rightarrow> bool" where
  "ending_ok P (Returns w) \<longleftrightarrow> P w"
| "ending_ok P (RaisesStd ty what) \<longleftrightarrow> length ty + length what < 2 ^ 29"
| "ending_ok P e \<longleftrightarrow> True"

text \<open>
  A call: what the stub and the servant do, and what is meant by it. \<open>rencode\<close> and \<open>rdecode\<close> are the
  code of the stub, \<open>rread\<close> and \<open>rwrite\<close> that of the servant, \<open>rwrite\<close> and \<open>rresults\<close> for one that
  returns.
\<close>

record ('v, 'w) remote_call =
  rkey :: bytes
  roperation :: bytes
  rencode :: "giop_encoder writer"
  rdecode :: "'w giop_reader"
  rread :: "'v giop_reader"
  rwrite :: "giop_encoder writer"
  rargs :: marshal
  rargument :: 'v
  rresults :: marshal
  rends :: "'w ending"

definition stub_of :: "('v, 'w) remote_call \<Rightarrow> connection \<Rightarrow> stub" where
  "stub_of k c = \<lparr>stub_key = rkey k, stub_conn = Some c\<rparr>"

section \<open>The connection of the client\<close>

text \<open>The connection when the \<open>i\<close>th call is made.\<close>

definition conn_at :: "connection \<Rightarrow> nat \<Rightarrow> connection" where
  "conn_at c i = (if i = 0 then c else (told c)\<lparr>requestId := requestId c + 2 * of_nat i\<rparr>)"

lemma requestId_conn_at [simp]: "requestId (conn_at c i) = requestId c + 2 * of_nat i"
  by (simp add: conn_at_def)

lemma conn_at_Suc: "told (next_call (conn_at c i)) = conn_at c (Suc i)"
  by (simp add: conn_at_def told_def next_call_def)

lemma request_ids_differ:
  assumes "i < 2 ^ 31" and "j < 2 ^ 31" and "requestId (conn_at c i) = requestId (conn_at c j)"
  shows "i = j"
proof -
  have "(of_nat (2 * i) :: u32) = of_nat (2 * j)" using assms(3) by simp
  then have "2 * i mod 2 ^ 32 = 2 * j mod 2 ^ 32" unfolding word_of_nat_eq_iff by (simp add: take_bit_eq_mod)
  then show ?thesis using assms(1,2) by simp
qed

lemma at_client_conn_at [simp]: "at_client (conn_at c i) w = at_client c w"
  by (cases w) (simp_all add: conn_at_def told_def thrown_at_client_def generic_at_client_def Connection_str_def split: option.split)

lemma callable_conn_at:
  assumes "callable (stub_of k c) c operation"
  shows "callable (stub_of k (conn_at c i)) (conn_at c i) operation"
  using assms by (auto simp: callable_def stub_of_def conn_at_def told_def sendable_def listen_host_def)

section \<open>Two sides that fit together\<close>

text \<open>
  A call whose two sides fit together: as for a single call, with a servant that writes its
  result at once, suspends and writes it later, or throws before it has written anything. The ORB itself
  answers when there is no such object, and when the operation is \<open>_is_a\<close>.
\<close>

definition dispatched_as :: "('v, 'w) remote_call \<Rightarrow> giop_encoder \<Rightarrow> dispatch_outcome \<Rightarrow> bool" where
  "dispatched_as k e out \<longleftrightarrow>
     (case raised (rends k) of
        None \<Rightarrow> out = Suspended \<or> (\<exists>e'. rwrite k e = Inr e' \<and> out = Finished e')
      | Some ex \<Rightarrow> out = Failed ex e)"

definition no_such_object :: system_exception where
  "no_such_object = \<lparr>sclass = OBJECT_NOT_EXIST, sminor = 0x4f4d0001, scompleted = NO\<rparr>"

definition returns :: "('v, 'w) remote_call \<Rightarrow> bool" where
  "returns k \<longleftrightarrow> raised (rends k) = None"

lemma returns_cases: "returns k \<Longrightarrow> \<exists>w. rends k = Returns w"
  by (cases "rends k") (simp_all add: returns_def)

definition served :: "'c node \<Rightarrow> 's node \<Rightarrow> ('v, 'w) remote_call \<Rightarrow> bool" where
  "served cl sv k \<longleftrightarrow>
     (case servants (norb sv) (rkey k) of
        None \<Rightarrow> rends k = RaisesSystem no_such_object
      | Some s \<Rightarrow>
          if roperation k = lit ''_is_a''
          then returns k \<and>
            (\<exists>rid. gparses (\<lambda>_. True) (native (nhost cl)) (cdr (readStringView (nhost sv))) rid (\<lambda>g. g) (rargs k) \<and>
               rresults k = cdr_raw [if rid = sk_rid (skels (norb sv) s) then 1 else 0])
          else \<forall>g g' e us. rread k g = Inr (rargument k, g') \<longrightarrow>
            (\<exists>out us'. dispatch_servant (nhost sv) (nenv sv) (norb sv) s (roperation k) g e us = Inr (out, us') \<and>
               dispatched_as k e out))"

definition matched :: "'c node \<Rightarrow> 's node \<Rightarrow> connection \<Rightarrow> ('v, 'w) remote_call \<Rightarrow> bool" where
  "matched cl sv c k \<longleftrightarrow>
     callable (stub_of k c) c (roperation k) \<and> served cl sv k \<and>
     gemits (\<lambda>_. True) (rencode k) (\<lambda>e. e) (rargs k) \<and> short (rargs k) \<and>
     gparses (\<lambda>_. True) (native (nhost cl)) (rread k) (rargument k) (\<lambda>g. g) (rargs k) \<and>
     ending_ok (\<lambda>w. gemits (\<lambda>_. True) (rwrite k) (\<lambda>e. e) (rresults k) \<and> short (rresults k) \<and>
       gparses (\<lambda>_. True) (native (nhost sv)) (rdecode k) w (\<lambda>g. g) (rresults k)) (rends k)"

lemma matched_parts:
  assumes "matched cl sv c k"
  shows "callable (stub_of k c) c (roperation k)" "served cl sv k"
    "gemits (\<lambda>_. True) (rencode k) (\<lambda>e. e) (rargs k)" "short (rargs k)"
    "gparses (\<lambda>_. True) (native (nhost cl)) (rread k) (rargument k) (\<lambda>g. g) (rargs k)"
    "ending_ok (\<lambda>w. gemits (\<lambda>_. True) (rwrite k) (\<lambda>e. e) (rresults k) \<and> short (rresults k) \<and>
       gparses (\<lambda>_. True) (native (nhost sv)) (rdecode k) w (\<lambda>g. g) (rresults k)) (rends k)"
  using assms unfolding matched_def by blast+

definition request_at :: "'c node \<Rightarrow> (nat \<Rightarrow> ('v, 'w) remote_call) \<Rightarrow> connection \<Rightarrow> nat \<Rightarrow> bytes" where
  "request_at cl calls c i = request_octets_of cl (stub_of (calls i) (conn_at c i)) (conn_at c i) (roperation (calls i)) (rargs (calls i))"

definition reply_at :: "'s node \<Rightarrow> (nat \<Rightarrow> ('v, 'w) remote_call) \<Rightarrow> connection \<Rightarrow> nat \<Rightarrow> bytes" where
  "reply_at sv calls c i = reply_octets_of sv (conn_at c i) (ending_status (rends (calls i)))
     (ending_body (native (nhost sv)) (rresults (calls i)) (rends (calls i)))"

section \<open>What happens to a call at each end\<close>

lemma call_outcome:
  assumes "matched cl sv c (calls i)"
  shows "twowayCall (nhost cl) (stub_of (calls i) (conn_at c i)) (roperation (calls i)) (rencode (calls i)) =
    Inr (requestId (conn_at c i), request_at cl calls c i, Some (conn_at c (Suc i)))"
  using request_sent [OF callable_conn_at [OF matched_parts(1) [OF assms]] matched_parts(3) [OF assms]]
  by (simp only: request_at_def conn_at_Suc)

lemma finish_outcome:
  assumes "matched cl sv c (calls i)" and "returns (calls i)"
  obtains e where "rwrite (calls i) (result_encoder rc) = Inr e"
    and "finish_reply (nhost sv) (requestId (conn_at c i)) NO_EXCEPTION e = reply_at sv calls c i"
proof -
  obtain w where w: "rends (calls i) = Returns w" using returns_cases [OF assms(2)] ..
  then have "gemits (\<lambda>_. True) (rwrite (calls i)) (\<lambda>e. e) (rresults (calls i))" using matched_parts(6) [OF assms(1)] by simp
  then show thesis using that w
    unfolding result_encoder_def reply_at_def reply_octets_of_def
    by (auto intro: reply_octets_layout [OF _ TrueI])
qed

text \<open>The reply to a call whose servant has thrown.\<close>

lemma threw_outcome:
  assumes "raised (rends (calls i)) = Some ex"
  shows "servant_threw (nhost sv) True (requestId (conn_at c i)) ex (result_encoder rc) = [Send (reply_at sv calls c i)]"
proof -
  note bodies = finish_reply_buf [OF emits_system_exception, where c = rc and m = 2]
    finish_reply_buf [OF emits_generic_exception, where c = rc and m = 2]
    finish_reply_layout [OF gemits_ok_id TrueI wr_ok_def, where c = rc and m = 2]
  show ?thesis
    using assms by (cases "rends (calls i)")
      (auto simp: servant_threw_def reply_at_def reply_octets_of_def result_encoder_def bodies)
qed

lemma after_dispatched:
  assumes "matched cl sv c (calls i)" and "dispatched_as (calls i) (result_encoder rc) out"
    and "rq_responseExpected rq" and "rq_requestId rq = requestId (conn_at c i)"
  shows "after_dispatch (nhost sv) rq out = [Send (reply_at sv calls c i)] \<or>
    after_dispatch (nhost sv) rq out = [Awaiting (requestId (conn_at c i)) True] \<and> returns (calls i)"
proof (cases "raised (rends (calls i))")
  case None
  then have "returns (calls i)" by (simp add: returns_def)
  then obtain e where "rwrite (calls i) (result_encoder rc) = Inr e"
    "finish_reply (nhost sv) (requestId (conn_at c i)) NO_EXCEPTION e = reply_at sv calls c i"
    by (rule finish_outcome [where calls = calls and i = i, OF assms(1)])
  then show ?thesis using assms(2-4) None \<open>returns (calls i)\<close>
    by (auto simp: dispatched_as_def after_dispatch_def servant_returned_def)
next
  case (Some ex)
  have "servant_threw (nhost sv) True (requestId (conn_at c i)) ex (result_encoder rc) = [Send (reply_at sv calls c i)]"
    by (rule threw_outcome [where calls = calls and i = i, OF Some])
  then show ?thesis using assms(2-4) Some by (simp del: requestId_conn_at add: dispatched_as_def after_dispatch_def)
qed

text \<open>
  The server has done what a call asks for: its servant has been run, with the argument of the call. A call
  that the ORB answers itself changes nothing.
\<close>

definition executed :: "'s node \<Rightarrow> ('v, 'w) remote_call \<Rightarrow> 's \<Rightarrow> 's \<Rightarrow> bool" where
  "executed sv k us us' \<longleftrightarrow>
     (case servants (norb sv) (rkey k) of
        None \<Rightarrow> us' = us
      | Some s \<Rightarrow>
          if roperation k = lit ''_is_a'' then us' = us
          else \<exists>g g' e out. rread k g = Inr (rargument k, g') \<and>
            dispatch_servant (nhost sv) (nenv sv) (norb sv) s (roperation k) g e us = Inr (out, us'))"

text \<open>The request of a call, as the server sees it, and what it makes of it in each case.\<close>

definition asked_for :: "connection \<Rightarrow> ('v, 'w) remote_call \<Rightarrow> RequestHeader" where
  "asked_for c k = \<lparr>rq_requestId = requestId c, rq_responseExpected = True, rq_objectKey = rkey k, rq_operation = roperation k\<rparr>"

lemma asked_for_simps [simp]:
  "rq_requestId (asked_for c k) = requestId c" "rq_responseExpected (asked_for c k)"
  "rq_objectKey (asked_for c k) = rkey k" "rq_operation (asked_for c k) = roperation k"
  by (simp_all add: asked_for_def)

lemma stands_at_encoder: "stands_at g en 2 rc args \<Longrightarrow> reply_encoder (dconn g) (dmajor g) (dminor g) = result_encoder rc"
  by (simp add: stands_at_def result_encoder_def)

lemma unknown_handled:
  assumes "matched cl sv c (calls i)" and g: "stands_at g en 2 rc args" and "servants (norb sv) (rkey (calls i)) = None"
  shows "handle_request (nhost sv) (nenv sv) (norb sv) (asked_for (conn_at c i) (calls i)) g us =
    Inr ([Send (reply_at sv calls c i)], us)"
proof -
  have body: "(\<lambda>b. writeUlong h (completion_code NO) (writeUlong h 0x4f4d0001
      (writeCString h (lit ''IDL:omg.org/CORBA/OBJECT_NOT_EXIST:1.0'') b))) = write_system_exception h no_such_object" for h
    by (simp add: write_system_exception_def [abs_def] no_such_object_def rep_id.simps del: lit_simps)
  have "rends (calls i) = RaisesSystem no_such_object" using matched_parts(2) [OF assms(1)] assms(3) by (simp add: served_def)
  then have "reply_at sv calls c i = unknown_object_reply (nhost sv) (requestId (conn_at c i)) (result_encoder rc)"
    unfolding unknown_object_reply_def body reply_at_def reply_octets_of_def result_encoder_def
    by (simp add: finish_reply_buf [OF emits_system_exception] del: requestId_conn_at)
  then show ?thesis using assms(3)
    by (simp add: handle_request_def stands_at_encoder [OF g] Let_def del: requestId_conn_at)
qed

lemma is_a_handled:
  assumes "matched cl sv c (calls i)" and g: "stands_at g (native (nhost cl)) 2 rc (rargs (calls i))"
    and s: "servants (norb sv) (rkey (calls i)) = Some s" and op: "roperation (calls i) = lit ''_is_a''"
  shows "handle_request (nhost sv) (nenv sv) (norb sv) (asked_for (conn_at c i) (calls i)) g us =
    Inr ([Send (reply_at sv calls c i)], us)"
proof -
  obtain rid where rid: "gparses (\<lambda>_. True) (native (nhost cl)) (cdr (readStringView (nhost sv))) rid (\<lambda>g. g) (rargs (calls i))"
    "rresults (calls i) = cdr_raw [if rid = sk_rid (skels (norb sv) s) then 1 else 0]" and "returns (calls i)"
    using matched_parts(2) [OF assms(1)] s op by (auto simp: served_def)
  then obtain w where w: "rends (calls i) = Returns w" using returns_cases by blast
  obtain g' where rd: "cdr (readStringView (nhost sv)) g = Inr (rid, g')" by (rule stands_at_reads [OF g rid(1)])
  have "reply_at sv calls c i = finish_reply (nhost sv) (requestId (conn_at c i)) NO_EXCEPTION
      (on_buf (writeBoolean (rid = sk_rid (skels (norb sv) s))) (result_encoder rc))"
    unfolding reply_at_def reply_octets_of_def result_encoder_def finish_reply_buf [OF emits_boolean] w rid(2) by simp
  then show ?thesis using s op rd
    by (simp add: handle_request_def stands_at_encoder [OF g] Let_def del: requestId_conn_at lit_simps)
qed

lemma servant_handled:
  assumes "matched cl sv c (calls i)" and g: "stands_at g (native (nhost cl)) 2 rc (rargs (calls i))"
    and s: "servants (norb sv) (rkey (calls i)) = Some s" and op: "roperation (calls i) \<noteq> lit ''_is_a''"
  shows "\<exists>fx us'. handle_request (nhost sv) (nenv sv) (norb sv) (asked_for (conn_at c i) (calls i)) g us = Inr (fx, us') \<and>
    (fx = [Send (reply_at sv calls c i)] \<or> fx = [Awaiting (requestId (conn_at c i)) True] \<and> returns (calls i)) \<and>
    executed sv (calls i) us us'"
proof -
  let ?k = "calls i" and ?e = "result_encoder rc"
  obtain g' where rd: "rread ?k g = Inr (rargument ?k, g')" by (rule stands_at_reads [OF g matched_parts(5) [OF assms(1)]])
  have "\<forall>g g' e us. rread ?k g = Inr (rargument ?k, g') \<longrightarrow>
      (\<exists>out us'. dispatch_servant (nhost sv) (nenv sv) (norb sv) s (roperation ?k) g e us = Inr (out, us') \<and> dispatched_as ?k e out)"
    using matched_parts(2) [OF assms(1)] s op by (simp add: served_def del: lit_simps)
  then obtain out us' where out: "dispatch_servant (nhost sv) (nenv sv) (norb sv) s (roperation ?k) g ?e us = Inr (out, us')"
    "dispatched_as ?k ?e out" using rd by blast
  have "handle_request (nhost sv) (nenv sv) (norb sv) (asked_for (conn_at c i) ?k) g us =
      Inr (after_dispatch (nhost sv) (asked_for (conn_at c i) ?k) out, us')"
    using s op out(1) by (simp add: handle_request_def stands_at_encoder [OF g] Let_def del: requestId_conn_at lit_simps)
  moreover have "after_dispatch (nhost sv) (asked_for (conn_at c i) ?k) out = [Send (reply_at sv calls c i)] \<or>
      after_dispatch (nhost sv) (asked_for (conn_at c i) ?k) out = [Awaiting (requestId (conn_at c i)) True] \<and> returns ?k"
    by (rule after_dispatched [where calls = calls and i = i, OF assms(1) out(2)]) simp_all
  moreover have "executed sv ?k us us'" using s op rd out(1) by (auto simp: executed_def simp del: lit_simps)
  ultimately show ?thesis by blast
qed

lemma request_handled:
  assumes "matched cl sv c (calls i)" and g: "stands_at g (native (nhost cl)) 2 rc (rargs (calls i))"
  shows "\<exists>fx us'. handle_request (nhost sv) (nenv sv) (norb sv) (asked_for (conn_at c i) (calls i)) g us = Inr (fx, us') \<and>
    (fx = [Send (reply_at sv calls c i)] \<or> fx = [Awaiting (requestId (conn_at c i)) True] \<and> returns (calls i)) \<and>
    executed sv (calls i) us us'"
proof (cases "servants (norb sv) (rkey (calls i))")
  case None
  then show ?thesis using unknown_handled [where calls = calls and i = i, OF assms] by (simp add: executed_def)
next
  case (Some s)
  show ?thesis
  proof (cases "roperation (calls i) = lit ''_is_a''")
    case True
    then have "executed sv (calls i) us us" using Some by (simp add: executed_def)
    then show ?thesis using is_a_handled [where calls = calls and i = i, OF assms Some True] by blast
  next
    case False
    then show ?thesis by (rule servant_handled [where calls = calls and i = i, OF assms Some])
  qed
qed

lemma serve_outcome:
  assumes "matched cl sv c (calls i)"
  shows "\<exists>sc' fx us'. receive sv (\<lambda>_. False) sc (request_at cl calls c i) us = Inr (sc', fx, us') \<and>
    (fx = [Send (reply_at sv calls c i)] \<or> fx = [Awaiting (requestId (conn_at c i)) True] \<and> returns (calls i)) \<and>
    executed sv (calls i) us us'"
proof -
  let ?k = "calls i" and ?c = "conn_at c i"
  note k = matched_parts [OF assms]
  have st: "callable (stub_of ?k ?c) ?c (roperation ?k)" by (rule callable_conn_at [OF k(1)])
  then have st': "sendable (Some ?c) (rkey ?k) (roperation ?k)" by (simp add: callable_def stub_of_def)
  have two: "(2 :: u32) < 256" by simp
  obtain g where g: "stands_at g (native (nhost cl)) 2 (heard (Some ?c) sc) (rargs ?k)"
    "receive sv (\<lambda>_. False) sc (request_at cl calls c i) us =
      (case handle_request (nhost sv) (nenv sv) (norb sv) (asked_for ?c ?k) g us of
         Inl err \<Rightarrow> Inl err | Inr (fx, u') \<Rightarrow> Inr (heard (Some ?c) sc, fx, u'))"
    unfolding receive_def request_at_def request_octets_of_def stub_of_def stub.simps asked_for_def
    by (rule request_received [OF two st' native_not_0
          length_request_octets_of [OF st k(4), unfolded request_octets_of_def stub_of_def stub.simps]])
  obtain fx us' where fx: "handle_request (nhost sv) (nenv sv) (norb sv) (asked_for ?c ?k) g us = Inr (fx, us')"
    "fx = [Send (reply_at sv calls c i)] \<or> fx = [Awaiting (requestId ?c) True] \<and> returns ?k" "executed sv ?k us us'"
    using request_handled [where calls = calls and i = i, OF assms g(1)] by blast
  show ?thesis unfolding g(2) fx(1) sum.case prod.case using fx(2,3) by blast
qed

lemma ending_seen:
  assumes "matched cl sv c (calls i)" and "replied d (native (nhost sv)) (ending_status (rends (calls i)))
      (ending_body (native (nhost sv)) (rresults (calls i)) (rends (calls i)))"
  shows "twoway_value h cc (rdecode (calls i)) d = Inr (at_client cc (rends (calls i)))"
proof (cases "rends (calls i)")
  case (Returns w)
  then have "gparses (\<lambda>_. True) (native (nhost sv)) (rdecode (calls i)) w (\<lambda>g. g) (rresults (calls i))"
    using matched_parts(6) [OF assms(1)] by simp
  from value_returned [OF _ this] assms(2) Returns show ?thesis by simp
next
  case (RaisesSystem ex)
  have "thrown_at_client cc ex \<noteq> Returned d'" for d' by (simp add: thrown_at_client_def)
  from value_threw [OF _ gparses_system_exception [OF native_not_0] this] assms(2) RaisesSystem show ?thesis by simp
next
  case RaisesUser
  then show ?thesis using assms(2) value_user_exception by fastforce
next
  case (RaisesStd ty what)
  then have "length ty + length what < 2 ^ 31" using matched_parts(6) [OF assms(1)] by simp
  moreover have "generic_at_client cc ty what \<noteq> Returned d'" for d' by (simp add: generic_at_client_def)
  ultimately show ?thesis
    using value_threw [OF _ gparses_generic_exception [OF native_not_0], of d "nhost sv" ty what cc h "rdecode (calls i)"] assms(2) RaisesStd
    by simp
qed

lemma reply_short:
  assumes "matched cl sv c k"
  shows "length (ending_body (native (nhost sv)) (rresults k) (rends k) 24) < 2 ^ 30"
  using matched_parts(6) [OF assms] length_system_exception length_generic_exception
  by (cases "rends k") (auto simp: short_def cdr_raw_def)

lemma ending_status_cast: "reply_status_cast (reply_status_code (ending_status w)) = ending_status w"
  by (cases w) (simp_all add: reply_status_cast_def)

lemma arrive_outcome:
  assumes "matched cl sv c (calls i)"
  obtains d where "receive cl waiting cc (reply_at sv calls c i) uc = 
      Inr (Some cc, if waiting (requestId (conn_at c i)) then [Resume (requestId (conn_at c i)) d] else [], uc)"
    and "twoway_value h cc' (rdecode (calls i)) d = Inr (at_client cc' (rends (calls i)))"
proof -
  have two: "(2 :: u32) < 256" by simp
  obtain d where d: "replied d (native (nhost sv)) (ending_status (rends (calls i)))
      (ending_body (native (nhost sv)) (rresults (calls i)) (rends (calls i)))"
    "receive cl waiting cc (reply_at sv calls c i) uc =
      Inr (Some cc, if waiting (requestId (conn_at c i)) then [Resume (requestId (conn_at c i)) d] else [], uc)"
    unfolding receive_def reply_at_def reply_octets_of_def
    by (rule reply_received [OF two native_not_0 reply_fits [where args = "ending_body (native (nhost sv)) (rresults (calls i)) (rends (calls i))", OF reply_short [OF assms]] ending_status_cast])
  from that [OF d(2) ending_seen [where calls = calls and i = i, OF assms d(1)]] show ?thesis .
qed

end
