(* ===== verification/Stream2Packet.thy ===== *)
theory Stream2Packet
  imports GIOP_Messages
begin

text \<open>
  \<open>IIOPStream2Packet\<close> (src/corba/net/stream2packet.cc): cuts the byte stream of a TCP
  connection into GIOP messages, and the read loop of \<open>TcpConnection::canRead\<close> that drives
  it. The specification is \<open>frames\<close>, which cuts a list of bytes; the buffer refines it
  whatever the sizes in which the bytes arrive.
\<close>

section \<open>The buffer\<close>

text \<open>
  \<open>sdata\<close> is the allocated block, so \<open>reserved\<close> is its length. \<open>realloc\<close> leaves the new
  part of the block unspecified: its contents are the argument \<open>fresh\<close>.
\<close>

record s2p =
  receiveBufferSize :: nat
  sdata :: bytes
  ssize :: nat
  soffset :: nat
  messageSize :: nat

definition s2p_init :: "nat \<Rightarrow> s2p" where
  "s2p_init n = \<lparr>receiveBufferSize = n, sdata = [], ssize = 0, soffset = 0, messageSize = 0\<rparr>"

definition reserved :: "s2p \<Rightarrow> nat" where
  "reserved s = length (sdata s)"

definition s2p_buffer :: "bytes \<Rightarrow> s2p \<Rightarrow> s2p" where
  "s2p_buffer fresh s =
     (if reserved s - ssize s < receiveBufferSize s
      then s\<lparr>sdata := sdata s @ fresh\<rparr>
      else s)"

definition s2p_length :: "s2p \<Rightarrow> nat" where
  "s2p_length s = reserved s - ssize s"

definition s2p_received :: "nat \<Rightarrow> s2p \<Rightarrow> s2p" where
  "s2p_received nbytes s = s\<lparr>ssize := ssize s + nbytes\<rparr>"

text \<open>The decoder made on the spot; what its uninitialised members hold does not matter.\<close>

definition blank_decoder :: giop_decoder where
  "blank_decoder = \<lparr>dmajor = 1, dminor = 2, dconn = None, dbuf = dec_init [] Endian_0,
     m_type = MESSAGE_ERROR, m_length = 0, drequestId = 0, dreplyStatus = NO_EXCEPTION\<rparr>"

definition scan_size :: "host \<Rightarrow> bytes \<Rightarrow> error + nat" where
  "scan_size h bs =
     (case scanGIOPHeader h (giop_dec_init blank_decoder None (dec_init bs Endian_0)) of
        Inl err \<Rightarrow> Inl err
      | Inr (_, g) \<Rightarrow> Inr (m_length g + 12))"

text \<open>The empty list stands for the empty span.\<close>

definition s2p_message_sized :: "s2p \<Rightarrow> bytes \<times> s2p" where
  "s2p_message_sized s =
     (if messageSize s = 0 then ([], s)
      else if messageSize s \<noteq> 0 \<and> ssize s - soffset s < messageSize s
      then (let s1 = (if 0 < soffset s
                      then s\<lparr>sdata := overwrite 0 (take (ssize s - soffset s) (drop (soffset s) (sdata s))) (sdata s)\<rparr>
                      else s)
            in ([], s1\<lparr>ssize := ssize s1 - soffset s1, soffset := 0\<rparr>))
      else (let result = take (messageSize s) (drop (soffset s) (sdata s));
                s1 = s\<lparr>soffset := soffset s + messageSize s, messageSize := 0\<rparr>
            in (result, if soffset s1 = ssize s1 then s1\<lparr>soffset := 0, ssize := 0\<rparr> else s1)))"

definition s2p_message :: "host \<Rightarrow> s2p \<Rightarrow> error + bytes \<times> s2p" where
  "s2p_message h s =
     (if messageSize s = 0 \<and> 16 \<le> ssize s - soffset s
      then (case scan_size h (take (ssize s - soffset s) (drop (soffset s) (sdata s))) of
              Inl err \<Rightarrow> Inl err
            | Inr n \<Rightarrow> Inr (s2p_message_sized (s\<lparr>messageSize := n\<rparr>)))
      else Inr (s2p_message_sized s))"

section \<open>The read loop\<close>

lemma s2p_message_progress:
  assumes "s2p_message_sized s = (x # xs, s')"
  shows "ssize s' - soffset s' < ssize s - soffset s"
proof -
  let ?n = "messageSize s"
  have n: "?n \<noteq> 0" "\<not> ssize s - soffset s < ?n"
    using assms by (auto simp: s2p_message_sized_def Let_def split: if_splits)
  then show ?thesis
    using assms by (auto simp: s2p_message_sized_def Let_def split: if_splits)
qed

lemma s2p_message_decreases:
  assumes "s2p_message h s = Inr (x # xs, s')"
  shows "ssize s' - soffset s' < ssize s - soffset s"
  using assms s2p_message_progress [of "s\<lparr>messageSize := n\<rparr>" x xs s' for n] s2p_message_progress [of s x xs s']
  by (auto simp: s2p_message_def split: if_splits sum.splits)

text \<open>
  The inner loop of \<open>canRead\<close>: messages are handed over until none is complete, or until an
  exception leaves the loop.
\<close>

function s2p_drain :: "host \<Rightarrow> s2p \<Rightarrow> bytes list \<times> s2p \<times> error option" where
  "s2p_drain h s =
     (case s2p_message h s of
        Inl err \<Rightarrow> ([], s, Some err)
      | Inr ([], s') \<Rightarrow> ([], s', None)
      | Inr (b # bs, s') \<Rightarrow> (let (ms, s'', e) = s2p_drain h s' in ((b # bs) # ms, s'', e)))"
  by pat_completeness auto

termination s2p_drain
  by (relation "measure (\<lambda>(h, s). ssize s - soffset s)") (auto dest: s2p_message_decreases)

declare s2p_drain.simps [simp del]

text \<open>
  One \<open>canRead\<close>: the kernel has \<open>n\<close> bytes at hand, of the \<open>input\<close> still to come, and
  copies as many of them as the buffer takes.
\<close>

definition s2p_read :: "bytes \<Rightarrow> nat \<Rightarrow> bytes \<Rightarrow> s2p \<Rightarrow> s2p \<times> bytes" where
  "s2p_read fresh n input s =
     (let s1 = s2p_buffer fresh s;
          got = take (min n (s2p_length s1)) input;
          s2 = s1\<lparr>sdata := overwrite (ssize s1) got (sdata s1)\<rparr>
      in (s2p_received (length got) s2, drop (length got) input))"

fun s2p_run :: "host \<Rightarrow> (bytes \<times> nat) list \<Rightarrow> bytes \<Rightarrow> s2p \<Rightarrow> bytes list \<times> s2p \<times> bytes \<times> error option" where
  "s2p_run h [] input s = ([], s, input, None)"
| "s2p_run h ((fresh, n) # reads) input s =
     (let (s1, input1) = s2p_read fresh n input s; (ms, s2, e) = s2p_drain h s1
      in case e of
           Some err \<Rightarrow> (ms, s2, input1, Some err)
         | None \<Rightarrow> (let (ms', s3, input2, e') = s2p_run h reads input1 s2 in (ms @ ms', s3, input2, e')))"

section \<open>Invariant and specification\<close>

definition pending :: "s2p \<Rightarrow> bytes" where
  "pending s = take (ssize s - soffset s) (drop (soffset s) (sdata s))"

definition s2p_ok :: "host \<Rightarrow> s2p \<Rightarrow> bool" where
  "s2p_ok h s \<longleftrightarrow> soffset s \<le> ssize s \<and> ssize s \<le> reserved s \<and>
     (messageSize s = 0 \<or> 16 \<le> length (pending s) \<and> scan_size h (pending s) = Inr (messageSize s))"

text \<open>What a list of bytes contains: messages, a rest, and perhaps an exception at the rest.\<close>

function frames :: "host \<Rightarrow> bytes \<Rightarrow> bytes list \<times> bytes \<times> error option" where
  "frames h bs =
     (if length bs < 16 then ([], bs, None)
      else case scan_size h bs of
             Inl err \<Rightarrow> ([], bs, Some err)
           | Inr n \<Rightarrow> (if length bs < n \<or> n = 0 then ([], bs, None)
                      else let (ms, rest, e) = frames h (drop n bs) in (take n bs # ms, rest, e)))"
  by pat_completeness auto

termination frames
  by (relation "measure (\<lambda>(h, bs). length bs)") auto

declare frames.simps [simp del]

lemma length_pending: "s2p_ok h s \<Longrightarrow> length (pending s) = ssize s - soffset s"
  by (auto simp: s2p_ok_def pending_def reserved_def min_def)

lemma scan_size_ge: "scan_size h bs = Inr n \<Longrightarrow> 12 \<le> n"
  by (auto simp: scan_size_def split: sum.splits)

lemma s2p_ok_init [simp]: "s2p_ok h (s2p_init n)" "pending (s2p_init n) = []"
  by (simp_all add: s2p_ok_def s2p_init_def reserved_def pending_def)

text \<open>One call of \<open>message\<close> against one step of \<open>frames\<close>.\<close>

lemma sized_step:
  assumes "s2p_ok h s" and "messageSize s \<noteq> 0"
  shows "if length (pending s) < messageSize s
     then \<exists>s'. s2p_message_sized s = ([], s') \<and> s2p_ok h s' \<and> pending s' = pending s
     else \<exists>s'. s2p_message_sized s = (take (messageSize s) (pending s), s') \<and> s2p_ok h s' \<and>
       pending s' = drop (messageSize s) (pending s)"
proof (cases "length (pending s) < messageSize s")
  case True
  let ?k = "ssize s - soffset s" and ?d = "sdata s"
  let ?s' = "s\<lparr>sdata := (if 0 < soffset s then overwrite 0 (pending s) ?d else ?d), ssize := ?k, soffset := 0\<rparr>"
  have le: "soffset s \<le> ssize s" "ssize s \<le> length ?d" using assms(1) by (simp_all add: s2p_ok_def reserved_def)
  have k: "length (pending s) = ?k" by (rule length_pending [OF assms(1)])
  have "s2p_message_sized s = ([], ?s')"
    using True assms(2) le k by (cases "0 < soffset s") (simp_all add: s2p_message_sized_def pending_def Let_def)
  moreover have p: "pending ?s' = pending s"
    using k le by (cases "0 < soffset s") (simp_all add: pending_def overwrite_def)
  moreover have "s2p_ok h ?s'"
    using assms(1) le k p by (auto simp: s2p_ok_def reserved_def)
  ultimately show ?thesis using True by auto
next
  case False
  let ?n = "messageSize s"
  have le: "soffset s \<le> ssize s" "ssize s \<le> length (sdata s)" using assms(1) by (simp_all add: s2p_ok_def reserved_def)
  have k: "length (pending s) = ssize s - soffset s" by (rule length_pending [OF assms(1)])
  let ?s1 = "s\<lparr>soffset := soffset s + ?n, messageSize := 0\<rparr>"
  let ?s' = "if soffset ?s1 = ssize ?s1 then ?s1\<lparr>soffset := 0, ssize := 0\<rparr> else ?s1"
  have "s2p_message_sized s = (take ?n (pending s), ?s')"
    using False assms(2) k by (simp add: s2p_message_sized_def pending_def Let_def min_def)
  moreover have "pending ?s' = drop ?n (pending s)" and "s2p_ok h ?s'"
    using False le k by (auto simp: pending_def drop_take s2p_ok_def reserved_def add.commute)
  ultimately show ?thesis using False by auto
qed

text \<open>The size of a message is read off the first 12 of the 16 bytes it takes.\<close>

lemma scan_size_eq:
  assumes "16 \<le> length bs"
  shows "scan_size h bs =
    (if take 4 bs \<noteq> lit ''GIOP'' then Inl (RuntimeError ''Missing GIOP Header'')
     else Inr (unat (load_ordered h (if bs ! 6 AND 1 \<noteq> 0 then Endian_little else Endian_big) 4
       (take 4 (drop 8 bs)) :: u32) + 12))"
proof -
  have "align_mask 3 8 = 8" by (simp add: align_mask_3_padding padding_def)
  then show ?thesis
    using assms
    by (simp add: scan_size_def scanGIOPHeader_def giop_dec_init_def dec_init_def rd_bind_def cdr_def
        readOctet_cases setOffset_def dec_skip_def setLittleEndian_def readUlong_def read_ordered_def
        ptr4_def dec_align4_def load_def Let_def)
qed

lemma scan_size_prefix: "16 \<le> length bs \<Longrightarrow> scan_size h (bs @ cs) = scan_size h bs"
  by (simp add: scan_size_eq nth_append)

section \<open>The buffer refines the specification\<close>

lemma message_step:
  assumes ok: "s2p_ok h s"
  shows "if length (pending s) < 16 then s2p_message h s = Inr ([], s)
     else case scan_size h (pending s) of
       Inl err \<Rightarrow> s2p_message h s = Inl err
     | Inr n \<Rightarrow>
         (if length (pending s) < n
          then \<exists>s'. s2p_message h s = Inr ([], s') \<and> s2p_ok h s' \<and> pending s' = pending s
          else \<exists>s'. s2p_message h s = Inr (take n (pending s), s') \<and> s2p_ok h s' \<and>
            pending s' = drop n (pending s))"
proof (cases "length (pending s) < 16")
  case True
  then have "messageSize s = 0" "ssize s - soffset s < 16"
    using ok length_pending [OF ok] by (auto simp: s2p_ok_def)
  then show ?thesis using True by (simp add: s2p_message_def s2p_message_sized_def)
next
  case False
  then have ge: "16 \<le> ssize s - soffset s" using length_pending [OF ok] by simp
  show ?thesis
  proof (cases "scan_size h (pending s)")
    case (Inl err)
    then have "messageSize s = 0" using ok by (auto simp: s2p_ok_def)
    then show ?thesis using Inl False ge by (simp add: s2p_message_def pending_def [symmetric])
  next
    case (Inr n)
    let ?s1 = "s\<lparr>messageSize := n\<rparr>"
    have p: "pending ?s1 = pending s" by (simp add: pending_def)
    have "messageSize s = 0 \<or> ?s1 = s" using ok Inr by (auto simp: s2p_ok_def)
    then have "s2p_message h s = Inr (s2p_message_sized ?s1)"
      using Inr ge by (cases "messageSize s = 0") (auto simp: s2p_message_def pending_def [symmetric])
    moreover have "s2p_ok h ?s1" "messageSize ?s1 \<noteq> 0"
      using ok Inr False scan_size_ge [OF Inr] by (auto simp: s2p_ok_def reserved_def p)
    ultimately show ?thesis
      using sized_step [of h ?s1] False Inr by (auto simp: p split: if_splits)
  qed
qed

lemma s2p_drain_frames:
  "s2p_ok h s \<Longrightarrow> s2p_drain h s = (ms, s', e) \<Longrightarrow>
   frames h (pending s) = (ms, pending s', e) \<and> s2p_ok h s'"
proof (induction h s arbitrary: ms s' e rule: s2p_drain.induct)
  case (1 h s)
  note step = message_step [OF "1.prems"(1)]
  note fr = frames.simps [of h "pending s"]
  note dr = "1.prems"(2) [unfolded s2p_drain.simps [of h s]]
  show ?case
  proof (cases "length (pending s) < 16")
    case True
    then show ?thesis using step dr fr "1.prems"(1) by simp
  next
    case False
    show ?thesis
    proof (cases "scan_size h (pending s)")
      case (Inl err)
      then show ?thesis using step dr fr "1.prems"(1) False by simp
    next
      case (Inr n)
      note n = scan_size_ge [OF Inr]
      show ?thesis
      proof (cases "length (pending s) < n")
        case True
        then show ?thesis using step dr fr False Inr by auto
      next
        case ge: False
        then obtain s1 where s1: "s2p_message h s = Inr (take n (pending s), s1)" "s2p_ok h s1"
          "pending s1 = drop n (pending s)"
          using step False Inr by auto
        obtain b bs where m: "take n (pending s) = b # bs"
          using n ge by (cases "take n (pending s)") auto
        obtain ms1 where ms: "s2p_drain h s1 = (ms1, s', e)" "ms = (b # bs) # ms1"
          using dr s1(1) m by (auto split: prod.splits)
        have "frames h (pending s1) = (ms1, pending s', e) \<and> s2p_ok h s'"
          using "1.IH" [of "(b # bs, s1)" "b # bs" s1 b bs ms1 s' e] s1(1,2) ms(1) m by simp
        then show ?thesis
          using fr False Inr ge n s1(3) ms(2) m by simp
      qed
    qed
  qed
qed

lemma frames_append:
  "frames h (bs @ cs) =
     (let (ms, rest, e) = frames h bs
      in case e of
           Some err \<Rightarrow> (ms, rest @ cs, Some err)
         | None \<Rightarrow> (let (ms', rest', e') = frames h (rest @ cs) in (ms @ ms', rest', e')))"
proof (induction h bs rule: frames.induct)
  case (1 h bs)
  show ?case
  proof (cases "length bs < 16")
    case True
    then show ?thesis by (simp add: frames.simps [of h bs])
  next
    case False
    then have sc: "scan_size h (bs @ cs) = scan_size h bs" by (simp add: scan_size_prefix)
    show ?thesis
    proof (cases "scan_size h bs")
      case (Inl err)
      then show ?thesis using False sc by (simp add: frames.simps [of h bs] frames.simps [of h "bs @ cs"])
    next
      case (Inr n)
      show ?thesis
      proof (cases "length bs < n \<or> n = 0")
        case True
        then show ?thesis using False Inr by (simp add: frames.simps [of h bs])
      next
        case ge: False
        then have "frames h (bs @ cs) =
            (let (ms, rest, e) = frames h (drop n bs @ cs) in (take n bs # ms, rest, e))"
          using False Inr sc by (simp add: frames.simps [of h "bs @ cs"])
        moreover have "frames h bs = (let (ms, rest, e) = frames h (drop n bs) in (take n bs # ms, rest, e))"
          using False Inr ge by (simp add: frames.simps [of h bs])
        moreover note "1.IH" [OF False Inr ge]
        ultimately show ?thesis
          by (auto simp: Let_def split: prod.splits option.splits)
      qed
    qed
  qed
qed

text \<open>Reading appends to what is pending.\<close>

lemma s2p_read_pending:
  assumes ok: "s2p_ok h s" and "s2p_read fresh n input s = (s', input')"
  shows "\<exists>got. input = got @ input' \<and> pending s' = pending s @ got \<and> s2p_ok h s'"
proof -
  let ?s1 = "s2p_buffer fresh s"
  let ?got = "take (min n (s2p_length ?s1)) input"
  have o: "soffset s \<le> ssize s" "ssize s \<le> length (sdata s)" using ok by (simp_all add: s2p_ok_def reserved_def)
  have s1: "soffset ?s1 = soffset s" "ssize ?s1 = ssize s" "messageSize ?s1 = messageSize s"
    "length (sdata s) \<le> length (sdata ?s1)" "take (ssize s) (sdata ?s1) = take (ssize s) (sdata s)"
    using o by (simp_all add: s2p_buffer_def)
  have s': "s' = s2p_received (length ?got) (?s1\<lparr>sdata := overwrite (ssize ?s1) ?got (sdata ?s1)\<rparr>)"
    "input' = drop (length ?got) input"
    using assms(2) by (simp_all add: s2p_read_def Let_def)
  have len: "ssize s + length ?got \<le> length (sdata ?s1)"
    using o s1(2,4) by (auto simp: s2p_length_def reserved_def)
  have "take (ssize s + length ?got - soffset s) (drop (soffset s) (overwrite (ssize s) ?got (sdata ?s1))) =
      drop (soffset s) (take (ssize s + length ?got) (overwrite (ssize s) ?got (sdata ?s1)))"
    using o by (simp add: drop_take)
  also have "\<dots> = drop (soffset s) (take (ssize s) (sdata s) @ ?got)"
    using o s1(4,5) len by (simp add: overwrite_def min_def)
  also have "\<dots> = pending s @ ?got"
    using o by (simp add: pending_def drop_take)
  finally have p: "pending s' = pending s @ ?got"
    by (simp add: s'(1) pending_def s2p_received_def s1)
  moreover have "s2p_ok h s'"
    using ok o len p s1(3) scan_size_prefix [of "pending s" h ?got]
    by (auto simp: s2p_ok_def s'(1) s2p_received_def s1(1,2,3) reserved_def)
  moreover have "input = ?got @ input'"
    unfolding s'(2) by (metis append_take_drop_id length_take min.absorb2 min.cobounded1 nat_le_linear take_all_iff)
  ultimately show ?thesis by blast
qed

text \<open>Between two reads nothing complete is left in the buffer.\<close>

definition quiet :: "host \<Rightarrow> s2p \<Rightarrow> bool" where
  "quiet h s \<longleftrightarrow> frames h (pending s) = ([], pending s, None)"

lemma frames_rest: "frames h bs = (ms, rest, None) \<Longrightarrow> frames h rest = ([], rest, None)"
proof (induction h bs arbitrary: ms rest rule: frames.induct)
  case (1 h bs)
  show ?case
  proof (cases "length bs < 16 \<or> (\<exists>n. scan_size h bs = Inr n \<and> (length bs < n \<or> n = 0))")
    case True
    then have "frames h bs = ([], bs, None)" by (auto simp: frames.simps [of h bs])
    then show ?thesis using "1.prems" by simp
  next
    case False
    then obtain n where n: "scan_size h bs = Inr n" "\<not> length bs < 16" "\<not> (length bs < n \<or> n = 0)"
      using "1.prems" by (cases "scan_size h bs") (auto simp: frames.simps [of h bs])
    obtain ms' where "frames h (drop n bs) = (ms', rest, None)"
      using "1.prems" n by (auto simp: frames.simps [of h bs] split: prod.splits)
    from "1.IH" [OF n(2,1,3) this] show ?thesis .
  qed
qed

lemma s2p_run_frames:
  "s2p_ok h s \<Longrightarrow> quiet h s \<Longrightarrow> s2p_run h reads input s = (ms, s', input', e) \<Longrightarrow>
   \<exists>got. input = got @ input' \<and> frames h (pending s @ got) = (ms, pending s', e) \<and> s2p_ok h s'"
proof (induction reads arbitrary: input s ms)
  case Nil
  then show ?case by (simp add: quiet_def)
next
  case (Cons r reads)
  obtain fresh n where r: "r = (fresh, n)" by (cases r)
  obtain s1 input1 where rd: "s2p_read fresh n input s = (s1, input1)" by fastforce
  obtain ms1 s2 e1 where dr: "s2p_drain h s1 = (ms1, s2, e1)" by (metis prod_cases3)
  from s2p_read_pending [OF Cons.prems(1) rd] obtain got where
    got: "input = got @ input1" "pending s1 = pending s @ got" "s2p_ok h s1" by blast
  from s2p_drain_frames [OF got(3) dr]
  have fr: "frames h (pending s @ got) = (ms1, pending s2, e1)" "s2p_ok h s2" by (simp_all add: got(2))
  show ?case
  proof (cases e1)
    case (Some err)
    then show ?thesis using Cons.prems(3) rd dr r got(1) fr by auto
  next
    case None
    obtain ms2 where run: "s2p_run h reads input1 s2 = (ms2, s', input', e)" "ms = ms1 @ ms2"
      using Cons.prems(3) rd dr r None by (auto split: prod.splits)
    have "quiet h s2" using frames_rest [OF fr(1) [unfolded None]] by (simp add: quiet_def)
    from Cons.IH [OF fr(2) this run(1)] obtain got' where
      got': "input1 = got' @ input'" "frames h (pending s2 @ got') = (ms2, pending s', e)" "s2p_ok h s'" by blast
    have "frames h ((pending s @ got) @ got') = (ms, pending s', e)"
      by (subst frames_append) (simp add: fr(1) None got'(2) run(2))
    then show ?thesis using got(1) got'(1,3) by (intro exI [of _ "got @ got'"]) simp
  qed
qed

section \<open>Messages on a stream\<close>

text \<open>A message a decoder on host \<open>h\<close> can cut from a stream: its size field is right.\<close>

definition framed :: "host \<Rightarrow> bytes \<Rightarrow> bool" where
  "framed h m \<longleftrightarrow> 16 \<le> length m \<and> scan_size h m = Inr (length m)"

lemma frames_split: "frames h bs = (m, r, x) \<Longrightarrow> bs = concat m @ r"
proof (induction h bs arbitrary: m r x rule: frames.induct)
  case (1 h bs)
  show ?case
  proof (cases "length bs < 16 \<or> (\<exists>err. scan_size h bs = Inl err) \<or>
      (\<exists>n. scan_size h bs = Inr n \<and> (length bs < n \<or> n = 0))")
    case True
    then show ?thesis using "1.prems" by (auto simp: frames.simps [of h bs] split: if_splits)
  next
    case False
    then obtain n where n: "scan_size h bs = Inr n" "\<not> length bs < 16" "\<not> (length bs < n \<or> n = 0)"
      by (cases "scan_size h bs") auto
    obtain ms' where "frames h (drop n bs) = (ms', r, x)" "m = take n bs # ms'"
      using "1.prems" n by (auto simp: frames.simps [of h bs] split: prod.splits)
    with "1.IH" [OF n(2,1,3)] show ?thesis by (metis append.assoc append_take_drop_id concat.simps(2))
  qed
qed

lemma frames_concat: "\<forall>m\<in>set msgs. framed h m \<Longrightarrow> frames h (concat msgs) = (msgs, [], None)"
proof (induction msgs)
  case Nil
  show ?case by (simp add: frames.simps)
next
  case (Cons m msgs)
  then have m: "16 \<le> length m" "scan_size h (m @ concat msgs) = Inr (length m)"
    by (simp_all add: framed_def scan_size_prefix)
  then have "frames h (m @ concat msgs) = (let (ms, rest, e) = frames h (concat msgs) in (m # ms, rest, e))"
    by (subst frames.simps) auto
  then show ?case using Cons by simp
qed

lemma framed_message:
  assumes "en \<noteq> Endian_0" and "4 \<le> length body" and "length body < 2 ^ 32 - 12" and "M < 256" and "m < 256"
    and "\<forall>b. type \<noteq> MessageType_other b"
  shows "framed h (giop_header en M m type (length body) @ body)"
proof -
  have "scanGIOPHeader h (giop_dec_init blank_decoder None (dec_init (giop_header en M m type (length body) @ body) Endian_0)) =
    Inr (type, (giop_dec_init blank_decoder None (dec_init (giop_header en M m type (length body) @ body) Endian_0))
      \<lparr>dmajor := M, dminor := m, m_type := type, m_length := length body,
       dbuf := \<lparr>ddata = giop_header en M m type (length body) @ body, m_offset = 12, dendian = en\<rparr>\<rparr>)"
    using scanGIOPHeader_message [of "giop_dec_init blank_decoder None (dec_init (giop_header en M m type (length body) @ body) Endian_0)"
        en M m type "length body" body h] assms
    by (simp add: giop_dec_init_def dec_init_def)
  then show ?thesis using assms(2) by (simp add: framed_def scan_size_def)
qed

lemma framed_reply:
  assumes "m < 256" and "length (reply_layout (native h) 1 m rid status args) < 2 ^ 32"
  shows "framed h' (reply_layout (native h) 1 m rid status args)"
  using framed_message [of "native h" "reply_header (native h) m rid status @ args 24" 1 m REPLY h'] assms
  by (simp add: reply_layout_def)

lemma framed_request:
  assumes "M < 256" and "m < 256" and "length (request_layout (native h) M m c key operation rid re args) < 2 ^ 32"
  shows "framed h' (request_layout (native h) M m c key operation rid re args)"
  using framed_message [of "native h" "cdr_seq (cdr_request (native h) (v1_0_or_1 M m) c key operation rid re) args 12"
      M m REQUEST h'] assms length_request [of "native h" "v1_0_or_1 M m" c key operation rid re 12]
  by (simp add: request_layout_def Let_def)

section \<open>Room and progress\<close>

lemma buffer_room:
  assumes "s2p_ok h s" and "length fresh = receiveBufferSize s"
  shows "receiveBufferSize s \<le> s2p_length (s2p_buffer fresh s)"
  using assms by (auto simp: s2p_buffer_def s2p_length_def s2p_ok_def reserved_def)

lemma drain_receiveBufferSize:
  "s2p_drain h s = (ms, s', e) \<Longrightarrow> receiveBufferSize s' = receiveBufferSize s"
proof (induction h s arbitrary: ms s' e rule: s2p_drain.induct)
  case (1 h s)
  have msg: "receiveBufferSize t' = receiveBufferSize t" if "s2p_message_sized t = (b, t')" for b t t'
    using that by (auto simp: s2p_message_sized_def Let_def split: if_splits)
  have msg': "receiveBufferSize t' = receiveBufferSize s" if "s2p_message h s = Inr (b, t')" for b t'
    using that by (auto simp: s2p_message_def dest!: msg split: if_splits sum.splits)
  note dr = "1.prems" [unfolded s2p_drain.simps [of h s]]
  show ?case
  proof (cases "\<exists>b bs t. s2p_message h s = Inr (b # bs, t)")
    case True
    then obtain b bs t where m: "s2p_message h s = Inr (b # bs, t)" by blast
    obtain ms1 where "s2p_drain h t = (ms1, s', e)"
      using dr m by (auto split: prod.splits)
    with "1.IH" [of "(b # bs, t)" "b # bs" t b bs ms1 s' e] m msg' [OF m] show ?thesis by simp
  next
    case False
    then show ?thesis
      using dr by (auto split: sum.splits prod.splits list.splits dest: msg')
  qed
qed

lemma run_progress:
  "s2p_ok h s \<Longrightarrow> s2p_run h reads input s = (ms, s', input', None) \<Longrightarrow> 0 < receiveBufferSize s \<Longrightarrow>
   \<forall>(fresh, n)\<in>set reads. length fresh = receiveBufferSize s \<and> 0 < n \<Longrightarrow>
   length input' \<le> length input - length reads"
proof (induction reads arbitrary: input s ms)
  case Nil
  then show ?case by simp
next
  case (Cons r reads)
  obtain fresh n where r: "r = (fresh, n)" by (cases r)
  obtain s1 input1 where rd: "s2p_read fresh n input s = (s1, input1)" by fastforce
  obtain ms1 s2 e1 where dr: "s2p_drain h s1 = (ms1, s2, e1)" by (metis prod_cases3)
  have e1: "e1 = None" using Cons.prems(2) rd dr r by (cases e1) auto
  obtain ms2 where run: "s2p_run h reads input1 s2 = (ms2, s', input', None)"
    using Cons.prems(2) rd dr r e1 by (auto split: prod.splits)
  have ok1: "s2p_ok h s1" using s2p_read_pending [OF Cons.prems(1) rd] by blast
  have ok2: "s2p_ok h s2" using s2p_drain_frames [OF ok1 dr] by blast
  have "0 < min n (s2p_length (s2p_buffer fresh s))"
    using buffer_room [OF Cons.prems(1)] Cons.prems(3,4) r by fastforce
  then have "length input1 \<le> length input - 1"
    using rd by (auto simp: s2p_read_def Let_def)
  moreover have rb: "receiveBufferSize s2 = receiveBufferSize s"
    using rd drain_receiveBufferSize [OF dr]
    by (auto simp: s2p_read_def Let_def s2p_received_def s2p_buffer_def)
  have "length input' \<le> length input1 - length reads"
    using Cons.IH [OF ok2 run] Cons.prems(3,4) rb by simp
  ultimately show ?case by simp
qed

text \<open>C13. Framing: messages sent one after another over a TCP connection are handed over one by
  one, unchanged and in order, however the kernel cuts the stream into reads and whatever the
  unused part of the buffer holds, and once as many reads have returned data as there are
  octets, all of them have been.\<close>

theorem stream_delivers_messages:
  assumes "\<forall>m\<in>set msgs. framed h m" and "0 < rbs"
    and "\<forall>(fresh, n)\<in>set reads. length fresh = rbs \<and> 0 < n" and "length (concat msgs) \<le> length reads"
  shows "\<exists>s. s2p_run h reads (concat msgs) (s2p_init rbs) = (msgs, s, [], None) \<and> pending s = []"
proof -
  obtain ms s input' e where run: "s2p_run h reads (concat msgs) (s2p_init rbs) = (ms, s, input', e)"
    by (metis prod_cases4)
  have "quiet h (s2p_init rbs)" by (simp add: quiet_def frames.simps)
  from s2p_run_frames [OF s2p_ok_init(1) this run] obtain got where
    got: "concat msgs = got @ input'" "frames h got = (ms, pending s, e)" by auto
  note cat = frames_concat [OF assms(1)] frames_append [of h got input']
  then have e: "e = None" using got by (cases e) auto
  have "length input' \<le> length (concat msgs) - length reads"
    using run_progress [OF s2p_ok_init(1) run [unfolded e]] assms(2,3) by (simp add: s2p_init_def)
  then have "input' = []" using assms(4) by simp
  then show ?thesis using got cat run e by simp
qed

lemma sample_reply_framed:
  "framed BE (reply_layout (native LE) 1 2 7 NO_EXCEPTION (cdr_ulong (native LE) 5))"
  by (rule framed_reply [OF _ sample_length(2)]) simp

theorem stream_delivers_messages_witness:
  "\<exists>s. s2p_run BE (replicate 64 (replicate 8 255, 3))
      (concat [reply_layout (native LE) 1 2 7 NO_EXCEPTION (cdr_ulong (native LE) 5),
               reply_layout (native LE) 1 2 7 NO_EXCEPTION (cdr_ulong (native LE) 5)]) (s2p_init 8) =
      ([reply_layout (native LE) 1 2 7 NO_EXCEPTION (cdr_ulong (native LE) 5),
        reply_layout (native LE) 1 2 7 NO_EXCEPTION (cdr_ulong (native LE) 5)], s, [], None) \<and> pending s = []"
proof (rule stream_delivers_messages)
  show "\<forall>m\<in>set [reply_layout (native LE) 1 2 7 NO_EXCEPTION (cdr_ulong (native LE) 5),
               reply_layout (native LE) 1 2 7 NO_EXCEPTION (cdr_ulong (native LE) 5)]. framed BE m"
    using sample_reply_framed by simp
  show "length (concat [reply_layout (native LE) 1 2 7 NO_EXCEPTION (cdr_ulong (native LE) 5),
        reply_layout (native LE) 1 2 7 NO_EXCEPTION (cdr_ulong (native LE) 5)])
      \<le> length (replicate 64 (replicate 8 (255 :: byte), 3 :: nat))"
    using length_layouts(1) [of "native LE" 5 24] by (simp add: reply_layout_def)
qed (auto simp: set_replicate_conv_if)

text \<open>At any time, also before everything has arrived, what has been handed over is a prefix of
  the messages sent, no exception has been thrown, and what is in the buffer and what is still
  to come are exactly the rest.\<close>

theorem stream_prefix:
  assumes "\<forall>m\<in>set msgs. framed h m"
    and "s2p_run h reads (concat msgs) (s2p_init rbs) = (ms, s, input', e)"
  shows "e = None \<and> prefix ms msgs \<and> concat ms @ pending s @ input' = concat msgs"
proof -
  have "quiet h (s2p_init rbs)" by (simp add: quiet_def frames.simps)
  from s2p_run_frames [OF s2p_ok_init(1) this assms(2)] obtain got where
    got: "concat msgs = got @ input'" "frames h got = (ms, pending s, e)" by auto
  note cat = frames_concat [OF assms(1)] frames_append [of h got input']
  then have e: "e = None" using got by (cases e) auto
  then obtain ms' where "msgs = ms @ ms'" "frames h (pending s @ input') = (ms', [], None)"
    using cat got by (auto split: prod.splits)
  moreover note frames_split
  ultimately show ?thesis using got e by (metis append.assoc prefixI)
qed

theorem stream_prefix_witness:
  "\<exists>ms s input'. s2p_run BE [(replicate 8 0, 5)] (concat [reply_layout (native LE) 1 2 7 NO_EXCEPTION
      (cdr_ulong (native LE) 5)]) (s2p_init 8) = (ms, s, input', None) \<and>
    concat ms @ pending s @ input' = reply_layout (native LE) 1 2 7 NO_EXCEPTION (cdr_ulong (native LE) 5)"
proof -
  obtain ms s input' e where run: "s2p_run BE [(replicate 8 0, 5)] (concat [reply_layout (native LE) 1 2 7
      NO_EXCEPTION (cdr_ulong (native LE) 5)]) (s2p_init 8) = (ms, s, input', e)"
    by (metis prod_cases4)
  from stream_prefix [OF _ this] sample_reply_framed run show ?thesis by auto
qed

text \<open>\<open>buffer()\<close> always leaves room for \<open>receiveBufferSize\<close> octets, and the reads store inside
  the block.\<close>

theorem buffer_has_room:
  assumes "s2p_ok h s" and "length fresh = receiveBufferSize s"
  shows "receiveBufferSize s \<le> s2p_length (s2p_buffer fresh s) \<and>
    s2p_ok h (fst (s2p_read fresh n input s))"
  using buffer_room [OF assms] s2p_read_pending [OF assms(1), of fresh n input] by (metis prod.collapse)

theorem buffer_has_room_witness:
  "receiveBufferSize (s2p_init 4) \<le> s2p_length (s2p_buffer [1, 2, 3, 4] (s2p_init 4)) \<and>
    s2p_ok LE (fst (s2p_read [1, 2, 3, 4] 9 [5, 6] (s2p_init 4)))"
  by (rule buffer_has_room [OF s2p_ok_init(1)]) (simp add: s2p_init_def)

text \<open>A message without a body of 4 octets, such as the 12 octets of \<open>CLOSE_CONNECTION\<close> or
  \<open>MESSAGE_ERROR\<close>, is not handed over while it is the last one in the buffer, and scanning it
  on its own is an error, because 16 octets are asked for where the header has 12.\<close>

theorem bare_header_stuck:
  assumes "s2p_ok h s" and "length (pending s) = 12"
  shows "s2p_drain h s = ([], s, None) \<and>
    scanGIOPHeader h (giop_dec_init any c (dec_init (pending s) en)) =
      Inl (RuntimeError ''Packet too small, need at least 16 octets for GIOP Header, got {}'')"
  using message_step [OF assms(1)] assms(2)
  by (simp add: s2p_drain.simps scanGIOPHeader_def giop_dec_init_def dec_init_def)

theorem bare_header_stuck_witness:
  "s2p_drain LE (s2p_init 12\<lparr>sdata := giop_header Endian_little 1 2 CLOSE_CONNECTION 0, ssize := 12\<rparr>) =
     ([], s2p_init 12\<lparr>sdata := giop_header Endian_little 1 2 CLOSE_CONNECTION 0, ssize := 12\<rparr>, None)"
  using bare_header_stuck [of LE "s2p_init 12\<lparr>sdata := giop_header Endian_little 1 2 CLOSE_CONNECTION 0, ssize := 12\<rparr>"]
  by (simp add: s2p_ok_def s2p_init_def reserved_def pending_def)

end
