(* ===== verification/TCP.thy ===== *)
theory TCP
  imports Stream2Packet Exceptions
begin

text \<open>
  A TCP connection (src/corba/net/tcp/connection.cc): the queue of messages to be sent, the
  states of the connection, and the handlers the event loop calls. What the operating system
  answers is an argument of each handler.
\<close>

section \<open>State\<close>

text \<open>
  The watchers of the event loop are two flags, whether they are active. \<open>timer_active\<close> is the
  member of that name; \<open>timer_armed\<close> is whether the event loop still has the timer, which fires
  once. The calls that wait for a reply are not part of the state.
\<close>

record tcp =
  tfd :: int
  read_active :: bool
  write_active :: bool
  timer_active :: bool
  timer_armed :: bool
  tstate :: ConnectionState
  tstream :: s2p
  sendBuffer :: "bytes list"
  bytesSend :: nat

definition tcp_init :: "nat \<Rightarrow> tcp" where
  "tcp_init rbs = \<lparr>tfd = -1, read_active = False, write_active = False, timer_active = False,
     timer_armed = False, tstate = IDLE, tstream = s2p_init rbs, sendBuffer = [], bytesSend = 0\<rparr>"

text \<open>
  What a handler does outside: octets given to \<open>::send\<close>, messages handed to the ORB, the file
  descriptor closed, and the calls that wait resumed with an exception.
\<close>

datatype tcp_effect =
    Sent bytes
  | Received bytes
  | Closed int
  | FailCalls system_exception

section \<open>Watchers\<close>

definition stopReadHandler :: "tcp \<Rightarrow> tcp" where
  "stopReadHandler c = (if \<not> read_active c then c else c\<lparr>read_active := False\<rparr>)"

definition stopWriteHandler :: "tcp \<Rightarrow> tcp" where
  "stopWriteHandler c = (if \<not> write_active c then c else c\<lparr>write_active := False\<rparr>)"

definition startReadHandler :: "tcp \<Rightarrow> tcp" where
  "startReadHandler c = (if read_active c then c else c\<lparr>read_active := True\<rparr>)"

definition startWriteHandler :: "tcp \<Rightarrow> tcp" where
  "startWriteHandler c = (if write_active c then c else c\<lparr>write_active := True\<rparr>)"

definition startTimer :: "tcp \<Rightarrow> tcp" where
  "startTimer c = (if timer_active c then c else c\<lparr>timer_active := True, timer_armed := True\<rparr>)"

definition stopTimer :: "tcp \<Rightarrow> tcp" where
  "stopTimer c = (if \<not> timer_active c then c else c\<lparr>timer_active := False, timer_armed := False\<rparr>)"

text \<open>
  \<open>ev_io_init\<close> must not be called on a watcher that is active.
\<close>

definition init_watchers :: "tcp \<Rightarrow> error option" where
  "init_watchers c = (if read_active c \<or> write_active c then Some LibraryMisuse else None)"

section \<open>Connecting\<close>

text \<open>
  \<open>r\<close> is what \<open>connect_to\<close> returns and \<open>in_progress\<close> whether \<open>errno\<close> is \<open>EINPROGRESS\<close>
  afterwards. The second component is the exception that is thrown.
\<close>

definition up :: "int \<Rightarrow> bool \<Rightarrow> tcp \<Rightarrow> tcp \<times> error option" where
  "up r in_progress c =
     (if 0 \<le> tfd c then (c, None)
      else let c1 = c\<lparr>tfd := r\<rparr> in
        if r < 0 then (c1\<lparr>tstate := PENDING\<rparr>, Some (RuntimeError ''TcpConnection()::up(): {}: {}''))
        else case init_watchers c1 of
          Some err \<Rightarrow> (c1, Some err)
        | None \<Rightarrow>
            (let c2 = startTimer c1;
                 c3 = (if in_progress then startWriteHandler (c2\<lparr>tstate := INPROGRESS\<rparr>)
                       else c2\<lparr>tstate := ESTABLISHED\<rparr>)
             in (startReadHandler c3, None)))"

definition tcp_accept :: "int \<Rightarrow> tcp \<Rightarrow> tcp \<times> error option" where
  "tcp_accept client c =
     (if tfd c \<noteq> -1 then (c, Some (RuntimeError ''TcpConnection::accept(int fd): fd is already set''))
      else let c1 = c\<lparr>tfd := client\<rparr> in
        case init_watchers c1 of
          Some err \<Rightarrow> (c1, Some err)
        | None \<Rightarrow> ((startReadHandler c1)\<lparr>tstate := ESTABLISHED\<rparr>, None))"

definition tcp_send :: "int \<Rightarrow> bool \<Rightarrow> bytes \<Rightarrow> tcp \<Rightarrow> tcp \<times> error option" where
  "tcp_send r in_progress buffer c =
     (let c1 = c\<lparr>sendBuffer := sendBuffer c @ [buffer]\<rparr> in
      case tstate c1 of
        IDLE \<Rightarrow> up r in_progress c1
      | ESTABLISHED \<Rightarrow> (startWriteHandler c1, None)
      | _ \<Rightarrow> (c1, None))"

section \<open>Writing\<close>

text \<open>What \<open>::send\<close> returns: a number of octets, or an error.\<close>

datatype send_result = Took nat | EPIPE | EAGAIN_send | OtherError_send

definition close_fd :: "tcp \<Rightarrow> tcp" where
  "close_fd c = c\<lparr>tfd := -1\<rparr>"

text \<open>
  The loop of \<open>canWrite\<close>, over what the system answers; it answers \<open>EAGAIN\<close> in the end. The
  last component is whether the function returns from inside the loop.
\<close>

fun write_loop :: "send_result list \<Rightarrow> tcp \<Rightarrow> tcp \<times> tcp_effect list \<times> bool" where
  "write_loop rs c =
     (case sendBuffer c of
        [] \<Rightarrow> (c, [], False)
      | b # bs \<Rightarrow>
          (case rs of
             [] \<Rightarrow> (c, [], False)
           | Took n # rs' \<Rightarrow>
               (let rest = length b - bytesSend c; k = min n rest;
                    octets = take k (drop (bytesSend c) b)
                in if k \<noteq> rest then (c\<lparr>bytesSend := bytesSend c + k\<rparr>, [Sent octets], False)
                   else (let (c', fx, out) = write_loop rs' (c\<lparr>sendBuffer := bs, bytesSend := 0\<rparr>)
                         in (c', Sent octets # fx, out)))
           | EPIPE # rs' \<Rightarrow> (close_fd (c\<lparr>tstate := IDLE\<rparr>), [Closed (tfd c)], True)
           | _ # rs' \<Rightarrow> (c, [], False)))"

declare write_loop.simps [simp del]

definition canWrite :: "bool \<Rightarrow> send_result list \<Rightarrow> tcp \<Rightarrow> tcp \<times> tcp_effect list" where
  "canWrite peer_known rs c =
     (let c1 = stopWriteHandler c in
      if tstate c1 = INPROGRESS \<and> \<not> peer_known
      then (close_fd (c1\<lparr>tstate := IDLE\<rparr>), [Closed (tfd c1)])
      else (let (c2, fx, out) = write_loop rs c1
            in if out then (c2, fx)
               else (if sendBuffer c2 \<noteq> [] then startWriteHandler c2 else c2, fx)))"

section \<open>Reading\<close>

datatype recv_result = Got bytes | EAGAIN_recv | EBADF | OtherError_recv

definition transient :: system_exception where
  "transient = \<lparr>sclass = TRANSIENT, sminor = 0, scompleted = NO\<rparr>"

definition timeout :: system_exception where
  "timeout = \<lparr>sclass = TIMEOUT, sminor = 0, scompleted = NO\<rparr>"

text \<open>
  \<open>fresh\<close> is what the memory holds that \<open>buffer()\<close> adds. The kernel stores no more than the
  buffer takes. The last component is an exception of the framing; it leaves the handler.
\<close>

definition canRead :: "host \<Rightarrow> bytes \<Rightarrow> recv_result \<Rightarrow> tcp \<Rightarrow> tcp \<times> tcp_effect list \<times> error option" where
  "canRead h fresh r c =
     (let c1 = c\<lparr>tstream := s2p_buffer fresh (tstream c)\<rparr> in
      case r of
        EAGAIN_recv \<Rightarrow> (c1, [], None)
      | Got octets \<Rightarrow>
          (let bs = take (s2p_length (tstream c1)) octets;
               c2 = (if tstate c1 = INPROGRESS then stopTimer (c1\<lparr>tstate := ESTABLISHED\<rparr>) else c1)
           in if bs = [] then (c2, [], None)
              else (let s = tstream c2;
                        s1 = s2p_received (length bs) (s\<lparr>sdata := overwrite (ssize s) bs (sdata s)\<rparr>);
                        (ms, s2, e) = s2p_drain h s1
                    in (c2\<lparr>tstream := s2\<rparr>, map Received ms, e)))
      | _ \<Rightarrow> (close_fd ((stopReadHandler c1)\<lparr>tstate := IDLE\<rparr>), [Closed (tfd c1), FailCalls transient], None))"

section \<open>The timer\<close>

definition timer :: "tcp \<Rightarrow> tcp \<times> tcp_effect list" where
  "timer c =
     (let c1 = c\<lparr>timer_armed := False\<rparr> in
      if tstate c1 = INPROGRESS
      then (close_fd ((stopReadHandler c1)\<lparr>tstate := IDLE\<rparr>), [Closed (tfd c1), FailCalls timeout])
      else (c1, []))"

end
