(* ===== verification/Sessions.thy ===== *)
theory Sessions
  imports Remote_Calls TCP "HOL-Library.Multiset"
begin

text \<open>
  Many calls at a time over one connection. The calls are told apart by their request ids:
  \<open>_twowayCall\<close> takes one from the counter of the connection and suspends under it, the server
  puts it into the reply, and the reply resumes the call that waits under it (orb.cc). A servant
  may suspend as well, so that replies come in another order than the requests.
\<close>

section \<open>Both ends of a connection\<close>

text \<open>
  The connection at the client and at the server, the number of calls made, which of them is
  suspended under a request id, the messages on their way, the continuations of servants
  that have suspended, and what calls have returned.
\<close>

record ('c, 's, 'w) exchange =
  asking :: connection
  answering :: connection
  askstate :: 'c
  ansstate :: 's
  made :: nat
  suspended :: "u32 \<Rightarrow> nat option"
  requests :: "bytes multiset"
  busy :: "(u32 \<times> bool \<times> giop_encoder) multiset"
  replies :: "bytes multiset"
  returned :: "(nat \<times> (error + call_result + 'w)) list"

fun sent :: "effect list \<Rightarrow> bytes multiset" where
  "sent [] = {#}"
| "sent (Send m # fx) = add_mset m (sent fx)"
| "sent (_ # fx) = sent fx"

fun continuations :: "connection option \<Rightarrow> effect list \<Rightarrow> (u32 \<times> bool \<times> giop_encoder) multiset" where
  "continuations rc [] = {#}"
| "continuations rc (Awaiting rid re # fx) = add_mset (rid, re, result_encoder rc) (continuations rc fx)"
| "continuations rc (_ # fx) = continuations rc fx"

fun continue ::
    "host \<Rightarrow> (nat \<Rightarrow> ('v, 'w) remote_call) \<Rightarrow> connection option \<Rightarrow> effect list \<Rightarrow> ('c, 's, 'w) exchange \<Rightarrow>
     ('c, 's, 'w) exchange" where
  "continue h calls c [] x = x"
| "continue h calls c (Resume rid d # fx) x =
     (case suspended x rid of
        None \<Rightarrow> continue h calls c fx x
      | Some i \<Rightarrow> continue h calls c fx
          (x\<lparr>suspended := (suspended x)(rid := None),
             returned := returned x @ [(i, twoway_value h (the c) (rdecode (calls i)) d)]\<rparr>))"
| "continue h calls c (_ # fx) x = continue h calls c fx x"

text \<open>
  What can happen: the client makes the next of its \<open>calls\<close>; a request reaches the server; a servant that has
  suspended goes on, writes what \<open>later\<close> says and returns; a reply reaches the client. Any message on
  its way may be the next one to arrive.
\<close>

inductive exchange_step ::
    "'c node \<Rightarrow> 's node \<Rightarrow> (u32 \<Rightarrow> giop_encoder writer) \<Rightarrow> (nat \<Rightarrow> ('v, 'w) remote_call) \<Rightarrow>
     ('c, 's, 'w) exchange \<Rightarrow> ('c, 's, 'w) exchange \<Rightarrow> bool"
  for cl sv later calls where
  call: "twowayCall (nhost cl) (stub_of (calls (made x)) (asking x)) (roperation (calls (made x))) (rencode (calls (made x))) =
      Inr (rid, m, c) \<Longrightarrow>
    exchange_step cl sv later calls x
      (x\<lparr>asking := the c, made := Suc (made x), suspended := (suspended x)(rid \<mapsto> made x),
         requests := add_mset m (requests x)\<rparr>)"
| serve: "m \<in># requests x \<Longrightarrow> receive sv (\<lambda>_. False) (answering x) m (ansstate x) = Inr (c, fx, us) \<Longrightarrow>
    exchange_step cl sv later calls x
      (x\<lparr>requests := requests x - {#m#}, answering := the c, ansstate := us,
         busy := busy x + continuations c fx, replies := replies x + sent fx\<rparr>)"
| finish: "(rid, re, e) \<in># busy x \<Longrightarrow> later rid e = Inr e' \<Longrightarrow> resumed_returned (nhost sv) re rid e' = Inr fx \<Longrightarrow>
    exchange_step cl sv later calls x (x\<lparr>busy := busy x - {#(rid, re, e)#}, replies := replies x + sent fx\<rparr>)"
| arrive: "m \<in># replies x \<Longrightarrow>
    receive cl (\<lambda>r. suspended x r \<noteq> None) (asking x) m (askstate x) = Inr (c, fx, uc) \<Longrightarrow>
    exchange_step cl sv later calls x
      (continue (nhost cl) calls c fx (x\<lparr>replies := replies x - {#m#}, asking := the c, askstate := uc\<rparr>))"

definition exchange_init :: "connection \<Rightarrow> connection \<Rightarrow> 'c \<Rightarrow> 's \<Rightarrow> ('c, 's, 'w) exchange" where
  "exchange_init c sc uc us = \<lparr>asking = c, answering = sc, askstate = uc, ansstate = us, made = 0, suspended = (\<lambda>_. None),
     requests = {#}, busy = {#}, replies = {#}, returned = []\<rparr>"

section \<open>Where every call is\<close>

text \<open>
  Each call that has been made is under way as a request (\<open>q\<close>), with a servant that has suspended
  (\<open>b\<close>, with the server's connection) or as a reply (\<open>p\<close>), unless it has returned, if the connection
  keeps what it is given (\<open>keep\<close>); the ids under which the client is suspended are those of the
  calls that have not returned. \<open>R\<close> is what is known of what a call has returned.
\<close>

definition its_end :: "connection \<Rightarrow> (nat \<Rightarrow> ('v, 'w) remote_call) \<Rightarrow> nat \<Rightarrow> error + call_result + 'w \<Rightarrow> bool" where
  "its_end c calls i r \<longleftrightarrow> r = Inr (at_client c (rends (calls i)))"

text \<open>What the client throws when the connection has failed: with \<open>not_connected\<close> \<open>send\<close> itself has thrown.\<close>

definition not_connected :: error where
  "not_connected = RuntimeError ''TcpConnection()::up(): {}: {}''"

definition failures :: "(error + call_result + 'w) set" where
  "failures = {Inr (Inl (ThrewSystem transient)), Inr (Inl (ThrewSystem timeout)), Inl not_connected}"

text \<open>What a servant that has suspended does when it goes on, for the first \<open>n\<close> calls.\<close>

definition goes_on :: "(u32 \<Rightarrow> giop_encoder writer) \<Rightarrow> connection \<Rightarrow> (nat \<Rightarrow> ('v, 'w) remote_call) \<Rightarrow> nat \<Rightarrow> bool" where
  "goes_on later c calls n \<longleftrightarrow> (\<forall>i < n. returns (calls i) \<longrightarrow> later (requestId c + 2 * of_nat i) = rwrite (calls i))"

lemma goes_onD: "goes_on later c calls n \<Longrightarrow> i < n \<Longrightarrow> returns (calls i) \<Longrightarrow> later (requestId (conn_at c i)) = rwrite (calls i)"
  by (simp add: goes_on_def)

lemma goes_on_le: "goes_on later c calls n \<Longrightarrow> m \<le> n \<Longrightarrow> goes_on later c calls m"
  by (auto simp: goes_on_def)

inductive executions :: "'s node \<Rightarrow> (nat \<Rightarrow> ('v, 'w) remote_call) \<Rightarrow> 's \<Rightarrow> nat list \<Rightarrow> 's \<Rightarrow> bool"
  for sv calls u0 where
  no_execution: "executions sv calls u0 [] u0"
| one_more: "executions sv calls u0 hist us \<Longrightarrow> executed sv (calls i) us us' \<Longrightarrow> executions sv calls u0 (hist @ [i]) us'"

text \<open>
  The servants have run for the calls \<open>hist\<close>, one after the other, each once; \<open>waiting\<close> are the calls
  whose requests are under way, \<open>later\<close> those that are further.
\<close>

definition once ::
    "'s node \<Rightarrow> (nat \<Rightarrow> ('v, 'w) remote_call) \<Rightarrow> 's \<Rightarrow> nat list \<Rightarrow> 's \<Rightarrow> nat \<Rightarrow> (nat \<times> (error + call_result + 'w)) list \<Rightarrow>
     nat multiset \<Rightarrow> nat multiset \<Rightarrow> bool" where
  "once sv calls u0 hist us n rets waiting further \<longleftrightarrow>
     executions sv calls u0 hist us \<and> distinct hist \<and> set hist \<subseteq> {..<n} \<and>
     (\<forall>i. count waiting i \<le> 1) \<and> (\<forall>i. i \<in># waiting \<longrightarrow> i \<notin> set hist) \<and> (\<forall>i. i \<in># further \<longrightarrow> i \<in> set hist) \<and>
     (\<forall>(i, r) \<in> set rets. r \<notin> failures \<longrightarrow> i \<in> set hist)"

definition located ::
    "bool \<Rightarrow> (nat \<Rightarrow> error + call_result + 'w \<Rightarrow> bool) \<Rightarrow> 'c node \<Rightarrow> 's node \<Rightarrow> (nat \<Rightarrow> ('v, 'w) remote_call) \<Rightarrow>
     connection \<Rightarrow> ('c, 's, 'w) exchange \<Rightarrow> nat multiset \<Rightarrow> (nat \<times> connection option) multiset \<Rightarrow> nat multiset \<Rightarrow> bool" where
  "located keep R cl sv calls c x q b p \<longleftrightarrow>
     asking x = conn_at c (made x) \<and>
     requests x = image_mset (request_at cl calls c) q \<and>
     busy x = image_mset (\<lambda>(i, rc). (requestId (conn_at c i), True, result_encoder rc)) b \<and>
     replies x = image_mset (reply_at sv calls c) p \<and>
     (\<forall>i \<in># image_mset fst b. returns (calls i)) \<and>
     (\<forall>i. i \<in># q + image_mset fst b + p \<longrightarrow> i < made x) \<and>
     (keep \<longrightarrow> (\<forall>i < made x. i \<in> fst ` set (returned x) \<or> i \<in># q + image_mset fst b + p)) \<and>
     distinct (map fst (returned x)) \<and>
     (\<forall>(i, r) \<in> set (returned x). i < made x \<and> R i r) \<and>
     (\<forall>rid i. suspended x rid = Some i \<longleftrightarrow>
        i < made x \<and> i \<notin> fst ` set (returned x) \<and> rid = requestId (conn_at c i))"

definition accounted ::
    "bool \<Rightarrow> (nat \<Rightarrow> error + call_result + 'w \<Rightarrow> bool) \<Rightarrow> 's \<Rightarrow> 'c node \<Rightarrow> 's node \<Rightarrow> (nat \<Rightarrow> ('v, 'w) remote_call) \<Rightarrow>
     connection \<Rightarrow> nat list \<Rightarrow> ('c, 's, 'w) exchange \<Rightarrow> nat multiset \<Rightarrow> (nat \<times> connection option) multiset \<Rightarrow> nat multiset \<Rightarrow> bool" where
  "accounted keep R u0 cl sv calls c hist x q b p \<longleftrightarrow>
     located keep R cl sv calls c x q b p \<and>
     once sv calls u0 hist (ansstate x) (made x) (returned x) q (image_mset fst b + p)"

lemmas accounted_parts = accounted_def located_def

lemma once_made:
  assumes "once sv calls u0 hist us n rets q a" and "\<And>i. i \<in># q \<Longrightarrow> i < n"
  shows "once sv calls u0 hist us (Suc n) rets (add_mset n q) a"
proof -
  have "n \<notin># q" "n \<notin> set hist" using assms by (auto simp: once_def)
  then show ?thesis using assms(1) by (auto simp: once_def not_in_iff)
qed

lemma once_served:
  assumes "once sv calls u0 hist us n rets (add_mset i q) a" and "executed sv (calls i) us us'" and "i < n"
  shows "once sv calls u0 (hist @ [i]) us' n rets q (add_mset i a)"
proof -
  have o: "executions sv calls u0 hist us" "distinct hist" "set hist \<subseteq> {..<n}" "\<And>j. count (add_mset i q) j \<le> 1"
    "\<And>j. j \<in># add_mset i q \<Longrightarrow> j \<notin> set hist" "\<And>j. j \<in># a \<Longrightarrow> j \<in> set hist"
    "\<And>j r. (j, r) \<in> set rets \<Longrightarrow> r \<notin> failures \<Longrightarrow> j \<in> set hist"
    using assms(1) unfolding once_def by blast+
  have "count q i = 0" using o(4) [of i] by simp
  then have "i \<notin># q" by (simp add: not_in_iff)
  moreover have "count q j \<le> 1" for j using o(4) [of j] by (cases "j = i") simp_all
  moreover have "i \<notin> set hist" using o(5) by simp
  ultimately show ?thesis using o assms(2,3) unfolding once_def
    by (intro conjI executions.one_more [OF o(1)]) auto
qed

lemma once_less:
  "once sv calls u0 hist us n rets q a \<Longrightarrow> q' \<subseteq># q \<Longrightarrow> a' \<subseteq># a \<Longrightarrow> once sv calls u0 hist us n rets q' a'"
  unfolding once_def by (meson mset_subset_eqD mset_subset_eq_count le_trans)

lemma once_returned:
  "once sv calls u0 hist us n rets q a \<Longrightarrow> (r \<notin> failures \<Longrightarrow> i \<in> set hist) \<Longrightarrow>
    once sv calls u0 hist us n (rets @ [(i, r)]) q a"
  by (auto simp: once_def)

lemma accounted_init: "accounted keep R us cl sv calls c [] (exchange_init c sc uc us) {#} {#} {#}"
  by (simp add: accounted_parts once_def exchange_init_def conn_at_def executions.no_execution)

lemma accounted_made:
  assumes "accounted keep R u0 cl sv calls c hist x q b p"
  shows "i \<in># q + image_mset fst b + p \<Longrightarrow> i < made x" and "i \<in> fst ` set (returned x) \<Longrightarrow> i < made x"
  using assms by (auto simp: accounted_parts)

text \<open>What each kind of step makes of this.\<close>

lemma accounted_call:
  assumes a: "accounted keep R u0 cl sv calls c hist x q b p" and m: "matched cl sv c (calls (made x))" and le: "Suc (made x) \<le> 2 ^ 31"
    and call: "twowayCall (nhost cl) (stub_of (calls (made x)) (asking x)) (roperation (calls (made x))) (rencode (calls (made x))) =
      Inr (rid, msg, c')"
  shows "accounted keep R u0 cl sv calls c hist
    (x\<lparr>asking := the c', made := Suc (made x), suspended := (suspended x)(rid \<mapsto> made x),
       requests := add_mset msg (requests x)\<rparr>) (add_mset (made x) q) b p"
proof -
  let ?n = "made x"
  have new: "rid = requestId (conn_at c ?n)" "msg = request_at cl calls c ?n" "c' = Some (conn_at c (Suc ?n))"
    using call call_outcome [where calls = calls and i = "made x", OF m] a by (simp_all add: accounted_parts del: requestId_conn_at)
  have "?n \<notin> fst ` set (returned x)" using accounted_made(2) [OF a, of ?n] by blast
  moreover have "requestId (conn_at c ?n) = requestId (conn_at c i) \<longleftrightarrow> i = ?n" if "i \<le> ?n" for i
    using request_ids_differ [of i ?n c] that le by auto
  ultimately have "((suspended x)(requestId (conn_at c ?n) \<mapsto> ?n)) r = Some i \<longleftrightarrow>
      i < Suc ?n \<and> i \<notin> fst ` set (returned x) \<and> r = requestId (conn_at c i)" for r i
    using a unfolding accounted_parts less_Suc_eq by (cases "i = ?n") (auto simp del: requestId_conn_at)
  then have "located keep R cl sv calls c
      (x\<lparr>asking := the c', made := Suc (made x), suspended := (suspended x)(rid \<mapsto> made x),
         requests := add_mset msg (requests x)\<rparr>) (add_mset (made x) q) b p"
    using a by (auto simp: accounted_parts new less_Suc_eq simp del: requestId_conn_at fun_upd_apply)
  moreover have "once sv calls u0 hist (ansstate x) (Suc (made x)) (returned x) (add_mset (made x) q) (image_mset fst b + p)"
    by (rule once_made) (use a accounted_made(1) [OF a] in \<open>auto simp: accounted_def\<close>)
  ultimately show ?thesis by (simp add: accounted_def)
qed

lemma accounted_serve:
  assumes a: "accounted keep R u0 cl sv calls c hist x q b p" and m: "\<And>i. matched cl sv c (calls i)"
    and "msg \<in># requests x" and r: "receive sv (\<lambda>_. False) (answering x) msg (ansstate x) = Inr (c', fx, us)"
  shows "\<exists>hist q b p. accounted keep R u0 cl sv calls c hist
    (x\<lparr>requests := requests x - {#msg#}, answering := the c', ansstate := us,
       busy := busy x + continuations c' fx, replies := replies x + sent fx\<rparr>) q b p"
proof -
  obtain i q' where i: "q = add_mset i q'" "msg = request_at cl calls c i"
    using a assms(3) by (auto simp: accounted_parts dest!: multi_member_split)
  have "fx = [Send (reply_at sv calls c i)] \<or> fx = [Awaiting (requestId (conn_at c i)) True] \<and> returns (calls i)"
    and ran: "executed sv (calls i) (ansstate x) us"
    using serve_outcome [where calls = calls and i = i and sc = "answering x" and us = "ansstate x", OF m] r i(2) by auto
  then consider "fx = [Send (reply_at sv calls c i)]" | "fx = [Awaiting (requestId (conn_at c i)) True]" "returns (calls i)" by blast
  moreover have "i < made x" using accounted_made(1) [OF a, of i] i(1) by simp
  with a i(1) ran have once: "once sv calls u0 (hist @ [i]) us (made x) (returned x) q' (add_mset i (image_mset fst b + p))"
    by (intro once_served) (simp_all add: accounted_def)
  ultimately show ?thesis
  proof cases
    case 1
    then show ?thesis using a i once unfolding accounted_def
      by (intro exI [of _ "hist @ [i]"] exI [of _ q'] exI [of _ b] exI [of _ "add_mset i p"]) (simp add: located_def)
  next
    case 2
    then show ?thesis using a i once unfolding accounted_def
      by (intro exI [of _ "hist @ [i]"] exI [of _ q'] exI [of _ "add_mset (i, c') b"] exI [of _ p]) (simp add: located_def)
  qed
qed

lemma accounted_finish:
  assumes a: "accounted keep R u0 cl sv calls c hist x q b p" and m: "\<And>i. matched cl sv c (calls i)"
    and later: "goes_on later c calls (made x)"
    and "(rid, re, e) \<in># busy x" and e': "later rid e = Inr e'" and fx: "resumed_returned (nhost sv) re rid e' = Inr fx"
  shows "\<exists>hist q b p. accounted keep R u0 cl sv calls c hist (x\<lparr>busy := busy x - {#(rid, re, e)#}, replies := replies x + sent fx\<rparr>) q b p"
proof -
  obtain i rc b' where b: "b = add_mset (i, rc) b'" and i: "rid = requestId (conn_at c i)" "re" "e = result_encoder rc"
    using a assms(4) by (auto simp: accounted_parts dest!: multi_member_split)
  have "i < made x" using accounted_made(1) [OF a, of i] b by simp
  moreover have ret: "returns (calls i)" using a b by (simp add: accounted_parts)
  ultimately have w: "rwrite (calls i) (result_encoder rc) = Inr e'" using goes_onD [OF later] e' i by simp
  obtain e2 where "rwrite (calls i) (result_encoder rc) = Inr e2"
    "finish_reply (nhost sv) (requestId (conn_at c i)) NO_EXCEPTION e2 = reply_at sv calls c i"
    by (rule finish_outcome [where calls = calls and i = i, OF m ret])
  then have "fx = [Send (reply_at sv calls c i)]"
    using fx w i by (auto simp: resumed_returned_def servant_returned_def)
  then show ?thesis using a b i unfolding accounted_def
    by (intro exI [of _ hist] exI [of _ q] exI [of _ b'] exI [of _ "add_mset i p"]) (simp add: located_def)
qed

lemma accounted_arrive:
  assumes a: "accounted keep R u0 cl sv calls c hist x q b p" and m: "\<And>i. matched cl sv c (calls i)"
    and R: "\<And>i. R i (Inr (at_client c (rends (calls i))))" and le: "made x \<le> 2 ^ 31"
    and "msg \<in># replies x" and r: "receive cl (\<lambda>r. suspended x r \<noteq> None) (asking x) msg (askstate x) = Inr (c', fx, uc)"
  shows "\<exists>hist q b p. accounted keep R u0 cl sv calls c hist
    (continue (nhost cl) calls c' fx (x\<lparr>replies := replies x - {#msg#}, asking := the c', askstate := uc\<rparr>)) q b p"
proof -
  obtain i p' where p: "p = add_mset i p'" and i: "msg = reply_at sv calls c i"
    using a assms(5) by (auto simp: accounted_parts dest!: multi_member_split)
  have here: "i < made x" using accounted_made(1) [OF a, of i] p by simp
  let ?rid = "requestId (conn_at c i)"
  obtain d where d: "receive cl (\<lambda>r. suspended x r \<noteq> None) (asking x) msg (askstate x) =
      Inr (Some (asking x), if suspended x ?rid \<noteq> None then [Resume ?rid d] else [], askstate x)"
    "twoway_value (nhost cl) (asking x) (rdecode (calls i)) d = Inr (at_client (asking x) (rends (calls i)))"
    unfolding i by (rule arrive_outcome [where calls = calls and i = i and waiting = "\<lambda>r. suspended x r \<noteq> None", OF m])
  moreover have "asking x = conn_at c (made x)" using a by (simp add: accounted_parts)
  then have seen: "at_client (asking x) (rends (calls i)) = at_client c (rends (calls i))" by (simp only: at_client_conn_at)
  ultimately have new: "c' = Some (asking x)" "fx = (if suspended x ?rid \<noteq> None then [Resume ?rid d] else [])" "uc = askstate x"
    using r by simp_all
  have sus: "suspended x rid = Some j \<longleftrightarrow> j < made x \<and> j \<notin> fst ` set (returned x) \<and> rid = requestId (conn_at c j)" for rid j
    using a unfolding accounted_parts by blast
  have same: "requestId (conn_at c j) = ?rid \<longleftrightarrow> j = i" if "j < made x" for j
    using request_ids_differ [of j i c] that here le by auto
  have less: "once sv calls u0 hist (ansstate x) (made x) (returned x) q (image_mset fst b + p')"
    and ran: "i \<in> set hist"
    using a p once_less [of sv calls u0 hist "ansstate x" "made x" "returned x" q "image_mset fst b + p" q "image_mset fst b + p'"]
    by (auto simp: accounted_def once_def)
  show ?thesis
  proof (cases "i \<in> fst ` set (returned x)")
    case True
    have "suspended x ?rid \<noteq> Some j" for j using sus [of ?rid j] same [of j] True by metis
    then have "continue (nhost cl) calls c' fx (x\<lparr>replies := replies x - {#msg#}, asking := the c', askstate := uc\<rparr>) =
        x\<lparr>replies := replies x - {#msg#}\<rparr>" by (simp add: new del: requestId_conn_at)
    moreover have "keep \<longrightarrow> (\<forall>j < made x. j \<in> fst ` set (returned x) \<or> j \<in># q + image_mset fst b + p')"
      using a p True unfolding accounted_parts by (metis union_iff add_mset_add_single set_mset_add_mset_insert insert_iff)
    ultimately show ?thesis using a p i less unfolding accounted_def
      by (intro exI [of _ hist] exI [of _ q] exI [of _ b] exI [of _ p']) (simp add: located_def del: requestId_conn_at)
  next
    case False
    then have "suspended x ?rid = Some i" using sus here by blast
    then have "continue (nhost cl) calls c' fx (x\<lparr>replies := replies x - {#msg#}, asking := the c', askstate := uc\<rparr>) =
        x\<lparr>replies := replies x - {#msg#}, suspended := (suspended x)(?rid := None),
          returned := returned x @ [(i, Inr (at_client c (rends (calls i))))]\<rparr>"
      using d(2) by (simp add: new seen del: requestId_conn_at)
    moreover have "((suspended x)(?rid := None)) rid = Some j \<longleftrightarrow>
        j < made x \<and> j \<noteq> i \<and> j \<notin> fst ` set (returned x) \<and> rid = requestId (conn_at c j)" for rid j
      using sus [of rid j] same [of j] by (auto simp del: requestId_conn_at)
    moreover have "once sv calls u0 hist (ansstate x) (made x) (returned x @ [(i, Inr (at_client c (rends (calls i))))]) q (image_mset fst b + p')"
      by (rule once_returned [OF less]) (rule ran)
    ultimately show ?thesis using a p i R here False unfolding accounted_def
      by (intro exI [of _ hist] exI [of _ q] exI [of _ b] exI [of _ p'])
        (auto simp: located_def simp del: requestId_conn_at fun_upd_apply)
  qed
qed

lemma continue_frame:
  "made (continue h calls c fx x) = made x" "requests (continue h calls c fx x) = requests x"
  "busy (continue h calls c fx x) = busy x" "replies (continue h calls c fx x) = replies x"
  by (induction h calls c fx x rule: continue.induct) (simp_all split: option.split)

lemma made_grows: "exchange_step cl sv later calls x y \<Longrightarrow> made x \<le> made y"
  by (cases rule: exchange_step.cases) (auto simp: continue_frame)

lemma step_accounted:
  assumes "exchange_step cl sv later calls x y" and a: "accounted keep R u0 cl sv calls c hist x q b p" and m: "\<And>i. matched cl sv c (calls i)" and R: "\<And>i. R i (Inr (at_client c (rends (calls i))))"
    and "goes_on later c calls (made y)" and le: "made y \<le> 2 ^ 31"
  shows "\<exists>hist q b p. accounted keep R u0 cl sv calls c hist y q b p"
  using assms(1)
proof (cases rule: exchange_step.cases)
  case (call rid msg c')
  have "Suc (made x) \<le> 2 ^ 31" using le call(1) by simp
  from accounted_call [OF a m this call(2)] show ?thesis unfolding call(1) by blast
next
  case (serve msg c' fx us)
  from accounted_serve [OF a m serve(2,3)] show ?thesis unfolding serve(1) .
next
  case (finish rid re e e' fx)
  have "goes_on later c calls (made x)" using assms(5) finish(1) by simp
  from accounted_finish [where later = later, OF a m this finish(2-4)] show ?thesis unfolding finish(1) .
next
  case (arrive msg c' fx uc)
  have "made x \<le> 2 ^ 31" using le arrive(1) by (simp add: continue_frame)
  from accounted_arrive [OF a m R this arrive(2,3)] show ?thesis unfolding arrive(1) .
qed

lemma its_end: "its_end c calls i (Inr (at_client c (rends (calls i))))"
  by (simp add: its_end_def)

lemma session_accounted:
  assumes "rtranclp (exchange_step cl sv later calls) (exchange_init c sc uc us) x" and m: "\<And>i. matched cl sv c (calls i)" and R: "\<And>i. R i (Inr (at_client c (rends (calls i))))"
    and "goes_on later c calls (made x)" and "made x \<le> 2 ^ 31"
  shows "\<exists>hist q b p. accounted keep R us cl sv calls c hist x q b p"
  using assms(1,4,5)
proof (induction rule: rtranclp_induct)
  case base
  show ?case by (intro exI) (rule accounted_init)
next
  case (step x y)
  have le: "made x \<le> made y" by (rule made_grows [OF step.hyps(2)])
  then obtain hist q b p where "accounted keep R us cl sv calls c hist x q b p"
    using step.IH goes_on_le [OF step.prems(1)] step.prems(2) by (meson le_trans)
  from step_accounted [OF step.hyps(2) this m R step.prems] show ?case .
qed

text \<open>What is under way, weighted by what still has to happen to it.\<close>

definition under_way :: "('c, 's, 'w) exchange \<Rightarrow> nat" where
  "under_way x = 3 * size (requests x) + 2 * size (busy x) + size (replies x)"

lemma size_minus_member: "m \<in># M \<Longrightarrow> Suc (size (M - {#m#})) = size M"
  by (metis insert_DiffM size_add_mset)

lemma happens:
  "exchange_step cl sv later calls x y \<Longrightarrow> made y = made x \<Longrightarrow> under_way y < under_way x \<Longrightarrow>
    \<exists>y. exchange_step cl sv later calls x y \<and> made y = made x \<and> under_way y < under_way x"
  by blast

lemma something_happens:
  assumes a: "accounted keep R u0 cl sv calls c hist x q b p" and m: "\<And>i. matched cl sv c (calls i)"
    and later: "goes_on later c calls (made x)"
    and "0 < under_way x"
  shows "\<exists>y. exchange_step cl sv later calls x y \<and> made y = made x \<and> under_way y < under_way x"
proof -
  consider i where "i \<in># q" | i rc where "(i, rc) \<in># b" | i where "i \<in># p"
  proof -
    have "q \<noteq> {#} \<or> b \<noteq> {#} \<or> p \<noteq> {#}" using assms(4) a by (auto simp: under_way_def accounted_parts)
    then show thesis using that by (metis multiset_nonemptyE surj_pair)
  qed
  then show ?thesis
  proof cases
    case (1 i)
    then have r: "request_at cl calls c i \<in># requests x" using a by (simp add: accounted_parts)
    obtain sc' fx us' where o1: "receive sv (\<lambda>_. False) (answering x) (request_at cl calls c i) (ansstate x) = Inr (sc', fx, us')"
      "fx = [Send (reply_at sv calls c i)] \<or> fx = [Awaiting (requestId (conn_at c i)) True] \<and> returns (calls i)"
      using serve_outcome [where calls = calls and i = i and sc = "answering x" and us = "ansstate x", OF m] by blast
    show ?thesis by (rule happens [OF exchange_step.serve [OF r o1(1)]])
      (use o1(2) size_minus_member [OF r] in \<open>auto simp: under_way_def\<close>)
  next
    case (2 i rc)
    let ?t = "(requestId (conn_at c i), True, result_encoder rc)"
    have r: "?t \<in># busy x" using a 2 by (force simp: accounted_parts simp del: requestId_conn_at)
    have "i < made x" using accounted_made(1) [OF a, of i] 2 by force
    moreover have ret: "returns (calls i)" using a 2 by (force simp: accounted_parts)
    ultimately have w: "later (requestId (conn_at c i)) = rwrite (calls i)" by (rule goes_onD [OF later])
    obtain e where "rwrite (calls i) (result_encoder rc) = Inr e"
      "finish_reply (nhost sv) (requestId (conn_at c i)) NO_EXCEPTION e = reply_at sv calls c i"
      by (rule finish_outcome [where calls = calls and i = i, OF m ret])
    then have e: "later (requestId (conn_at c i)) (result_encoder rc) = Inr e"
      "resumed_returned (nhost sv) True (requestId (conn_at c i)) e = Inr [Send (reply_at sv calls c i)]"
      using w by (simp_all add: resumed_returned_def servant_returned_def)
    show ?thesis by (rule happens [OF exchange_step.finish [where later = later, OF r e]])
      (use size_minus_member [OF r] in \<open>auto simp: under_way_def\<close>)
  next
    case (3 i)
    then have r: "reply_at sv calls c i \<in># replies x" using a by (simp add: accounted_parts)
    obtain d where d: "receive cl (\<lambda>r. suspended x r \<noteq> None) (asking x) (reply_at sv calls c i) (askstate x) =
        Inr (Some (asking x), if suspended x (requestId (conn_at c i)) \<noteq> None then [Resume (requestId (conn_at c i)) d] else [],
          askstate x)"
      by (rule arrive_outcome [where calls = calls and i = i and waiting = "\<lambda>r. suspended x r \<noteq> None", OF m])
    show ?thesis by (rule happens [OF exchange_step.arrive [OF r d]])
      (use size_minus_member [OF r] in \<open>auto simp: under_way_def continue_frame split: option.split\<close>)
  qed
qed

lemma all_returned:
  assumes a: "accounted True R u0 cl sv calls c hist x q b p" and "under_way x = 0"
  shows "set (map fst (returned x)) = {..<made x}" and "suspended x = (\<lambda>_. None)"
proof -
  have "q = {#}" "b = {#}" "p = {#}" using assms by (auto simp: under_way_def accounted_parts)
  then show s: "set (map fst (returned x)) = {..<made x}" using a unfolding accounted_parts by force
  then have "suspended x rid \<noteq> Some i" for rid i using a unfolding accounted_parts by force
  then show "suspended x = (\<lambda>_. None)" by (intro ext) (metis not_Some_eq)
qed

lemma calls_finish:
  assumes "accounted keep R u0 cl sv calls c hist x q b p" and m: "\<And>i. matched cl sv c (calls i)" and R: "\<And>i. R i (Inr (at_client c (rends (calls i))))"
    and "goes_on later c calls (made x)" and "made x \<le> 2 ^ 31"
  shows "\<exists>y hist q b p. rtranclp (exchange_step cl sv later calls) x y \<and> made y = made x \<and> under_way y = 0 \<and>
    accounted keep R u0 cl sv calls c hist y q b p"
  using assms(1,4,5)
proof (induction "under_way x" arbitrary: x hist q b p rule: less_induct)
  case less
  show ?case
  proof (cases "under_way x = 0")
    case True
    then show ?thesis using less.prems(1) by blast
  next
    case False
    then obtain y where y: "exchange_step cl sv later calls x y" "made y = made x" "under_way y < under_way x"
      using something_happens [where later = later, OF less.prems(1) m less.prems(2)] by auto
    have later: "goes_on later c calls (made y)" using less.prems(2) y(2) by simp
    have le: "made y \<le> 2 ^ 31" using less.prems(3) y(2) by simp
    from step_accounted [OF y(1) less.prems(1) m R later le] obtain hist q b p where "accounted keep R u0 cl sv calls c hist y q b p" by blast
    from less.hyps [OF y(3) this later le] y(2)
    obtain z hist q b p where "rtranclp (exchange_step cl sv later calls) y z" "made z = made x" "under_way z = 0"
      "accounted keep R u0 cl sv calls c hist z q b p" by auto
    then show ?thesis using converse_rtranclp_into_rtranclp [where r = "exchange_step cl sv later calls", OF y(1)] by blast
  qed
qed

lemma makes_call:
  assumes a: "accounted keep R u0 cl sv calls c hist x q b p" and m: "\<And>i. matched cl sv c (calls i)" and "Suc (made x) \<le> 2 ^ 31"
  shows "\<exists>y hist q b p. exchange_step cl sv later calls x y \<and> made y = Suc (made x) \<and> accounted keep R u0 cl sv calls c hist y q b p"
proof -
  have call: "twowayCall (nhost cl) (stub_of (calls (made x)) (asking x)) (roperation (calls (made x))) (rencode (calls (made x))) =
      Inr (requestId (conn_at c (made x)), request_at cl calls c (made x), Some (conn_at c (Suc (made x))))"
    using call_outcome [where calls = calls and i = "made x", OF m] a by (simp add: accounted_parts)
  note step = exchange_step.call [where later = later and sv = sv and cl = cl and calls = calls and x = x, OF call]
  show ?thesis by (intro exI conjI, rule step, simp, rule accounted_call [OF a m assms(3) call])
qed

text \<open>C7. Calls do not mix: however many calls are under way on a connection at a time, in whatever order
  requests and replies arrive and suspended servants go on, each call ends at most once,
  with the value its own servant has written or the exception it has thrown, with the answer of
  \<open>_is_a\<close>, or with OBJECT_NOT_EXIST if there is no such object; and when nothing is under way any
  more, every call has ended and none is left suspended. This holds for the first 2^31
  calls of a connection, whose request ids differ.\<close>

theorem calls_do_not_mix:
  assumes "rtranclp (exchange_step cl sv later calls) (exchange_init c sc uc us) x" and "\<And>i. matched cl sv c (calls i)"
    and "goes_on later c calls (made x)" and "made x \<le> 2 ^ 31"
  shows "distinct (map fst (returned x)) \<and> (\<forall>(i, r) \<in> set (returned x). i < made x \<and> r = Inr (at_client c (rends (calls i)))) \<and>
    (under_way x = 0 \<longrightarrow> set (map fst (returned x)) = {..<made x} \<and> suspended x = (\<lambda>_. None))"
proof -
  obtain hist q b p where a: "accounted True (its_end c calls) us cl sv calls c hist x q b p" using session_accounted [where R = "its_end c calls", OF assms(1,2) its_end assms(3,4)] by blast
  then show ?thesis using all_returned [OF a] unfolding accounted_parts its_end_def by blast
qed

text \<open>C9. Calls do not block one another: if the connection delivers every whole message it is given, in any order,
  then from every state that can be reached the calls made so far can all be brought to their
  end without another call; nothing waits for something else, such as an earlier call. (Whether a TCP
  or WebSocket connection delivers is another matter: it may be lost, and messages may stay queued.)\<close>

theorem calls_return:
  assumes "rtranclp (exchange_step cl sv later calls) (exchange_init c sc uc us) x" and "\<And>i. matched cl sv c (calls i)"
    and "goes_on later c calls (made x)" and "made x \<le> 2 ^ 31"
  shows "\<exists>y. rtranclp (exchange_step cl sv later calls) x y \<and> made y = made x \<and> under_way y = 0 \<and>
    set (map fst (returned y)) = {..<made x}"
  using assms(1,3,4)
proof -
  obtain hist q b p where a: "accounted True (its_end c calls) us cl sv calls c hist x q b p" using session_accounted [where R = "its_end c calls", OF assms(1,2) its_end assms(3,4)] by blast
  from calls_finish [where later = later, OF this assms(2) its_end assms(3,4)]
  obtain y hist q b p where y: "rtranclp (exchange_step cl sv later calls) x y" "made y = made x" "under_way y = 0"
    "accounted True (its_end c calls) us cl sv calls c hist y q b p" by auto
  then show ?thesis using all_returned(1) [OF y(4,3)] by (intro exI [of _ y]) simp
qed

section \<open>Witnesses\<close>

text \<open>The \<open>i\<close>th call sends \<open>i\<close> and gets \<open>i + 1\<close>, between machines of different byte order.\<close>

definition sample_next :: "nat \<Rightarrow> (u32, u32) remote_call" where
  "sample_next i = \<lparr>rkey = lit ''OID:1'', roperation = lit ''next'', rencode = wr_ok (on_buf (writeUlong LE (of_nat i))),
     rdecode = cdr (readUlong LE), rread = cdr (readUlong BE), rwrite = wr_ok (on_buf (writeUlong BE (of_nat i + 1))),
     rargs = cdr_ulong (native LE) (of_nat i), rargument = of_nat i, rresults = cdr_ulong (native BE) (of_nat i + 1),
     rends = Returns (of_nat i + 1)\<rparr>"

definition sample_later :: "u32 \<Rightarrow> giop_encoder writer" where
  "sample_later rid = rwrite (sample_next (unat rid div 2))"

text \<open>The second call is refused by its servant.\<close>

definition sample_refused :: "(u32, u32) remote_call" where
  "sample_refused = (sample_next 1)\<lparr>roperation := lit ''refuse'',
     rends := RaisesSystem \<lparr>sclass = BAD_PARAM, sminor = 3, scompleted = MAYBE\<rparr>\<rparr>"

text \<open>The third asks for an object nobody has activated.\<close>

definition sample_unknown :: "(u32, u32) remote_call" where
  "sample_unknown = (sample_next 2)\<lparr>rkey := lit ''OID:2'', rends := RaisesSystem no_such_object\<rparr>"

definition sample_mixed :: "nat \<Rightarrow> (u32, u32) remote_call" where
  "sample_mixed i = (if i = 1 then sample_refused else if i = 2 then sample_unknown else sample_next i)"

lemma sample_matched: "matched (sample_node LE) (sample_node BE) sample_connection (sample_next i)"
proof -
  have "callable (sample_stub (lit ''OID:1'')) sample_connection (lit ''next'')" by (rule sample_callable) simp
  then show ?thesis
    by (auto simp: matched_def served_def dispatch_servant_def dispatched_as_def sample_next_def stub_of_def sample_simps sample_args short_ulong gparses_ulong
        wr_ok_def simp del: native.simps)
qed

lemma sample_mixed_matched: "matched (sample_node LE) (sample_node BE) sample_connection (sample_mixed i)"
proof -
  have "callable (sample_stub (lit ''OID:1'')) sample_connection (lit ''refuse'')" by (rule sample_callable) simp
  then have "matched (sample_node LE) (sample_node BE) sample_connection sample_refused"
    by (auto simp: matched_def served_def dispatch_servant_def dispatched_as_def sample_refused_def sample_next_def stub_of_def
        sample_simps sample_args short_ulong gparses_ulong simp del: native.simps)
  moreover have "callable (sample_stub (lit ''OID:2'')) sample_connection (lit ''next'')" by (rule sample_callable) simp
  then have "matched (sample_node LE) (sample_node BE) sample_connection sample_unknown"
    by (auto simp: matched_def served_def sample_unknown_def sample_next_def stub_of_def
        sample_simps sample_args short_ulong gparses_ulong simp del: native.simps)
  ultimately show ?thesis using sample_matched by (simp add: sample_mixed_def)
qed

text \<open>A question the ORB answers itself: is the object of class B? It is of class A.\<close>

definition sample_is_a :: "(bytes, bool) remote_call" where
  "sample_is_a = \<lparr>rkey = lit ''OID:1'', roperation = lit ''_is_a'',
     rencode = wr_ok (on_buf (writeString LE (lit ''IDL:B:1.0''))), rdecode = cdr readBoolean,
     rread = cdr (readStringView BE), rwrite = wr_ok (on_buf (writeBoolean False)),
     rargs = cdr_string (native LE) (lit ''IDL:B:1.0''), rargument = lit ''IDL:B:1.0'', rresults = cdr_raw [0], rends = Returns False\<rparr>"

lemma sample_is_a_matched: "matched (sample_node LE) (sample_node BE) sample_connection sample_is_a"
proof -
  have st: "callable (stub_of sample_is_a sample_connection) sample_connection (lit ''_is_a'')"
    unfolding stub_of_def sample_is_a_def remote_call.simps by (rule sample_callable [unfolded sample_stub_def]) simp
  have len: "length (lit ''IDL:B:1.0'') + 1 < 2 ^ 32" by simp
  note reads = gparses_cdr [OF parses_string(2) [OF len native_not_0], of "\<lambda>_. True" LE BE]
  have args: "gemits (\<lambda>_. True) (rencode sample_is_a) (\<lambda>e. e) (rargs sample_is_a)" "short (rargs sample_is_a)"
    unfolding sample_is_a_def remote_call.simps by (rule gemits_buf [OF emits_string], rule short_string) simp
  have results: "gemits (\<lambda>_. True) (rwrite sample_is_a) (\<lambda>e. e) (cdr_raw [if False then 1 else 0])"
      "gparses (\<lambda>_. True) (native BE) (rdecode sample_is_a) False (\<lambda>g. g) (cdr_raw [if False then 1 else 0])"
    unfolding sample_is_a_def remote_call.simps
    by (rule gemits_buf [OF emits_boolean], rule gparses_cdr [OF parses_boolean])
  have k: "servants (norb (sample_node BE)) (rkey sample_is_a) = Some 1" "sk_rid (skels (norb (sample_node BE)) 1) = lit ''IDL:A:1.0''"
      "lit ''IDL:B:1.0'' \<noteq> lit ''IDL:A:1.0''" "nhost (sample_node LE) = LE" "nhost (sample_node BE) = BE"
    by (simp_all add: sample_is_a_def sample_simps)
  have "roperation sample_is_a = lit ''_is_a''" "returns sample_is_a" "rargs sample_is_a = cdr_string (native LE) (lit ''IDL:B:1.0'')"
      "rresults sample_is_a = cdr_raw [if lit ''IDL:B:1.0'' = lit ''IDL:A:1.0'' then 1 else 0]"
    using k(3) by (simp_all only: sample_is_a_def remote_call.simps returns_def raised.simps if_False refl)
  then have "served (sample_node LE) (sample_node BE) sample_is_a"
    unfolding served_def k(1,2,4,5) option.case using reads by (simp only: if_True refl) blast
  then show ?thesis using st args results reads
    by (auto simp: matched_def sample_is_a_def sample_node_def short_def cdr_raw_def simp del: lit_simps native.simps)
qed

lemma many_calls:
  assumes m: "\<And>i. matched cl sv c (calls i)" and "n \<le> 2 ^ 31"
  shows "\<exists>x hist q b p. rtranclp (exchange_step cl sv later calls) (exchange_init c sc uc us) x \<and> made x = n \<and>
    accounted True (its_end c calls) us cl sv calls c hist x q b p"
  using assms(2)
proof (induction n)
  case 0
  show ?case by (intro exI conjI, rule rtranclp.rtrancl_refl, simp add: exchange_init_def, rule accounted_init)
next
  case (Suc n)
  then obtain x hist q b p where x: "rtranclp (exchange_step cl sv later calls) (exchange_init c sc uc us) x" "made x = n"
    "accounted True (its_end c calls) us cl sv calls c hist x q b p" by auto
  with makes_call [OF x(3) m, where later = later] Suc.prems
  obtain y hist q b p where "exchange_step cl sv later calls x y" "made y = Suc n"
    "accounted True (its_end c calls) us cl sv calls c hist y q b p" by auto
  with x(1) show ?case by (meson rtranclp.rtrancl_into_rtrancl)
qed

lemma sample_two_calls:
  "\<exists>x. rtranclp (exchange_step (sample_node LE) (sample_node BE) later sample_next)
      (exchange_init sample_connection sample_connection uc us) x \<and> made x = 2"
  using many_calls [where calls = sample_next and n = 2, OF sample_matched] by fastforce

lemma sample_goes_on: "n \<le> 2 \<Longrightarrow> goes_on sample_later sample_connection sample_next n"
  unfolding goes_on_def
proof (intro allI impI)
  fix i assume "n \<le> 2" "i < n"
  then have "i < 2" by simp
  then show "sample_later (requestId sample_connection + 2 * of_nat i) = rwrite (sample_next i)"
    by (auto simp: sample_later_def sample_connection_def conn_init_def less_2_cases_iff)
qed

lemma sample_mixed_goes_on: "goes_on sample_later sample_connection sample_mixed 3"
  using sample_goes_on [of 1]
  by (auto simp: goes_on_def sample_mixed_def sample_refused_def sample_unknown_def returns_def numeral_3_eq_3 less_Suc_eq)

lemma returned_pairs:
  fixes n :: nat and xs :: "(nat \<times> 'r) list"
  assumes "\<forall>(i, r) \<in> set xs. i < n \<and> r = f i" and "set (map fst xs) = {..<n}"
  shows "set xs = (\<lambda>i. (i, f i)) ` {..<n}"
proof (rule set_eqI)
  fix p :: "nat \<times> 'r"
  obtain i r where p: "p = (i, r)" by (cases p)
  have "(i, f i) \<in> set xs" if "i < n"
  proof -
    have "i \<in> fst ` set xs" using assms(2) that by simp
    then obtain r' where r': "(i, r') \<in> set xs" by auto
    then show ?thesis using bspec [OF assms(1) r'] by simp
  qed
  then show "p \<in> set xs \<longleftrightarrow> p \<in> (\<lambda>i. (i, f i)) ` {..<n}"
    using bspec [OF assms(1), of p] p by (auto simp: image_iff)
qed

lemma sample_mixed_calls:
  obtains x where "rtranclp (exchange_step (sample_node LE) (sample_node BE) sample_later sample_mixed)
      (exchange_init sample_connection sample_connection 0 7) x"
    and "made x = 3" and "under_way x = 0"
proof -
  let ?step = "exchange_step (sample_node LE) (sample_node BE) sample_later sample_mixed"
  obtain x hist q b p where x: "rtranclp ?step (exchange_init sample_connection sample_connection 0 7) x" "made x = 3"
    "accounted True (its_end sample_connection sample_mixed) 7 (sample_node LE) (sample_node BE) sample_mixed sample_connection hist x q b p"
    using many_calls [where calls = sample_mixed and n = 3, OF sample_mixed_matched] by fastforce
  have n: "goes_on sample_later sample_connection sample_mixed (made x)" "made x \<le> 2 ^ 31"
    using x(2) sample_mixed_goes_on by simp_all
  from calls_finish [where later = sample_later, OF x(3) sample_mixed_matched its_end n] x(2)
  obtain y where "rtranclp ?step x y" "made y = 3" "under_way y = 0" by auto
  with that x(1) show thesis by (meson rtranclp_trans)
qed

lemma calls_return_witness:
  "\<exists>y :: (nat, nat, u32) exchange. rtranclp (exchange_step (sample_node LE) (sample_node BE) sample_later sample_mixed)
      (exchange_init sample_connection sample_connection 0 7) y \<and> set (map fst (returned y)) = {0, 1, 2}"
proof -
  obtain x :: "(nat, nat, u32) exchange" where x: "rtranclp (exchange_step (sample_node LE) (sample_node BE) sample_later sample_mixed)
      (exchange_init sample_connection sample_connection 0 7) x" "made x = 3" by (rule sample_mixed_calls)
  have n: "goes_on sample_later sample_connection sample_mixed (made x)" "made x \<le> 2 ^ 31"
    using x(2) sample_mixed_goes_on by simp_all
  from calls_return [OF x(1) sample_mixed_matched n] obtain y
    where y: "rtranclp (exchange_step (sample_node LE) (sample_node BE) sample_later sample_mixed) x y"
      "set (map fst (returned y)) = {..<made x}" by blast
  have "{..<made x} = {0, 1, 2}" using x(2) by auto
  then show ?thesis using rtranclp_trans [OF x(1) y(1)] y(2) by (intro exI [of _ y]) simp
qed

lemma calls_do_not_mix_witness:
  "\<exists>y :: (nat, nat, u32) exchange. rtranclp (exchange_step (sample_node LE) (sample_node BE) sample_later sample_mixed)
      (exchange_init sample_connection sample_connection 0 7) y \<and> set (returned y) = {(0, Inr (Inr 1)),
        (1, Inr (Inl (ThrewSystem \<lparr>sclass = BAD_PARAM, sminor = 3, scompleted = MAYBE\<rparr>))),
        (2, Inr (Inl (ThrewSystem no_such_object)))}"
proof -
  obtain y :: "(nat, nat, u32) exchange" where y: "rtranclp (exchange_step (sample_node LE) (sample_node BE) sample_later sample_mixed)
      (exchange_init sample_connection sample_connection 0 7) y" "made y = 3" "under_way y = 0" by (rule sample_mixed_calls)
  have n: "goes_on sample_later sample_connection sample_mixed (made y)" "made y \<le> 2 ^ 31"
    using y(2) sample_mixed_goes_on by simp_all
  let ?outcome = "\<lambda>i. Inr (at_client sample_connection (rends (sample_mixed i))) :: error + call_result + u32"
  have "\<forall>(i, r) \<in> set (returned y). i < made y \<and> r = ?outcome i" "set (map fst (returned y)) = {..<made y}"
    using calls_do_not_mix [OF y(1) sample_mixed_matched n] y(3) by simp_all
  from returned_pairs [OF this] have "set (returned y) = (\<lambda>i. (i, ?outcome i)) ` {..<3}" using y(2) by simp
  also have "\<dots> = {(0, ?outcome 0), (1, ?outcome 1), (2, ?outcome 2)}" by (auto simp: lessThan_Suc numeral_3_eq_3 numeral_2_eq_2)
  finally have all: "set (returned y) = {(0, ?outcome 0), (1, ?outcome 1), (2, ?outcome 2)}" .
  have ends: "rends (sample_mixed 0) = Returns 1" "rends (sample_mixed 2) = RaisesSystem no_such_object"
    "rends (sample_mixed 1) = RaisesSystem \<lparr>sclass = BAD_PARAM, sminor = 3, scompleted = MAYBE\<rparr>"
    by (simp_all add: sample_mixed_def sample_next_def sample_refused_def sample_unknown_def)
  have "set (returned y) = {(0, Inr (Inr 1)),
      (1, Inr (Inl (ThrewSystem \<lparr>sclass = BAD_PARAM, sminor = 3, scompleted = MAYBE\<rparr>))),
      (2, Inr (Inl (ThrewSystem no_such_object)))}"
    unfolding all ends by (simp add: thrown_at_client_def no_such_object_def)
  with y(1) show ?thesis by blast
qed

end
