(* ===== verification/Handlers.thy ===== *)
theory Handlers
  imports ORB TCP
begin

text \<open>
  The class \<open>Object\<close> and the table of exception handlers (src/corba/orb.cc, src/corba/orb.hh), and the
  whole of a call: what becomes of it when its message cannot be sent, and when it is resumed.
\<close>

section \<open>Objects\<close>

definition object_rid :: bytes where
  "object_rid = lit ''IDL:omg.org/CORBA/Object:1.0''"

definition object_is_a :: "bytes \<Rightarrow> bool" where
  "object_is_a logical_type_id \<longleftrightarrow> logical_type_id = object_rid"

section \<open>The table of handlers\<close>

text \<open>The global map goes from the addresses of objects to handlers; \<open>'f\<close> are the handlers.\<close>

type_synonym 'f handlers = "sref \<Rightarrow> 'f option"

definition installSystemExceptionHandler :: "sref \<Rightarrow> 'f \<Rightarrow> 'f handlers \<Rightarrow> 'f handlers" where
  "installSystemExceptionHandler obj handler hs = hs(obj \<mapsto> handler)"

definition object_destroyed :: "sref \<Rightarrow> 'f handlers \<Rightarrow> 'f handlers" where
  "object_destroyed obj hs = (case hs obj of None \<Rightarrow> hs | Some _ \<Rightarrow> hs(obj := None))"

section \<open>Calls\<close>

text \<open>What \<open>Connection::send\<close> throws: a system exception or something else.\<close>

datatype send_throws = SendThrewSystem system_exception | SendThrew error

text \<open>
  The \<open>try\<close> around \<open>send\<close>: only \<open>COMM_FAILURE\<close> is caught, and its handler run. The result are the
  handlers run and what leaves the function.
\<close>

definition try_send :: "'f handlers \<Rightarrow> sref \<Rightarrow> send_throws option \<Rightarrow> 'f list \<times> send_throws option" where
  "try_send hs st thrown =
     (case thrown of
        Some (SendThrewSystem ex) \<Rightarrow>
          if sclass ex = COMM_FAILURE
          then (case hs st of None \<Rightarrow> ([], None) | Some f \<Rightarrow> ([f], None))
          else ([], thrown)
      | _ \<Rightarrow> ([], thrown))"

text \<open>
  \<open>_twowayCall\<close> up to its suspension and \<open>onewayCall\<close>; \<open>addr\<close> is the address of the stub, \<open>send\<close> what
  the connection throws for the octets.
\<close>

datatype call_start =
    NotEncoded error
  | NotSent send_throws "connection option"
  | WaitsFor u32 "connection option"
  | NotAwaited "connection option"

definition start_twoway ::
    "host \<Rightarrow> 'f handlers \<Rightarrow> sref \<Rightarrow> stub \<Rightarrow> bytes \<Rightarrow> giop_encoder writer \<Rightarrow> (bytes \<Rightarrow> send_throws option) \<Rightarrow>
     call_start \<times> 'f list" where
  "start_twoway h hs addr st operation encode send =
     (case twowayCall h st operation encode of
        Inl err \<Rightarrow> (NotEncoded err, [])
      | Inr (rid, msg, c) \<Rightarrow>
          (case try_send hs addr (send msg) of
             (run, None) \<Rightarrow> (WaitsFor rid c, run)
           | (run, Some ex) \<Rightarrow> (NotSent ex c, run)))"

definition start_oneway ::
    "host \<Rightarrow> 'f handlers \<Rightarrow> sref \<Rightarrow> stub \<Rightarrow> bytes \<Rightarrow> giop_encoder writer \<Rightarrow> (bytes \<Rightarrow> send_throws option) \<Rightarrow>
     call_start \<times> 'f list" where
  "start_oneway h hs addr st operation encode send =
     (case onewayCall h st operation encode of
        Inl err \<Rightarrow> (NotEncoded err, [])
      | Inr (rid, msg, c) \<Rightarrow>
          (case try_send hs addr (send msg) of
             (run, None) \<Rightarrow> (NotAwaited c, run)
           | (run, Some ex) \<Rightarrow> (NotSent ex c, run)))"

text \<open>The interlock resumes a call with an exception or with the decoder of its reply.\<close>

definition resumed_call ::
    "host \<Rightarrow> connection \<Rightarrow> 'a giop_reader \<Rightarrow> system_exception + giop_decoder \<Rightarrow> error + call_result + 'a" where
  "resumed_call h c decode ret =
     (case ret of
        Inl ex \<Rightarrow> Inr (Inl (ThrewSystem ex))
      | Inr d \<Rightarrow> twoway_value h c decode d)"

section \<open>When handlers run\<close>

text \<open>
  A handler runs exactly when \<open>send\<close> itself throws \<open>COMM_FAILURE\<close>, and the call then waits all the
  same; \<open>TRANSIENT\<close> and \<open>TIMEOUT\<close>, which a call is resumed with, reach the caller alone.
\<close>

lemma handlers_run:
  assumes "twowayCall h st operation encode = Inr (rid, msg, c)"
  shows "start_twoway h hs addr st operation encode send =
    (case send msg of
       None \<Rightarrow> (WaitsFor rid c, [])
     | Some (SendThrew err) \<Rightarrow> (NotSent (SendThrew err) c, [])
     | Some (SendThrewSystem ex) \<Rightarrow>
         if sclass ex = COMM_FAILURE then (WaitsFor rid c, case hs addr of None \<Rightarrow> [] | Some f \<Rightarrow> [f])
         else (NotSent (SendThrewSystem ex) c, []))"
  using assms by (auto simp: start_twoway_def try_send_def split: option.split send_throws.split)

lemma handler_of_destroyed: "object_destroyed obj (installSystemExceptionHandler obj f hs) obj = None"
  by (simp add: object_destroyed_def installSystemExceptionHandler_def)

text \<open>What a TCP connection throws is never a system exception.\<close>

definition tcp_throws :: "int \<Rightarrow> bool \<Rightarrow> tcp \<Rightarrow> bytes \<Rightarrow> send_throws option" where
  "tcp_throws r in_progress t msg = map_option SendThrew (snd (tcp_send r in_progress msg t))"

lemma tcp_runs_no_handler:
  "snd (start_twoway h hs addr st operation encode (tcp_throws r in_progress t)) = []"
  by (simp add: start_twoway_def try_send_def tcp_throws_def split: sum.split option.split prod.split)

end
