(* ===== verification/TCP_Properties.thy ===== *)
theory TCP_Properties
  imports TCP
begin

text \<open>
  Properties of a TCP connection: what its handlers keep in any order, that the octets queued
  are the octets given to the system, and the orders in which a message is left lying.
\<close>

section \<open>Runs\<close>

text \<open>
  The application queues messages; the event loop calls a handler only while its watcher is
  active. A run records the messages queued and the effects.
\<close>

datatype tcp_event = Queue bytes | Handler

inductive tcp_step :: "host \<Rightarrow> tcp \<Rightarrow> tcp_event \<Rightarrow> tcp_effect list \<Rightarrow> tcp \<Rightarrow> bool" for h where
  send: "tcp_send r in_progress b c = (c', e) \<Longrightarrow> e \<noteq> Some LibraryMisuse \<Longrightarrow> -1 \<le> r \<Longrightarrow>
    tcp_step h c (Queue b) [] c'"
| can_write: "write_active c \<Longrightarrow> canWrite peer_known rs c = (c', fx) \<Longrightarrow> tcp_step h c Handler fx c'"
| can_read: "read_active c \<Longrightarrow> length fresh = receiveBufferSize (tstream c) \<Longrightarrow>
    canRead h fresh r c = (c', fx, None) \<Longrightarrow> tcp_step h c Handler fx c'"
| timer_fires: "timer_armed c \<Longrightarrow> timer c = (c', fx) \<Longrightarrow> tcp_step h c Handler fx c'"

fun queued :: "tcp_event \<Rightarrow> bytes list" where
  "queued (Queue b) = [b]"
| "queued Handler = []"

inductive tcp_run :: "host \<Rightarrow> nat \<Rightarrow> bytes list \<Rightarrow> tcp_effect list \<Rightarrow> tcp \<Rightarrow> bool" for h rbs where
  outgoing: "tcp_run h rbs [] [] (tcp_init rbs)"
| incoming: "0 \<le> fd \<Longrightarrow> tcp_accept fd (tcp_init rbs) = (c, None) \<Longrightarrow> tcp_run h rbs [] [] c"
| next_event: "tcp_run h rbs bs fx c \<Longrightarrow> tcp_step h c ev fx' c' \<Longrightarrow> tcp_run h rbs (bs @ queued ev) (fx @ fx') c'"

lemmas handler_simps = stopReadHandler_def stopWriteHandler_def startReadHandler_def startWriteHandler_def
  startTimer_def stopTimer_def close_fd_def init_watchers_def

section \<open>The queue\<close>

definition queue_ok :: "tcp \<Rightarrow> bool" where
  "queue_ok c \<longleftrightarrow> (case sendBuffer c of [] \<Rightarrow> bytesSend c = 0 | b # _ \<Rightarrow> bytesSend c \<le> length b)"

definition unsent :: "tcp \<Rightarrow> bytes" where
  "unsent c = drop (bytesSend c) (concat (sendBuffer c))"

fun sent_octets :: "tcp_effect list \<Rightarrow> bytes" where
  "sent_octets [] = []"
| "sent_octets (Sent bs # fx) = bs @ sent_octets fx"
| "sent_octets (_ # fx) = sent_octets fx"

lemma sent_octets_append [simp]: "sent_octets (fx @ fx') = sent_octets fx @ sent_octets fx'"
  by (induction fx rule: sent_octets.induct) simp_all

lemma sent_octets_received [simp]: "sent_octets (map Received ms) = []"
  by (induction ms) simp_all

lemma same_queue:
  "sendBuffer c' = sendBuffer c \<Longrightarrow> bytesSend c' = bytesSend c \<Longrightarrow> queue_ok c' = queue_ok c \<and> unsent c' = unsent c"
  by (simp add: queue_ok_def unsent_def split: list.split)

lemma write_loop_simps:
  "sendBuffer c = [] \<Longrightarrow> write_loop rs c = (c, [], False)"
  "write_loop [] c = (c, [], False)"
  "sendBuffer c = b # bs \<Longrightarrow> n < length b - bytesSend c \<Longrightarrow> write_loop (Took n # rs) c =
     (c\<lparr>bytesSend := bytesSend c + n\<rparr>, [Sent (take n (drop (bytesSend c) b))], False)"
  "sendBuffer c = b # bs \<Longrightarrow> length b - bytesSend c \<le> n \<Longrightarrow> write_loop (Took n # rs) c =
     (let (c', fx, out) = write_loop rs (c\<lparr>sendBuffer := bs, bytesSend := 0\<rparr>)
      in (c', Sent (drop (bytesSend c) b) # fx, out))"
  "sendBuffer c = b # bs \<Longrightarrow> write_loop (EPIPE # rs) c = (close_fd (c\<lparr>tstate := IDLE\<rparr>), [Closed (tfd c)], True)"
  "write_loop (EAGAIN_send # rs) c = (c, [], False)" "write_loop (OtherError_send # rs) c = (c, [], False)"
  by (simp_all add: write_loop.simps [of "_ # _"] write_loop.simps [of "[]"] write_loop.simps [of rs] Let_def min_def
      split: list.split)

text \<open>What happens in one turn of the loop after the other.\<close>

lemma write_loop_turns [consumes 1, case_names ends part whole broken]:
  assumes "write_loop rs c = (c', fx, out)"
    and ends: "\<And>c. P c [] c"
    and part: "\<And>c b bs n. sendBuffer c = b # bs \<Longrightarrow> n < length b - bytesSend c \<Longrightarrow>
      P c [Sent (take n (drop (bytesSend c) b))] (c\<lparr>bytesSend := bytesSend c + n\<rparr>)"
    and whole: "\<And>c b bs fx c'. sendBuffer c = b # bs \<Longrightarrow> P (c\<lparr>sendBuffer := bs, bytesSend := 0\<rparr>) fx c' \<Longrightarrow>
      P c (Sent (drop (bytesSend c) b) # fx) c'"
    and broken: "\<And>c. P c [Closed (tfd c)] (close_fd (c\<lparr>tstate := IDLE\<rparr>))"
  shows "P c fx c'"
  using assms(1)
proof (induction rs arbitrary: c c' fx out)
  case Nil
  then show ?case using ends by (simp add: write_loop_simps)
next
  case (Cons r rs)
  show ?case
  proof (cases "sendBuffer c")
    case Nil
    then show ?thesis using Cons.prems ends by (simp add: write_loop_simps)
  next
    case buf: (Cons b bs)
    show ?thesis
    proof (cases r)
      case (Took n)
      show ?thesis
      proof (cases "n < length b - bytesSend c")
        case True
        then show ?thesis using Cons.prems part [OF buf] buf Took by (auto simp: write_loop_simps)
      next
        case False
        obtain c2 fx2 out2 where "write_loop rs (c\<lparr>sendBuffer := bs, bytesSend := 0\<rparr>) = (c2, fx2, out2)"
          by (metis prod_cases3)
        with Cons.IH [OF this] Cons.prems buf Took False show ?thesis
          using whole [OF buf] by (auto simp: write_loop_simps)
      qed
    qed (use Cons.prems buf ends broken in \<open>auto simp: write_loop_simps\<close>)
  qed
qed

lemma take_drop_more: "take n (drop k xs) @ drop (k + n) xs @ ys = drop k xs @ ys"
  by (metis add.commute append.assoc append_take_drop_id drop_drop)

lemma write_loop_queue:
  "write_loop rs c = (c', fx, out) \<Longrightarrow> queue_ok c \<Longrightarrow> queue_ok c' \<and> sent_octets fx @ unsent c' = unsent c"
proof (induction rule: write_loop_turns)
  case (part c b bs n)
  then show ?case using take_drop_more [of n "bytesSend c" b "concat bs"] by (simp add: queue_ok_def unsent_def)
next
  case (whole c b bs fx c')
  have "queue_ok (c\<lparr>sendBuffer := bs, bytesSend := 0\<rparr>)" by (cases bs) (simp_all add: queue_ok_def)
  then show ?case using whole by (simp add: queue_ok_def unsent_def)
qed (auto simp: queue_ok_def unsent_def close_fd_def split: list.splits)

lemma up_queue: "up r in_progress c = (c', e) \<Longrightarrow> sendBuffer c' = sendBuffer c \<and> bytesSend c' = bytesSend c"
  by (auto simp: up_def handler_simps Let_def split: if_splits option.splits)

lemma tcp_send_queue:
  assumes "tcp_send r in_progress b c = (c', e)"
  shows "sendBuffer c' = sendBuffer c @ [b] \<and> bytesSend c' = bytesSend c"
proof (cases "tstate c = IDLE")
  case True
  then show ?thesis using assms up_queue [of r in_progress "c\<lparr>sendBuffer := sendBuffer c @ [b]\<rparr>" c' e]
    by (simp add: tcp_send_def)
next
  case False
  then show ?thesis using assms by (cases "tstate c") (auto simp: tcp_send_def handler_simps Let_def split: if_splits)
qed

lemma canWrite_queue:
  assumes "canWrite p rs c = (c', fx)" and "queue_ok c"
  shows "queue_ok c' \<and> sent_octets fx @ unsent c' = unsent c"
proof -
  let ?c1 = "stopWriteHandler c"
  have c1: "queue_ok ?c1 = queue_ok c \<and> unsent ?c1 = unsent c"
    by (intro same_queue) (simp_all add: handler_simps)
  show ?thesis
  proof (cases "tstate ?c1 = INPROGRESS \<and> \<not> p")
    case True
    then have "c' = close_fd (?c1\<lparr>tstate := IDLE\<rparr>)" "sent_octets fx = []" using assms(1) by (auto simp: canWrite_def Let_def)
    then show ?thesis using c1 assms(2) same_queue [of c' ?c1] by (simp add: close_fd_def)
  next
    case False
    obtain c2 fx2 out where w: "write_loop rs ?c1 = (c2, fx2, out)" by (metis prod_cases3)
    have "sendBuffer c' = sendBuffer c2 \<and> bytesSend c' = bytesSend c2 \<and> fx = fx2"
      using assms(1) False w by (auto simp: canWrite_def Let_def handler_simps split: if_splits)
    then show ?thesis using write_loop_queue [OF w] same_queue [of c' c2] c1 assms(2) by simp
  qed
qed

lemma canRead_queue:
  "canRead h fresh r c = (c', fx, e) \<Longrightarrow> sendBuffer c' = sendBuffer c \<and> bytesSend c' = bytesSend c \<and> sent_octets fx = []"
  by (auto simp: canRead_def handler_simps Let_def split: recv_result.splits if_splits prod.splits)

lemma timer_queue:
  "timer c = (c', fx) \<Longrightarrow> sendBuffer c' = sendBuffer c \<and> bytesSend c' = bytesSend c \<and> sent_octets fx = []"
  by (auto simp: timer_def handler_simps Let_def split: if_splits)

lemma tcp_step_queue:
  assumes "tcp_step h c ev fx c'" and "queue_ok c"
  shows "queue_ok c' \<and> sent_octets fx @ unsent c' = unsent c @ concat (queued ev)"
  using assms(1)
proof cases
  case (send r in_progress b e)
  from tcp_send_queue [OF send(3)] send(1,2) assms(2) show ?thesis
    by (cases "sendBuffer c") (auto simp: queue_ok_def unsent_def)
next
  case (can_write p rs)
  then show ?thesis using canWrite_queue [OF can_write(3) assms(2)] by simp
next
  case (can_read fresh r)
  then show ?thesis using canRead_queue [OF can_read(4)] same_queue [of c' c] assms(2) by simp
next
  case timer_fires
  then show ?thesis using timer_queue [OF timer_fires(3)] same_queue [of c' c] assms(2) by simp
qed

lemma tcp_run_queue: "tcp_run h rbs bs fx c \<Longrightarrow> queue_ok c \<and> sent_octets fx @ unsent c = concat bs"
proof (induction rule: tcp_run.induct)
  case outgoing
  show ?case by (simp add: tcp_init_def queue_ok_def unsent_def)
next
  case (incoming fd c)
  then show ?case
    by (auto simp: tcp_accept_def tcp_init_def queue_ok_def unsent_def handler_simps Let_def split: if_splits)
next
  case (next_event bs fx c ev fx' c')
  then show ?case using tcp_step_queue [OF next_event(2)] by (metis append.assoc concat_append sent_octets_append)
qed

text \<open>C22. The octets given to the operating system, over the whole life of a connection, and those still
  queued are exactly the messages queued, in order: however much the system takes at a time,
  and whichever handlers are called in between, no octet is lost, repeated or changed.\<close>

theorem nothing_lost_or_repeated:
  assumes "tcp_run h rbs bs fx c"
  shows "sent_octets fx @ unsent c = concat bs \<and> prefix (sent_octets fx) (concat bs)"
  using tcp_run_queue [OF assms] by (metis prefixI)

section \<open>The states\<close>

text \<open>
  There is a file descriptor exactly while the connection is being made or established; then the
  read handler is active; and while it is being made \<open>timer_active\<close> is set.
\<close>

definition state_ok :: "tcp \<Rightarrow> bool" where
  "state_ok c \<longleftrightarrow>
     (0 \<le> tfd c \<longleftrightarrow> tstate c = INPROGRESS \<or> tstate c = ESTABLISHED) \<and> -1 \<le> tfd c \<and>
     (tstate c = INPROGRESS \<or> tstate c = ESTABLISHED \<longrightarrow> read_active c) \<and>
     (tstate c = INPROGRESS \<longrightarrow> timer_active c) \<and> (timer_armed c \<longrightarrow> timer_active c)"

lemma state_ok_simps [simp]:
  "state_ok (c\<lparr>sendBuffer := bs\<rparr>) = state_ok c" "state_ok (c\<lparr>bytesSend := n\<rparr>) = state_ok c"
  "state_ok (c\<lparr>tstream := s\<rparr>) = state_ok c" "state_ok (startWriteHandler c) = state_ok c"
  "state_ok (stopWriteHandler c) = state_ok c"
  by (simp_all add: state_ok_def handler_simps)

lemma state_ok_idle: "state_ok c \<Longrightarrow> state_ok (close_fd (c\<lparr>tstate := IDLE\<rparr>))"
  "state_ok c \<Longrightarrow> state_ok (close_fd ((stopReadHandler c)\<lparr>tstate := IDLE\<rparr>))"
  by (simp_all add: state_ok_def handler_simps)

lemma up_ok:
  "up r in_progress c = (c', e) \<Longrightarrow> state_ok c \<Longrightarrow> e \<noteq> Some LibraryMisuse \<Longrightarrow> -1 \<le> r \<Longrightarrow> state_ok c'"
  by (auto simp: up_def handler_simps Let_def state_ok_def split: if_splits)

lemma write_loop_ok: "write_loop rs c = (c', fx, out) \<Longrightarrow> state_ok c \<Longrightarrow> state_ok c'"
  by (induction rule: write_loop_turns) (simp_all add: state_ok_idle)

lemma canWrite_ok: "canWrite p rs c = (c', fx) \<Longrightarrow> state_ok c \<Longrightarrow> state_ok c'"
  by (auto simp: canWrite_def Let_def state_ok_idle dest!: write_loop_ok split: if_splits prod.splits)

lemma canRead_ok: "canRead h fresh r c = (c', fx, e) \<Longrightarrow> state_ok c \<Longrightarrow> state_ok c'"
  by (cases r; cases "tstate c = INPROGRESS")
     (auto simp: canRead_def Let_def state_ok_def handler_simps split: if_splits prod.splits)

lemma timer_ok: "timer c = (c', fx) \<Longrightarrow> state_ok c \<Longrightarrow> state_ok c'"
  by (auto simp: timer_def Let_def state_ok_def handler_simps split: if_splits)

lemma tcp_send_ok:
  assumes "tcp_send r in_progress b c = (c', e)" and "state_ok c" and "e \<noteq> Some LibraryMisuse" and "-1 \<le> r"
  shows "state_ok c'"
proof (cases "tstate c")
  case IDLE
  then show ?thesis using assms up_ok [of r in_progress "c\<lparr>sendBuffer := sendBuffer c @ [b]\<rparr>" c' e]
    by (simp add: tcp_send_def)
qed (use assms in \<open>auto simp: tcp_send_def Let_def\<close>)

lemma tcp_step_ok: "tcp_step h c ev fx c' \<Longrightarrow> state_ok c \<Longrightarrow> state_ok c'"
  by (cases rule: tcp_step.cases) (auto intro: tcp_send_ok canWrite_ok canRead_ok timer_ok)

lemma state_ok_init: "state_ok (tcp_init rbs)" "0 \<le> fd \<Longrightarrow> tcp_accept fd (tcp_init rbs) = (c, None) \<Longrightarrow> state_ok c"
  by (auto simp: state_ok_def tcp_init_def tcp_accept_def handler_simps Let_def)

text \<open>C23. Whatever the order of events, a connection has a file descriptor exactly while it is being
  made or established, reads exactly then, and has started the timer while it is being made.\<close>

theorem connection_states:
  assumes "tcp_run h rbs bs fx c"
  shows "(0 \<le> tfd c \<longleftrightarrow> tstate c = INPROGRESS \<or> tstate c = ESTABLISHED) \<and>
    (0 \<le> tfd c \<longrightarrow> read_active c) \<and> (tstate c = INPROGRESS \<longrightarrow> timer_active c)"
proof -
  have "state_ok c" using assms
    by (induction rule: tcp_run.induct) (auto intro: state_ok_init tcp_step_ok)
  then show ?thesis by (auto simp: state_ok_def)
qed


section \<open>The queue is emptied\<close>

text \<open>
  The event loop calls \<open>canWrite\<close> while the write handler is active. \<open>unsent_work\<close> falls with
  every call in which the system takes something.
\<close>

fun write_calls :: "send_result list list \<Rightarrow> tcp \<Rightarrow> tcp \<times> tcp_effect list" where
  "write_calls [] c = (c, [])"
| "write_calls (rs # rss) c =
     (if \<not> write_active c then (c, [])
      else let (c1, fx) = canWrite True rs c; (c2, fx') = write_calls rss c1 in (c2, fx @ fx'))"

fun takes_something :: "send_result list \<Rightarrow> bool" where
  "takes_something (Took n # rs) = (0 < n \<and> EPIPE \<notin> set rs)"
| "takes_something _ = False"

definition unsent_work :: "tcp \<Rightarrow> nat" where
  "unsent_work c = length (unsent c) + length (sendBuffer c)"

lemma write_loop_no_return:
  "write_loop rs c = (c', fx, out) \<Longrightarrow> EPIPE \<notin> set rs \<Longrightarrow> \<not> out \<and> tstate c' = tstate c \<and> write_active c' = write_active c"
proof (induction rs arbitrary: c c' fx out)
  case Nil
  then show ?case by (simp add: write_loop_simps)
next
  case (Cons r rs)
  show ?case
  proof (cases "sendBuffer c")
    case Nil
    then show ?thesis using Cons.prems by (auto simp: write_loop_simps)
  next
    case buf: (Cons b bs)
    show ?thesis
    proof (cases r)
      case (Took n)
      obtain c2 fx2 out2 where w: "write_loop rs (c\<lparr>sendBuffer := bs, bytesSend := 0\<rparr>) = (c2, fx2, out2)"
        by (metis prod_cases3)
      show ?thesis using Cons.prems Cons.IH [OF w] w buf Took
        by (cases "n < length b - bytesSend c") (auto simp: write_loop_simps)
    qed (use Cons.prems buf in \<open>auto simp: write_loop_simps\<close>)
  qed
qed

lemma write_loop_work: "write_loop rs c = (c', fx, out) \<Longrightarrow> queue_ok c \<Longrightarrow> unsent_work c' \<le> unsent_work c"
proof (induction rule: write_loop_turns)
  case (whole c b bs fx c')
  have "queue_ok (c\<lparr>sendBuffer := bs, bytesSend := 0\<rparr>)" by (cases bs) (simp_all add: queue_ok_def)
  then show ?case using whole by (simp add: queue_ok_def unsent_work_def unsent_def)
qed (auto simp: unsent_work_def unsent_def close_fd_def)

lemma write_loop_progress:
  assumes "write_loop rs c = (c', fx, out)" and "queue_ok c" and "takes_something rs" and "sendBuffer c \<noteq> []"
  shows "unsent_work c' < unsent_work c"
proof -
  obtain b bs where buf: "sendBuffer c = b # bs" using assms(4) by (cases "sendBuffer c") auto
  obtain n rs' where rs: "rs = Took n # rs'" and n: "0 < n" using assms(3) by (cases rs rule: takes_something.cases) auto
  show ?thesis
  proof (cases "n < length b - bytesSend c")
    case True
    then show ?thesis using assms(1) buf rs n by (auto simp: write_loop_simps unsent_work_def unsent_def)
  next
    case False
    let ?c1 = "c\<lparr>sendBuffer := bs, bytesSend := 0\<rparr>"
    obtain c2 fx2 out2 where w: "write_loop rs' ?c1 = (c2, fx2, out2)" by (metis prod_cases3)
    have "queue_ok ?c1" by (cases bs) (simp_all add: queue_ok_def)
    then have "unsent_work c2 \<le> unsent_work ?c1" by (rule write_loop_work [OF w])
    moreover have "c' = c2" using assms(1) buf rs False w by (simp add: write_loop_simps)
    ultimately show ?thesis using buf assms(2) by (simp add: unsent_work_def unsent_def queue_ok_def)
  qed
qed

lemma canWrite_progress:
  assumes "canWrite True rs c = (c', fx)" and "queue_ok c" and "takes_something rs"
  shows "tstate c' = tstate c \<and> write_active c' = (sendBuffer c' \<noteq> []) \<and>
    (sendBuffer c \<noteq> [] \<longrightarrow> unsent_work c' < unsent_work c) \<and> (sendBuffer c = [] \<longrightarrow> sendBuffer c' = [])"
proof -
  let ?c1 = "stopWriteHandler c"
  have c1: "queue_ok ?c1" "unsent_work ?c1 = unsent_work c" "sendBuffer ?c1 = sendBuffer c" "\<not> write_active ?c1" "tstate ?c1 = tstate c"
    using assms(2) by (simp_all add: handler_simps queue_ok_def unsent_work_def unsent_def split: list.splits)
  obtain c2 fx2 out where w: "write_loop rs ?c1 = (c2, fx2, out)" by (metis prod_cases3)
  have "EPIPE \<notin> set rs" using assms(3) by (cases rs rule: takes_something.cases) auto
  note no_return = write_loop_no_return [OF w this]
  have c': "c' = (if sendBuffer c2 \<noteq> [] then startWriteHandler c2 else c2)"
    using assms(1) w no_return by (auto simp: canWrite_def Let_def)
  then have same: "sendBuffer c' = sendBuffer c2" "unsent_work c' = unsent_work c2"
    by (simp_all add: handler_simps unsent_work_def unsent_def)
  have "sendBuffer c = [] \<Longrightarrow> c2 = ?c1" using w c1(3) by (simp add: write_loop_simps)
  then show ?thesis using no_return c1 c' same write_loop_progress [OF w c1(1) assms(3)]
    by (auto simp: handler_simps)
qed


lemma write_calls_empty:
  "write_calls rss c = (c', fx) \<Longrightarrow> queue_ok c \<Longrightarrow> \<forall>rs\<in>set rss. takes_something rs \<Longrightarrow>
   write_active c = (sendBuffer c \<noteq> []) \<Longrightarrow> unsent_work c \<le> length rss \<Longrightarrow>
   sendBuffer c' = [] \<and> \<not> write_active c' \<and> tstate c' = tstate c \<and> sent_octets fx = unsent c"
proof (induction rss arbitrary: c c' fx)
  case Nil
  then show ?case by (simp add: unsent_work_def unsent_def)
next
  case (Cons rs rss)
  show ?case
  proof (cases "write_active c")
    case False
    then show ?thesis using Cons.prems by (simp add: unsent_def)
  next
    case True
    obtain c1 fx1 where w: "canWrite True rs c = (c1, fx1)" by fastforce
    obtain c2 fx2 where ws: "write_calls rss c1 = (c2, fx2)" by fastforce
    have "takes_something rs" using Cons.prems(3) by simp
    note step = canWrite_progress [OF w Cons.prems(2) this] canWrite_queue [OF w Cons.prems(2)]
    have "unsent_work c1 \<le> length rss" using step(1) Cons.prems(4,5) True by simp
    then have "sendBuffer c2 = [] \<and> \<not> write_active c2 \<and> tstate c2 = tstate c1 \<and> sent_octets fx2 = unsent c1"
      using Cons.IH [OF ws] step Cons.prems(3) by simp
    then show ?thesis using step Cons.prems(1) True w ws by auto
  qed
qed

text \<open>C27. On an established connection whose write handler is active exactly while something is queued,
  a message that is sent leaves: if the system takes at least one octet
  in every call of the handler, at most as many calls as there are octets and messages waiting empty the queue,
  and what was given to the system is what was waiting, then the new message.\<close>

theorem queue_drains:
  assumes "tstate c = ESTABLISHED" and "queue_ok c" and "write_active c = (sendBuffer c \<noteq> [])"
    and "tcp_send r in_progress b c = (c1, e)"
    and "\<forall>rs\<in>set rss. takes_something rs" and "unsent_work c1 \<le> length rss"
    and "write_calls rss c1 = (c2, fx)"
  shows "e = None \<and> sendBuffer c2 = [] \<and> \<not> write_active c2 \<and> tstate c2 = ESTABLISHED \<and>
    sent_octets fx = unsent c @ b"
proof -
  have c1: "e = None" "c1 = startWriteHandler (c\<lparr>sendBuffer := sendBuffer c @ [b]\<rparr>)"
    using assms(1,4) by (auto simp: tcp_send_def)
  then have more: "queue_ok c1" "write_active c1 = (sendBuffer c1 \<noteq> [])" "tstate c1 = tstate c" "unsent c1 = unsent c @ b"
    using assms(2) by (auto simp: handler_simps queue_ok_def unsent_def split: list.splits)
  from write_calls_empty [OF assms(7) more(1) assms(5) more(2) assms(6)] c1(1) more(3,4) assms(1)
  show ?thesis by simp
qed

section \<open>Messages that are left lying\<close>

inductive tcp_handlers :: "host \<Rightarrow> tcp \<Rightarrow> tcp_effect list \<Rightarrow> tcp \<Rightarrow> bool" for h where
  no_handler: "tcp_handlers h c [] c"
| a_handler: "tcp_step h c Handler fx c' \<Longrightarrow> tcp_handlers h c' fx' c'' \<Longrightarrow> tcp_handlers h c (fx @ fx') c''"

inductive_cases handler_stepE: "tcp_step h c Handler fx c'"

lemmas handler_step_cases = handler_stepE [consumes 1, case_names can_write can_read timer_fires]

lemma only_canWrite_sends:
  assumes "tcp_step h c Handler fx c'" and "\<not> write_active c"
  shows "\<not> write_active c' \<and> sendBuffer c' = sendBuffer c \<and> sent_octets fx = []"
  using assms(1)
proof (cases rule: handler_step_cases)
  case (can_read fresh r)
  have "write_active c' = write_active c" using can_read(3)
    by (auto simp: canRead_def handler_simps Let_def split: recv_result.splits if_splits prod.splits)
  then show ?thesis using canRead_queue [OF can_read(3)] assms(2) by simp
next
  case timer_fires
  have "write_active c' = write_active c" using timer_fires(2)
    by (auto simp: timer_def handler_simps Let_def split: if_splits)
  then show ?thesis using timer_queue [OF timer_fires(2)] assms(2) by simp
qed (use assms(2) in simp)

lemma handlers_send_nothing:
  "tcp_handlers h c fx c' \<Longrightarrow> \<not> write_active c \<Longrightarrow>
   \<not> write_active c' \<and> sendBuffer c' = sendBuffer c \<and> sent_octets fx = []"
  by (induction rule: tcp_handlers.induct) (auto dest: only_canWrite_sends)

text \<open>While a connection is being made and the first message has been written, the write handler is
  stopped; the connection counts as established only when something is read. A second
  message sent in between is queued without starting the handler, and whatever the event loop
  calls afterwards, also the read that establishes the connection, sends nothing.\<close>

theorem second_request_stalls:
  assumes "tstate c = INPROGRESS" and "\<not> write_active c"
    and "tcp_send r in_progress b c = (c1, e)" and "tcp_handlers h c1 fx c2"
  shows "e = None \<and> sendBuffer c2 = sendBuffer c @ [b] \<and> \<not> write_active c2 \<and> sent_octets fx = []"
proof -
  have "e = None" "c1 = c\<lparr>sendBuffer := sendBuffer c @ [b]\<rparr>" using assms(1,3) by (auto simp: tcp_send_def)
  with handlers_send_nothing [OF assms(4)] assms(2) show ?thesis by simp
qed

text \<open>When \<open>connect\<close> succeeds at once, the connection is established without the write handler, and
  the message that opened it is not sent by any handler.\<close>

theorem connected_at_once_stalls:
  assumes "tstate c = IDLE" and "tfd c < 0" and "\<not> write_active c" and "\<not> read_active c" and "0 \<le> r"
    and "tcp_send r False b c = (c1, e)" and "tcp_handlers h c1 fx c2"
  shows "e = None \<and> tstate c1 = ESTABLISHED \<and> sendBuffer c2 = sendBuffer c @ [b] \<and> sent_octets fx = []"
proof -
  have "e = None \<and> tstate c1 = ESTABLISHED \<and> sendBuffer c1 = sendBuffer c @ [b] \<and> \<not> write_active c1"
    using assms(1-6) by (auto simp: tcp_send_def up_def handler_simps Let_def split: if_splits)
  with handlers_send_nothing [OF assms(7)] show ?thesis by simp
qed


section \<open>Connecting again\<close>

text \<open>After the connection breaks while it is written, or the timer fires while the write handler
  is active, one watcher is left active; the next message opens a new socket and initialises
  the watchers that are still active, which the event loop forbids.\<close>

theorem reconnect_misuses_watcher:
  assumes "c' = fst (canWrite True (EPIPE # rs) c) \<and> read_active c \<and> sendBuffer c \<noteq> [] \<or>
      c' = fst (timer c) \<and> tstate c = INPROGRESS \<and> write_active c"
    and "0 \<le> r"
  shows "tstate c' = IDLE \<and> sendBuffer c' = sendBuffer c \<and> snd (tcp_send r in_progress b c') = Some LibraryMisuse"
proof -
  have broken: "tstate c' = IDLE \<and> sendBuffer c' = sendBuffer c \<and> tfd c' < 0 \<and> (read_active c' \<or> write_active c')"
    using assms(1)
  proof
    assume *: "c' = fst (canWrite True (EPIPE # rs) c) \<and> read_active c \<and> sendBuffer c \<noteq> []"
    then obtain b' bs where "sendBuffer c = b' # bs" by (meson list.exhaust)
    then have "sendBuffer (stopWriteHandler c) = b' # bs" by (simp add: handler_simps)
    then have "canWrite True (EPIPE # rs) c = (close_fd ((stopWriteHandler c)\<lparr>tstate := IDLE\<rparr>), [Closed (tfd (stopWriteHandler c))])"
      by (simp add: canWrite_def Let_def write_loop_simps)
    with * show ?thesis by (auto simp: handler_simps)
  next
    assume "c' = fst (timer c) \<and> tstate c = INPROGRESS \<and> write_active c"
    then show ?thesis by (auto simp: timer_def handler_simps Let_def)
  qed
  then show ?thesis using assms(2) by (simp add: tcp_send_def up_def init_watchers_def Let_def)
qed

text \<open>The timer does not reset \<open>timer_active\<close>: a connection that ran into its timeout connects again
  without a timer, so the second attempt can wait for ever.\<close>

theorem reconnect_without_timer:
  assumes "tstate c = INPROGRESS" and "timer_active c" and "\<not> write_active c" and "0 \<le> r"
    and "timer c = (c1, fx)" and "tcp_send r True b c1 = (c2, e)"
  shows "fx = [Closed (tfd c), FailCalls timeout] \<and> e = None \<and> tstate c2 = INPROGRESS \<and>
    write_active c2 \<and> timer_active c2 \<and> \<not> timer_armed c2"
  using assms by (auto simp: timer_def tcp_send_def up_def handler_simps Let_def split: if_splits)

section \<open>Witnesses\<close>

text \<open>Two messages queued while the connection is made; the first is written by parts.\<close>

definition connecting :: "tcp" where
  "connecting = fst (tcp_send 7 True [1, 2, 3] (tcp_init 100))"

definition first_sent :: "tcp" where
  "first_sent = fst (canWrite True [Took 3] connecting)"

lemma connecting_simps: "tfd connecting = 7" "read_active connecting" "write_active connecting" "timer_active connecting"
    "timer_armed connecting" "tstate connecting = INPROGRESS" "sendBuffer connecting = [[1, 2, 3]]" "bytesSend connecting = 0"
  and first_sent_eq: "first_sent = connecting\<lparr>write_active := False, sendBuffer := [], bytesSend := 0\<rparr>"
  by (simp_all add: first_sent_def connecting_def tcp_init_def tcp_send_def up_def canWrite_def handler_simps Let_def
      write_loop_simps)

lemma connecting_run: "tcp_run h 100 [[1, 2, 3]] [] connecting"
proof -
  have "tcp_send 7 True [1, 2, 3] (tcp_init 100) = (connecting, None)"
    by (simp add: connecting_def tcp_init_def tcp_send_def up_def handler_simps Let_def)
  from next_event [OF outgoing tcp_step.send [OF this]] show ?thesis by simp
qed

lemma first_sent_run: "tcp_run h 100 [[1, 2, 3]] [Sent [1, 2, 3]] first_sent"
proof -
  have "canWrite True [Took 3] connecting = (first_sent, [Sent [1, 2, 3]])"
    by (simp add: first_sent_def canWrite_def Let_def write_loop_simps handler_simps connecting_simps)
  from next_event [OF connecting_run can_write [OF connecting_simps(3) this]] show ?thesis by simp
qed

lemma nothing_lost_or_repeated_witness:
  "sent_octets [Sent [1, 2, 3]] @ unsent first_sent = [1, 2, 3] \<and> prefix (sent_octets [Sent [1, 2, 3]]) [1, 2, 3]"
  using nothing_lost_or_repeated [OF first_sent_run] by simp

lemma connection_states_witness: "0 \<le> tfd connecting \<and> tstate connecting = INPROGRESS \<and> read_active connecting \<and> timer_active connecting"
  using connection_states [OF connecting_run] connecting_simps(6) by blast

lemma queue_drains_witness:
  "sendBuffer (fst (write_calls (replicate 7 [Took 1])
     (startWriteHandler ((fst (tcp_accept 7 (tcp_init 100)))\<lparr>sendBuffer := [[1, 2, 3]]\<rparr>)))) = []"
proof -
  let ?c = "fst (tcp_accept 7 (tcp_init 100))"
  let ?c1 = "startWriteHandler (?c\<lparr>sendBuffer := [[1, 2, 3]]\<rparr>)"
  have c: "tstate ?c = ESTABLISHED" "sendBuffer ?c = []" "bytesSend ?c = 0" "\<not> write_active ?c"
    by (simp_all add: tcp_accept_def tcp_init_def handler_simps Let_def)
  have "tcp_send 0 False [1, 2, 3] ?c = (?c1, None)" using c by (simp add: tcp_send_def)
  from queue_drains [OF c(1) _ _ this, of "replicate 7 [Took 1]" "fst (write_calls (replicate 7 [Took 1]) ?c1)"
      "snd (write_calls (replicate 7 [Took 1]) ?c1)"] c
  show ?thesis by (simp add: queue_ok_def unsent_work_def unsent_def handler_simps)
qed

lemma second_request_stalls_witness:
  "sendBuffer (fst (canRead LE (replicate 100 0) (Got []) (fst (tcp_send 0 False [9] first_sent)))) = [[9]]"
proof -
  let ?c1 = "fst (tcp_send 0 False [9] first_sent)"
  let ?r = "canRead LE (replicate 100 0) (Got []) ?c1"
  have send: "tcp_send 0 False [9] first_sent = (?c1, None)" by (simp add: first_sent_eq tcp_send_def connecting_simps)
  have c1: "read_active ?c1" "receiveBufferSize (tstream ?c1) = 100"
    by (simp_all add: first_sent_eq tcp_send_def connecting_simps)
       (simp add: connecting_def tcp_send_def tcp_init_def up_def handler_simps s2p_init_def)
  have "?r = (fst ?r, fst (snd ?r), None)" by (simp add: canRead_def Let_def)
  from c1 this have step: "tcp_step LE ?c1 Handler (fst (snd ?r)) (fst ?r)" by (intro can_read) simp_all
  from second_request_stalls [OF _ _ send a_handler [OF step no_handler]] show ?thesis
    by (simp add: first_sent_eq connecting_simps)
qed

lemma connected_at_once_stalls_witness:
  "sendBuffer (fst (tcp_send 7 False [1, 2, 3] (tcp_init 100))) = [[1, 2, 3]]"
  using connected_at_once_stalls [OF _ _ _ _ _ surjective_pairing no_handler, of "tcp_init 100" 7 "[1, 2, 3]"]
  by (simp add: tcp_init_def)

lemma reconnect_misuses_watcher_witness:
  "snd (tcp_send 8 True [4] (fst (timer connecting))) = Some LibraryMisuse"
  using reconnect_misuses_watcher [of "fst (timer connecting)" "[]" connecting 8 True "[4]"] connecting_simps by simp

lemma reconnect_without_timer_witness:
  "\<not> timer_armed (fst (tcp_send 8 True [4] (fst (timer first_sent))))"
  using reconnect_without_timer [OF _ _ _ _ surjective_pairing surjective_pairing, of first_sent 8 "[4]"]
  by (simp add: first_sent_eq connecting_simps)

end
