(* ===== verification/Breakdown.thy ===== *)
theory Breakdown
  imports Sessions Handlers TCP_Properties
begin

text \<open>
  What becomes of calls when their connection breaks or is not made in time: \<open>canRead\<close> and \<open>timer\<close>
  (src/corba/net/tcp/connection.cc, src/corba/net/ws/connection.cc) resume every call that is
  suspended with an exception; \<open>canWrite\<close> drops the connection without telling the calls, \<open>send\<close> throws
  if no connection can be made, and a peer that has closed is not noticed at all.
\<close>

section \<open>The loop that fails the calls\<close>

text \<open>
  \<open>while (!interlock.empty()) interlock.resume(interlock.begin()->first, ...)\<close>. The interlock belongs to
  the library async.cc: what it offers is an argument. \<open>il_resume\<close> resumes the call that waits
  under an id with an exception and runs it until it is suspended again or ends, whatever it does
  meanwhile. The result are the ids that have been resumed, in order, and what is left; the loop may not end.
\<close>

record 'i interlock_ops =
  il_empty :: "'i \<Rightarrow> bool"
  il_begin :: "'i \<Rightarrow> u32"
  il_resume :: "u32 \<Rightarrow> system_exception \<Rightarrow> 'i \<Rightarrow> 'i"

partial_function (option) fail_calls ::
    "'i interlock_ops \<Rightarrow> system_exception \<Rightarrow> 'i \<Rightarrow> (u32 list \<times> 'i) option" where
  "fail_calls il ex s =
     (if il_empty il s then Some ([], s)
      else (let rid = il_begin il s in
            Option.bind (fail_calls il ex (il_resume il rid ex s)) (\<lambda>(rids, s'). Some (rid # rids, s'))))"

text \<open>What the loop relies on: \<open>ids\<close> are the ids under which calls wait.\<close>

locale interlock =
  fixes il :: "'i interlock_ops" and ids :: "'i \<Rightarrow> u32 set"
  assumes empty_iff: "il_empty il s \<longleftrightarrow> ids s = {}"
    and begin_waits: "ids s \<noteq> {} \<Longrightarrow> il_begin il s \<in> ids s"
begin

lemma ended: "ids s = {} \<Longrightarrow> fail_calls il ex s = Some ([], s)"
  by (simp add: fail_calls.simps empty_iff)

lemma one_turn:
  "ids s \<noteq> {} \<Longrightarrow> fail_calls il ex s = Option.bind (fail_calls il ex (il_resume il (il_begin il s) ex s))
     (\<lambda>(rids, s'). Some (il_begin il s # rids, s'))"
  by (subst fail_calls.simps) (simp add: empty_iff Let_def)

text \<open>If no call that is resumed makes another one at once, the loop ends and has resumed each call once.\<close>

lemma all_resumed:
  assumes "\<And>s rid. rid \<in> ids s \<Longrightarrow> ids (il_resume il rid ex s) = ids s - {rid}"
  shows "\<exists>rids. fail_calls il ex s = Some (rids, fold (\<lambda>rid. il_resume il rid ex) rids s) \<and> distinct rids \<and> set rids = ids s"
proof -
  have "finite (ids s)" by simp
  then show ?thesis
  proof (induction "ids s" arbitrary: s rule: finite_psubset_induct)
    case psubset
    show ?case
    proof (cases "ids s = {}")
      case False
      let ?rid = "il_begin il s"
      have rid: "?rid \<in> ids s" by (rule begin_waits [OF False])
      then have rest: "ids (il_resume il ?rid ex s) = ids s - {?rid}" by (rule assms)
      then obtain rids where "fail_calls il ex (il_resume il ?rid ex s) =
          Some (rids, fold (\<lambda>rid. il_resume il rid ex) rids (il_resume il ?rid ex s))"
        "distinct rids" "set rids = ids s - {?rid}"
        using psubset(2) [of "il_resume il ?rid ex s"] rid by auto
      then show ?thesis using one_turn [OF False] rid by (intro exI [of _ "?rid # rids"]) auto
    qed (simp add: ended)
  qed
qed

text \<open>If there always is another call that waits, it does not end.\<close>

lemma never_ends:
  assumes "\<And>s rid. rid \<in> ids s \<Longrightarrow> ids (il_resume il rid ex s) \<noteq> {}" and "ids s \<noteq> {}"
  shows "fail_calls il ex s = None"
proof -
  have "il = il' \<longrightarrow> ex = ex' \<longrightarrow> ids s = {}" if "fail_calls il' ex' s = Some r" for il' ex' s r
  proof (rule fail_calls.raw_induct [where P = "\<lambda>il' ex' s r. il = il' \<longrightarrow> ex = ex' \<longrightarrow> ids s = {}", OF _ that],
      intro impI, rule ccontr)
    fix rec :: "'i interlock_ops \<Rightarrow> system_exception \<Rightarrow> 'i \<Rightarrow> (u32 list \<times> 'i) option" and il' ex' s r
    assume IH: "\<And>il' ex' s r. rec il' ex' s = Some r \<Longrightarrow> il = il' \<longrightarrow> ex = ex' \<longrightarrow> ids s = {}"
      and body: "(if il_empty il' s then Some ([], s)
        else let rid = il_begin il' s in
          Option.bind (rec il' ex' (il_resume il' rid ex' s)) (\<lambda>(rids, s'). Some (rid # rids, s'))) = Some r"
      and same: "il = il'" "ex = ex'" and ne: "ids s \<noteq> {}"
    then obtain r' where "rec il ex (il_resume il (il_begin il s) ex s) = Some r'"
      using empty_iff by (auto simp: Let_def bind_eq_Some_conv)
    from IH [OF this] assms(1) [OF begin_waits [OF ne]] show False by blast
  qed
  then show ?thesis using assms(2) by (cases "fail_calls il ex s") auto
qed

end

text \<open>The ids the next \<open>n\<close> calls over a connection get.\<close>

definition new_ids :: "u32 \<Rightarrow> nat \<Rightarrow> u32 set" where
  "new_ids next_id n = (\<lambda>k. next_id + 2 * of_nat k) ` {..<n}"

text \<open>C30. A client that makes the call again as soon as it fails is resumed for ever. \<open>ids\<close> are the ids that wait in
  the interlock and \<open>next_id\<close> the counter of the connection. A call that is resumed leaves the interlock
  and makes \<open>again rid\<close> new calls over the same connection, whose ids wait from then on; if
  every call makes at least one, the loop does not end, whatever the interlock has first.\<close>

theorem retry_never_ends:
  assumes "\<And>s. il_empty il s \<longleftrightarrow> ids s = {}" and "\<And>s. ids s \<noteq> {} \<Longrightarrow> il_begin il s \<in> ids s"
    and "\<And>s rid. rid \<in> ids s \<Longrightarrow> ids (il_resume il rid ex s) = ids s - {rid} \<union> new_ids (next_id s) (again rid)"
    and "\<And>rid. 0 < again rid" and "ids s \<noteq> {}"
  shows "fail_calls il ex s = None"
proof (rule interlock.never_ends [OF interlock.intro, OF assms(1,2) _ assms(5)])
  fix s rid assume "rid \<in> ids s"
  have "next_id s \<in> new_ids (next_id s) (again rid)" using assms(4) [of rid] by (force simp: new_ids_def)
  then show "ids (il_resume il rid ex s) \<noteq> {}" using assms(3) [OF \<open>rid \<in> ids s\<close>] by blast
qed

text \<open>An interlock with the ids that wait and the counter; the keys are in ascending order.\<close>

definition sample_interlock :: "(u32 \<Rightarrow> nat) \<Rightarrow> (u32 set \<times> u32) interlock_ops" where
  "sample_interlock again = \<lparr>il_empty = (\<lambda>(w, n). w = {}), il_begin = (\<lambda>(w, n). Min w),
     il_resume = (\<lambda>rid ex (w, n). (w - {rid} \<union> new_ids n (again rid), n + 2 * of_nat (again rid)))\<rparr>"

lemma retry_never_ends_witness: "fail_calls (sample_interlock (\<lambda>_. 1)) transient ({4}, 6) = None"
  by (rule retry_never_ends [where ids = fst and next_id = snd and again = "\<lambda>_. 1"])
    (auto simp: sample_interlock_def intro!: Min_in)

section \<open>Calls over a connection that breaks\<close>

text \<open>A call that waits is resumed and throws.\<close>

definition fail_one :: "host \<Rightarrow> (nat \<Rightarrow> ('v, 'w) remote_call) \<Rightarrow> u32 \<Rightarrow> system_exception \<Rightarrow> ('c, 's, 'w) exchange \<Rightarrow>
    ('c, 's, 'w) exchange" where
  "fail_one h calls rid ex x =
     (case suspended x rid of
        None \<Rightarrow> x
      | Some i \<Rightarrow> x\<lparr>suspended := (suspended x)(rid := None),
          returned := returned x @ [(i, resumed_call h (asking x) (rdecode (calls i)) (Inl ex))]\<rparr>)"

lemma resumed_with_exception [simp]: "resumed_call h c decode (Inl ex) = Inr (Inl (ThrewSystem ex))"
  by (simp add: resumed_call_def)

lemma fail_one_frame [simp]:
  "made (fail_one h calls rid ex x) = made x" "requests (fail_one h calls rid ex x) = requests x"
  "busy (fail_one h calls rid ex x) = busy x" "replies (fail_one h calls rid ex x) = replies x"
  "ansstate (fail_one h calls rid ex x) = ansstate x" "asking (fail_one h calls rid ex x) = asking x"
  "suspended (fail_one h calls rid ex x) = (suspended x)(rid := None)"
  by (auto simp: fail_one_def split: option.split)

text \<open>The interlock of the client, when no call that is resumed makes another one before it ends.\<close>

definition waiting_calls :: "host \<Rightarrow> (nat \<Rightarrow> ('v, 'w) remote_call) \<Rightarrow> ('c, 's, 'w) exchange interlock_ops" where
  "waiting_calls h calls =
     \<lparr>il_empty = (\<lambda>x. dom (suspended x) = {}), il_begin = (\<lambda>x. Min (dom (suspended x))), il_resume = fail_one h calls\<rparr>"

interpretation waiting: interlock "waiting_calls h calls" "\<lambda>x. dom (suspended x)" for h calls
  by unfold_locales (simp_all add: waiting_calls_def)

text \<open>
  What can happen in any order: the steps of both ends (\<open>works\<close>); a call whose \<open>send\<close> throws because
  no connection can be made (\<open>refused\<close>; its message is in the queue all the same); one turn of the
  loop of a handler of the client's TCP connection that fails calls (\<open>resumes\<close>), so that a
  call resumed before may make calls in between; and the loss of the connection (\<open>loses\<close>), whoever
  notices it: of the requests, the suspended servants and the replies any part is lost, and the
  server goes on with a new connection. A loss need not resume anybody: \<open>canWrite\<close> does not, and a peer
  that has closed is not noticed. Only whole messages are lost. The rest of a message cut in two goes to
  the next connection (TCP_Properties) and is refused there with all that follows, which is a loss
  (\<open>cut_message_refused\<close>); left out is that it begins with GIOP and is taken for a message,
  and that the rest of a reply is taken for the end of another one (\<open>broken_keeps_octets\<close>).
\<close>

inductive unreliable_step ::
    "'c node \<Rightarrow> 's node \<Rightarrow> (u32 \<Rightarrow> giop_encoder writer) \<Rightarrow> (nat \<Rightarrow> ('v, 'w) remote_call) \<Rightarrow>
     ('c, 's, 'w) exchange \<Rightarrow> ('c, 's, 'w) exchange \<Rightarrow> bool"
  for cl sv later calls where
  works: "exchange_step cl sv later calls x y \<Longrightarrow> unreliable_step cl sv later calls x y"
| refused: "twowayCall (nhost cl) (stub_of (calls (made x)) (asking x)) (roperation (calls (made x))) (rencode (calls (made x))) =
      Inr (rid, m, c) \<Longrightarrow> tcp_send r in_progress m t = (t', Some not_connected) \<Longrightarrow>
    unreliable_step cl sv later calls x
      (x\<lparr>asking := the c, made := Suc (made x), requests := add_mset m (requests x),
         returned := returned x @ [(made x, Inl not_connected)]\<rparr>)"
| resumes: "tcp_step (nhost cl) t Handler fx t' \<Longrightarrow> FailCalls ex \<in> set fx \<Longrightarrow>
    unreliable_step cl sv later calls x (fail_one (nhost cl) calls rid ex x)"
| loses: "rs \<subseteq># requests x \<Longrightarrow> bs \<subseteq># busy x \<Longrightarrow> ps \<subseteq># replies x \<Longrightarrow>
    unreliable_step cl sv later calls x (x\<lparr>answering := sc, requests := rs, busy := bs, replies := ps\<rparr>)"

section \<open>Breaks and the calls that wait\<close>

lemma write_loop_fails_none: "write_loop rs c = (c', fx, out) \<Longrightarrow> FailCalls ex \<notin> set fx"
  by (induction rule: write_loop_turns) auto

lemma failing_handlers:
  assumes "tcp_step h t Handler fx t'" and "FailCalls ex \<in> set fx"
  shows "fx = [Closed (tfd t), FailCalls ex] \<and> tfd t' = -1 \<and> tstate t' = IDLE \<and> (ex = transient \<or> ex = timeout)"
  using assms
  by (cases rule: tcp_step.cases)
    (auto simp: canWrite_def canRead_def timer_def Let_def close_fd_def handler_simps dest: write_loop_fails_none
      split: if_splits prod.splits recv_result.splits)

text \<open>A connection that \<open>canWrite\<close> drops, and one the peer has closed, fail no call.\<close>

lemma dropped_without_telling:
  "FailCalls ex \<notin> set (snd (canWrite peer_known rs t))"
  "fst (snd (canRead h fresh (Got []) t)) = []"
  by (auto simp: canWrite_def canRead_def Let_def dest: write_loop_fails_none split: prod.splits)

text \<open>What has been read of a message stays in the buffer when the connection breaks.\<close>

lemma broken_keeps_octets:
  "tstream (fst (canRead h fresh EBADF t)) = s2p_buffer fresh (tstream t)" "tstream (fst (timer t)) = tstream t"
  "tstream (fst (canWrite False rs (t\<lparr>tstate := INPROGRESS\<rparr>))) = tstream t"
  by (simp_all add: canRead_def timer_def canWrite_def Let_def close_fd_def handler_simps)

text \<open>The rest of a message that does not begin with GIOP: nothing of what follows is handed over.\<close>

lemma cut_message_refused:
  assumes "take 4 rest \<noteq> lit ''GIOP''" and "prefix bs rest"
  shows "fst (frames h bs) = []"
proof (cases "length bs < 16")
  case False
  then have "take 4 bs = take 4 rest" using assms(2) by (auto simp: prefix_def)
  then have "scan_size h bs = Inl (RuntimeError ''Missing GIOP Header'')"
    using assms(1) False by (simp add: scan_size_def scanGIOPHeader_def giop_dec_init_def dec_init_def)
  then show ?thesis using False by (simp add: frames.simps [of h bs])
qed (simp add: frames.simps [of h bs])

lemma fail_all_frame:
  "made (fold (\<lambda>rid. fail_one h calls rid ex) rids x) = made x"
  "requests (fold (\<lambda>rid. fail_one h calls rid ex) rids x) = requests x"
  "busy (fold (\<lambda>rid. fail_one h calls rid ex) rids x) = busy x"
  "replies (fold (\<lambda>rid. fail_one h calls rid ex) rids x) = replies x"
  "ansstate (fold (\<lambda>rid. fail_one h calls rid ex) rids x) = ansstate x"
  "suspended (fold (\<lambda>rid. fail_one h calls rid ex) rids x) = (suspended x) |` (- set rids)"
  by (induction rids arbitrary: x) (auto simp: restrict_map_def fun_eq_iff)


text \<open>The whole loop is turns of \<open>resumes\<close>.\<close>

lemma fail_all_steps:
  assumes "tcp_step (nhost cl) t Handler fx t'" and "FailCalls ex \<in> set fx"
  shows "rtranclp (unreliable_step cl sv later calls) x (fold (\<lambda>rid. fail_one (nhost cl) calls rid ex) rids x)"
proof (induction rids arbitrary: x)
  case (Cons rid rids)
  show ?case using converse_rtranclp_into_rtranclp [OF unreliable_step.resumes [OF assms] Cons.IH] by simp
qed simp

lemma fail_loop:
  "\<exists>rids. fail_calls (waiting_calls h calls) ex x = Some (rids, fold (\<lambda>rid. fail_one h calls rid ex) rids x) \<and>
    distinct rids \<and> set rids = dom (suspended x)"
  using waiting.all_resumed [where h = h and calls = calls and s = x and ex = ex] by (auto simp: waiting_calls_def)


section \<open>Where the calls are\<close>

text \<open>What a call may come to.\<close>

definition end_or_failure ::
    "connection \<Rightarrow> (nat \<Rightarrow> ('v, 'w) remote_call) \<Rightarrow> nat \<Rightarrow> error + call_result + 'w \<Rightarrow> bool" where
  "end_or_failure c calls i r \<longleftrightarrow> its_end c calls i r \<or> r \<in> failures"

lemma accounted_failed:
  assumes a: "accounted keep R u0 cl sv calls c hist x q b p" and le: "made x \<le> 2 ^ 31" and "suspended x rid = Some i" and "R i r"
    and fails: "r \<in> failures"
  shows "accounted keep R u0 cl sv calls c hist
    (x\<lparr>suspended := (suspended x)(rid := None), returned := returned x @ [(i, r)]\<rparr>) q b p"
proof -
  have sus: "suspended x rid = Some j \<longleftrightarrow> j < made x \<and> j \<notin> fst ` set (returned x) \<and> rid = requestId (conn_at c j)" for rid j
    using a unfolding accounted_parts by blast
  have here: "i < made x" "i \<notin> fst ` set (returned x)" "rid = requestId (conn_at c i)" using sus assms(3) by blast+
  have same: "requestId (conn_at c j) = rid \<longleftrightarrow> j = i" if "j < made x" for j
    using request_ids_differ [of j i c] that here(1,3) le by auto
  have "((suspended x)(rid := None)) rid' = Some j \<longleftrightarrow>
      j < made x \<and> j \<noteq> i \<and> j \<notin> fst ` set (returned x) \<and> rid' = requestId (conn_at c j)" for rid' j
    using sus [of rid' j] same [of j] by (auto simp del: requestId_conn_at)
  then have "located keep R cl sv calls c
      (x\<lparr>suspended := (suspended x)(rid := None), returned := returned x @ [(i, r)]\<rparr>) q b p"
    using a here assms(4) by (auto simp: accounted_parts simp del: requestId_conn_at fun_upd_apply)
  moreover have "once sv calls u0 hist (ansstate x) (made x) (returned x @ [(i, r)]) q (image_mset fst b + p)"
    using a fails by (intro once_returned) (simp_all add: accounted_def)
  ultimately show ?thesis by (simp add: accounted_def)
qed

lemma accounted_fail_one:
  assumes a: "accounted keep R u0 cl sv calls c hist x q b p" and le: "made x \<le> 2 ^ 31"
    and R: "\<And>i r. r \<in> failures \<Longrightarrow> R i r" and ex: "ex = transient \<or> ex = timeout"
  shows "accounted keep R u0 cl sv calls c hist (fail_one h calls rid ex x) q b p"
proof (cases "suspended x rid")
  case (Some i)
  have "Inr (Inl (ThrewSystem ex)) \<in> failures" using ex by (auto simp: failures_def)
  then show ?thesis using accounted_failed [OF a le Some R] Some by (simp add: fail_one_def)
qed (use a in \<open>simp add: fail_one_def\<close>)

lemma accounted_refused:
  assumes a: "accounted keep R u0 cl sv calls c hist x q b p" and m: "matched cl sv c (calls (made x))" and le: "Suc (made x) \<le> 2 ^ 31"
    and R: "\<And>i r. r \<in> failures \<Longrightarrow> R i r"
    and call: "twowayCall (nhost cl) (stub_of (calls (made x)) (asking x)) (roperation (calls (made x))) (rencode (calls (made x))) =
      Inr (rid, msg, c')"
  shows "accounted keep R u0 cl sv calls c hist
    (x\<lparr>asking := the c', made := Suc (made x), requests := add_mset msg (requests x),
       returned := returned x @ [(made x, Inl not_connected)]\<rparr>) (add_mset (made x) q) b p"
proof -
  have rid: "rid = requestId (conn_at c (made x))"
    using call call_outcome [where calls = calls and i = "made x", OF m] a by (simp add: accounted_parts del: requestId_conn_at)
  have "suspended x rid \<noteq> Some i" for i
  proof
    assume "suspended x rid = Some i"
    then have "i < made x" "rid = requestId (conn_at c i)" using a unfolding accounted_parts by blast+
    then show False using request_ids_differ [of i "made x" c] rid le by auto
  qed
  then have none: "(suspended x)(rid := None) = suspended x" by (auto simp: fun_eq_iff) (metis not_Some_eq)
  let ?y = "x\<lparr>asking := the c', made := Suc (made x), suspended := (suspended x)(rid \<mapsto> made x), requests := add_mset msg (requests x)\<rparr>"
  have fail: "Inl not_connected \<in> failures" by (simp add: failures_def)
  have "made ?y \<le> 2 ^ 31" "suspended ?y rid = Some (made x)" using le by simp_all
  from accounted_failed [OF accounted_call [OF a m le call] this R [OF fail] fail]
  show ?thesis using none by simp
qed

lemma part_of_image: "M \<subseteq># image_mset f A \<Longrightarrow> \<exists>B. B \<subseteq># A \<and> M = image_mset f B"
  by (metis image_mset_eq_plusD mset_subset_eq_exists_conv)

lemma accounted_lost:
  assumes a: "accounted keep R u0 cl sv calls c hist x q b p"
    and "rs \<subseteq># requests x" and "bs \<subseteq># busy x" and "ps \<subseteq># replies x"
  shows "\<exists>hist q b p. accounted False R u0 cl sv calls c hist (x\<lparr>answering := sc, requests := rs, busy := bs, replies := ps\<rparr>) q b p"
proof -
  have "rs \<subseteq># image_mset (request_at cl calls c) q" "ps \<subseteq># image_mset (reply_at sv calls c) p"
    "bs \<subseteq># image_mset (\<lambda>(i, rc). (requestId (conn_at c i), True, result_encoder rc)) b"
    using assms(2-4) a by (simp_all only: accounted_parts)
  from this [THEN part_of_image] obtain q' b' p' where parts: "q' \<subseteq># q" "rs = image_mset (request_at cl calls c) q'"
    "b' \<subseteq># b" "bs = image_mset (\<lambda>(i, rc). (requestId (conn_at c i), True, result_encoder rc)) b'"
    "p' \<subseteq># p" "ps = image_mset (reply_at sv calls c) p'" by blast
  have "image_mset fst b' \<subseteq># image_mset fst b" using parts(3) by (rule image_mset_subseteq_mono)
  then have "image_mset fst b' + p' \<subseteq># image_mset fst b + p" using parts(5) by (intro subset_mset.add_mono)
  with a parts(1) have once: "once sv calls u0 hist (ansstate x) (made x) (returned x) q' (image_mset fst b' + p')"
    unfolding accounted_def by (blast intro: once_less)
  have "q' + image_mset fst b' + p' \<subseteq># q + image_mset fst b + p"
    using parts(1,5) \<open>image_mset fst b' \<subseteq># image_mset fst b\<close> by (intro subset_mset.add_mono)
  then have "i < made x" if "i \<in># q' + image_mset fst b' + p'" for i
    using accounted_made(1) [OF a] that mset_subset_eqD by metis
  moreover have "\<forall>i \<in># image_mset fst b. returns (calls i)" using a unfolding accounted_parts by (elim conjE)
  then have "returns (calls (fst ib))" if "ib \<in># b'" for ib using mset_subset_eqD [OF parts(3) that] by simp
  ultimately show ?thesis using a parts(2,4,6) once unfolding accounted_parts
    by (intro exI [of _ hist] exI [of _ q'] exI [of _ b'] exI [of _ p']) simp
qed

lemma unreliable_grows: "unreliable_step cl sv later calls x y \<Longrightarrow> made x \<le> made y"
  by (cases rule: unreliable_step.cases) (auto dest: made_grows)

lemma unreliable_accounted:
  assumes "unreliable_step cl sv later calls x y" and a: "accounted False (end_or_failure c calls) u0 cl sv calls c hist x q b p"
    and m: "\<And>i. matched cl sv c (calls i)"
    and "goes_on later c calls (made y)" and le: "made y \<le> 2 ^ 31"
  shows "\<exists>hist q b p. accounted False (end_or_failure c calls) u0 cl sv calls c hist y q b p"
  using assms(1)
proof (cases rule: unreliable_step.cases)
  case works
  then show ?thesis by (rule step_accounted [OF _ a m _ assms(4) le]) (simp_all add: end_or_failure_def its_end)
next
  case (refused rid msg c' r ip t t')
  have "Suc (made x) \<le> 2 ^ 31" using le refused(1) by simp
  from accounted_refused [OF a m this _ refused(2)] show ?thesis unfolding refused(1) by (auto simp: end_or_failure_def)
next
  case (resumes t fx t' ex rid)
  have "made x \<le> 2 ^ 31" using le resumes(1) by simp
  from accounted_fail_one [OF a this] failing_handlers [OF resumes(2,3)]
  show ?thesis unfolding resumes(1) by (fastforce simp: end_or_failure_def)
next
  case (loses rs bs ps sc)
  show ?thesis unfolding loses(1) by (rule accounted_lost [OF a loses(2-4)])
qed

lemma accounted_weaker: "accounted True R u0 cl sv calls c hist x q b p \<Longrightarrow> accounted False R u0 cl sv calls c hist x q b p"
  by (simp add: accounted_parts)

lemma unreliable_session:
  assumes "rtranclp (unreliable_step cl sv later calls) (exchange_init c sc uc us) x" and m: "\<And>i. matched cl sv c (calls i)"
    and "goes_on later c calls (made x)" and "made x \<le> 2 ^ 31"
  shows "\<exists>hist q b p. accounted False (end_or_failure c calls) us cl sv calls c hist x q b p"
  using assms(1,3,4)
proof (induction rule: rtranclp_induct)
  case base
  show ?case by (intro exI) (rule accounted_init)
next
  case (step x y)
  have le: "made x \<le> made y" by (rule unreliable_grows [OF step.hyps(2)])
  then obtain hist q b p where "accounted False (end_or_failure c calls) us cl sv calls c hist x q b p"
    using step.IH goes_on_le [OF step.prems(1)] step.prems(2) by (meson le_trans)
  from unreliable_accounted [OF step.hyps(2) this m step.prems] show ?case .
qed

text \<open>C8. Calls over a connection that breaks, is noticed to be broken or not, cannot be made or is made again, any
  number of times and with any part of what is under way lost whole: each call ends at most once, as its own
  servant has ended it, with TRANSIENT or TIMEOUT, or with the exception of \<open>send\<close>; a reply that arrives after
  its call has failed disturbs no other call. A call that has not ended waits under its own
  request id and no other, and it may do so for ever if nobody notices that its message is lost.\<close>

theorem calls_survive_breakdowns:
  assumes "rtranclp (unreliable_step cl sv later calls) (exchange_init c sc uc us) x" and "\<And>i. matched cl sv c (calls i)"
    and "goes_on later c calls (made x)" and "made x \<le> 2 ^ 31"
  shows "distinct (map fst (returned x)) \<and>
    (\<forall>(i, r) \<in> set (returned x). i < made x \<and>
       r \<in> {Inr (at_client c (rends (calls i))), Inr (Inl (ThrewSystem transient)), Inr (Inl (ThrewSystem timeout)),
         Inl not_connected}) \<and>
    (\<forall>i rid. suspended x rid = Some i \<longleftrightarrow> i < made x \<and> i \<notin> fst ` set (returned x) \<and> rid = requestId c + 2 * of_nat i)"
proof -
  obtain hist q b p where a: "accounted False (end_or_failure c calls) us cl sv calls c hist x q b p"
    using unreliable_session [OF assms(1-4)] by blast
  then show ?thesis by (auto simp: accounted_parts end_or_failure_def its_end_def failures_def)
qed

text \<open>A read that fails on an established connection fails the calls.\<close>

definition broken_tcp :: tcp where
  "broken_tcp = (tcp_init 0)\<lparr>tfd := 3, read_active := True, tstate := ESTABLISHED\<rparr>"

lemma tcp_breaks:
  "\<exists>t'. tcp_step h broken_tcp Handler [Closed 3, FailCalls transient] t'"
proof -
  have "tcp_step h broken_tcp Handler (fst (snd (canRead h [] EBADF broken_tcp))) (fst (canRead h [] EBADF broken_tcp))"
    by (rule tcp_step.can_read [where fresh = "[]" and r = EBADF])
      (simp_all add: broken_tcp_def tcp_init_def s2p_init_def canRead_def Let_def)
  moreover have "fst (snd (canRead h [] EBADF broken_tcp)) = [Closed 3, FailCalls transient]"
    by (simp add: canRead_def broken_tcp_def tcp_init_def handler_simps)
  ultimately show ?thesis by metis
qed

text \<open>The connection breaks, everything under way is lost, and the loop runs.\<close>

lemma everything_lost:
  obtains rids where "rtranclp (unreliable_step cl sv later calls) x
      ((fold (\<lambda>rid. fail_one (nhost cl) calls rid transient) rids x)\<lparr>answering := answering x, requests := {#}, busy := {#}, replies := {#}\<rparr>)"
    and "fail_calls (waiting_calls (nhost cl) calls) transient x =
      Some (rids, fold (\<lambda>rid. fail_one (nhost cl) calls rid transient) rids x)"
    and "distinct rids" and "set rids = dom (suspended x)"
proof -
  obtain rids where rids: "fail_calls (waiting_calls (nhost cl) calls) transient x =
      Some (rids, fold (\<lambda>rid. fail_one (nhost cl) calls rid transient) rids x)" "distinct rids" "set rids = dom (suspended x)"
    using fail_loop by blast
  let ?y = "fold (\<lambda>rid. fail_one (nhost cl) calls rid transient) rids x"
  obtain t' where t: "tcp_step (nhost cl) broken_tcp Handler [Closed 3, FailCalls transient] t'" using tcp_breaks by blast
  have "rtranclp (unreliable_step cl sv later calls) x ?y" by (rule fail_all_steps [OF t]) simp
  moreover have "unreliable_step cl sv later calls ?y (?y\<lparr>answering := answering x, requests := {#}, busy := {#}, replies := {#}\<rparr>)"
    by (rule unreliable_step.loses) simp_all
  ultimately show thesis using that rids by (meson rtranclp.rtrancl_into_rtrancl)
qed

text \<open>C28. TRANSIENT says that the operation has not been performed (completion status NO). It may have been:
  whatever the call, there is a run in which the server has done what it asks for and the loop over the
  interlock then fails it with TRANSIENT, NO, because the connection breaks before the reply has been read.\<close>

theorem failed_call_was_executed:
  fixes calls :: "nat \<Rightarrow> ('v, 'w) remote_call" and uc :: 'c and us :: 's
  assumes "\<And>i. matched cl sv c (calls i)"
  shows "\<exists>y z x rids. rtranclp (exchange_step cl sv later calls) (exchange_init c sc uc us) y \<and>
    executed sv (calls 0) us (ansstate y) \<and> returned y = [] \<and>
    fail_calls (waiting_calls (nhost cl) calls) transient y = Some (rids, z) \<and>
    rtranclp (unreliable_step cl sv later calls) (exchange_init c sc uc us) x \<and> under_way x = 0 \<and>
    returned x = returned z \<and> returned x = [(0, Inr (Inl (ThrewSystem transient)))] \<and> scompleted transient = NO \<and>
    executed sv (calls 0) us (ansstate x)"
proof -
  let ?x0 = "exchange_init c sc uc us :: ('c, 's, 'w) exchange" and ?step = "exchange_step cl sv later calls"
  let ?rid = "requestId (conn_at c 0)" and ?m = "request_at cl calls c 0"
  define x1 where "x1 = ?x0\<lparr>asking := conn_at c 1, made := 1, suspended := [?rid \<mapsto> 0], requests := {#?m#}\<rparr>"
  have "twowayCall (nhost cl) (stub_of (calls (made ?x0)) (asking ?x0)) (roperation (calls (made ?x0))) (rencode (calls (made ?x0))) =
      Inr (?rid, ?m, Some (conn_at c 1))"
    using call_outcome [where calls = calls and i = 0, OF assms] by (simp add: exchange_init_def conn_at_def)
  from exchange_step.call [where later = later and sv = sv and cl = cl and calls = calls and x = ?x0, OF this]
  have 1: "?step ?x0 x1" by (simp add: x1_def exchange_init_def)
  obtain sc' fx us' where served: "receive sv (\<lambda>_. False) (answering x1) ?m (ansstate x1) = Inr (sc', fx, us')"
    "executed sv (calls 0) (ansstate x1) us'"
    using serve_outcome [where calls = calls and i = 0 and sc = "answering x1" and us = "ansstate x1", OF assms] by blast
  define x2 where "x2 = x1\<lparr>requests := {#}, answering := the sc', ansstate := us',
    busy := continuations sc' fx, replies := sent fx\<rparr>"
  from exchange_step.serve [where later = later and cl = cl and calls = calls, OF _ served(1)]
  have 2: "?step x1 x2" by (simp add: x1_def x2_def exchange_init_def)
  have x2: "suspended x2 = [?rid \<mapsto> 0]" "returned x2 = []" "executed sv (calls 0) us (ansstate x2)"
    using served(2) by (simp_all add: x2_def x1_def exchange_init_def)
  let ?fail = "\<lambda>rids. fold (\<lambda>rid. fail_one (nhost cl) calls rid transient) rids x2"
  obtain rids where 3: "rtranclp (unreliable_step cl sv later calls) x2
      ((?fail rids)\<lparr>answering := answering x2, requests := {#}, busy := {#}, replies := {#}\<rparr>)"
    "fail_calls (waiting_calls (nhost cl) calls) transient x2 = Some (rids, ?fail rids)" "distinct rids" "set rids = dom (suspended x2)"
    using everything_lost [of cl sv later calls x2] by blast
  have "set rids = {?rid}" using 3(4) x2(1) by simp
  then have "rids = [?rid]" using 3(3) by (cases rids; cases "tl rids") auto
  then have end_state: "returned (?fail rids) = [(0, Inr (Inl (ThrewSystem transient)))]" "ansstate (?fail rids) = ansstate x2"
    using x2(1,2) by (simp_all add: fail_one_def)
  have run: "rtranclp ?step ?x0 x2" using 1 2 by (meson converse_rtranclp_into_rtranclp r_into_rtranclp)
  have run': "rtranclp (unreliable_step cl sv later calls) ?x0
      ((?fail rids)\<lparr>answering := answering x2, requests := {#}, busy := {#}, replies := {#}\<rparr>)"
    using unreliable_step.works [OF 1] unreliable_step.works [OF 2] 3(1) by (meson converse_rtranclp_into_rtranclp)
  show ?thesis by (intro exI conjI, rule run, rule x2(3), rule x2(2), rule 3(2), rule run')
    (simp_all add: end_state x2(3) under_way_def, simp add: transient_def)
qed

lemma failed_call_was_executed_witness:
  "\<exists>x :: (nat, nat, u32) exchange. rtranclp (unreliable_step (sample_node LE) (sample_node BE) sample_later sample_next)
      (exchange_init sample_connection sample_connection 0 7) x \<and>
    returned x = [(0, Inr (Inl (ThrewSystem transient)))] \<and> ansstate x = 8"
proof -
  obtain x :: "(nat, nat, u32) exchange" where x: "rtranclp (unreliable_step (sample_node LE) (sample_node BE) sample_later sample_next)
      (exchange_init sample_connection sample_connection 0 7) x" "returned x = [(0, Inr (Inl (ThrewSystem transient)))]"
    "executed (sample_node BE) (sample_next 0) 7 (ansstate x)"
    using failed_call_was_executed [where cl = "sample_node LE" and c = sample_connection and calls = sample_next and
        later = sample_later and us = 7, OF sample_matched] by blast
  have "ansstate x = 8" using x(3) by (auto simp: executed_def dispatch_servant_def sample_next_def sample_simps)
  with x show ?thesis by blast
qed

lemma reliable_runs: "rtranclp (exchange_step cl sv later calls) x y \<Longrightarrow> rtranclp (unreliable_step cl sv later calls) x y"
  by (induction rule: rtranclp_induct) (auto intro: rtranclp.rtrancl_into_rtrancl unreliable_step.works)

lemma calls_survive_breakdowns_witness:
  "\<exists>x :: (nat, nat, u32) exchange. rtranclp (unreliable_step (sample_node LE) (sample_node BE) sample_later sample_next)
      (exchange_init sample_connection sample_connection 0 7) x \<and> made x = 2 \<and> under_way x = 0 \<and>
    fst ` set (returned x) = {0, 1}"
proof -
  let ?un = "unreliable_step (sample_node LE) (sample_node BE) sample_later sample_next"
  obtain x :: "(nat, nat, u32) exchange" where x: "rtranclp (exchange_step (sample_node LE) (sample_node BE) sample_later sample_next)
      (exchange_init sample_connection sample_connection 0 7) x" "made x = 2" using sample_two_calls by blast
  obtain rids where lost: "rtranclp ?un x
      ((fold (\<lambda>rid. fail_one (nhost (sample_node LE)) sample_next rid transient) rids x)
        \<lparr>answering := answering x, requests := {#}, busy := {#}, replies := {#}\<rparr>)" "set rids = dom (suspended x)"
    by (rule everything_lost)
  let ?y = "(fold (\<lambda>rid. fail_one (nhost (sample_node LE)) sample_next rid transient) rids x)
      \<lparr>answering := answering x, requests := {#}, busy := {#}, replies := {#}\<rparr>"
  have run: "rtranclp ?un (exchange_init sample_connection sample_connection 0 7) ?y"
    using reliable_runs [OF x(1)] lost(1) by (rule rtranclp_trans)
  have y: "made ?y = 2" "under_way ?y = 0" using x(2) by (simp_all add: fail_all_frame under_way_def)
  have none: "suspended ?y rid = None" for rid using lost(2) by (auto simp: fail_all_frame restrict_map_def dom_def)
  have ids: "goes_on sample_later sample_connection sample_next (made ?y)" using sample_goes_on y(1) by simp
  have "made ?y \<le> 2 ^ 31" using y(1) by simp
  from calls_survive_breakdowns [OF run sample_matched ids this]
  have ended: "\<forall>(i, r) \<in> set (returned ?y). i < made ?y"
    and waits: "suspended ?y rid = Some i \<longleftrightarrow>
      i < made ?y \<and> i \<notin> fst ` set (returned ?y) \<and> rid = requestId sample_connection + 2 * of_nat i" for i rid
    by blast+
  have "i \<in> fst ` set (returned ?y)" if "i < 2" for i
    using waits [of "requestId sample_connection + 2 * of_nat i" i] none that y(1) by simp
  then have "fst ` set (returned ?y) = {..<2}" using ended y(1) by auto
  also have "{..<2} = {0, 1 :: nat}" by auto
  finally show ?thesis using run y by (intro exI [of _ ?y]) simp
qed

text \<open>C5. At most once: however the connection breaks between messages, whoever notices it and whatever is lost, the
  state of the server is that of running the servants of some of the calls one after the other, each call at
  most once and with its own argument, and every call that has returned with anything but TRANSIENT,
  TIMEOUT or the exception of \<open>send\<close> is one of them.\<close>

theorem executed_at_most_once:
  assumes "rtranclp (unreliable_step cl sv later calls) (exchange_init c sc uc us) x" and "\<And>i. matched cl sv c (calls i)"
    and "goes_on later c calls (made x)" and "made x \<le> 2 ^ 31"
  shows "\<exists>hist. executions sv calls us hist (ansstate x) \<and> distinct hist \<and> set hist \<subseteq> {..<made x} \<and>
    (\<forall>(i, r) \<in> set (returned x). r \<notin> {Inr (Inl (ThrewSystem transient)), Inr (Inl (ThrewSystem timeout)), Inl not_connected} \<longrightarrow>
       i \<in> set hist)"
proof -
  obtain hist q b p where a: "accounted False (end_or_failure c calls) us cl sv calls c hist x q b p"
    using unreliable_session [OF assms(1-4)] by blast
  then show ?thesis unfolding accounted_def once_def failures_def by blast
qed

lemma sample_executions: "executions (sample_node BE) sample_next n hist m \<Longrightarrow> m = n + length hist"
  by (induction rule: executions.induct) (auto simp: executed_def dispatch_servant_def sample_next_def sample_simps)

lemma executed_at_most_once_witness:
  "\<exists>x :: (nat, nat, u32) exchange. rtranclp (unreliable_step (sample_node LE) (sample_node BE) sample_later sample_next)
      (exchange_init sample_connection sample_connection 0 7) x \<and> made x = 2 \<and> ansstate x \<le> 9"
proof -
  obtain x :: "(nat, nat, u32) exchange" where x: "rtranclp (exchange_step (sample_node LE) (sample_node BE) sample_later sample_next)
      (exchange_init sample_connection sample_connection 0 7) x" "made x = 2" using sample_two_calls by blast
  have ids: "goes_on sample_later sample_connection sample_next (made x)" using sample_goes_on x(2) by simp
  have "made x \<le> 2 ^ 31" using x(2) by simp
  from executed_at_most_once [OF reliable_runs [OF x(1)] sample_matched ids this] obtain hist
    where hist: "executions (sample_node BE) sample_next 7 hist (ansstate x)" "distinct hist" "set hist \<subseteq> {..<made x}" by blast
  have "length hist \<le> 2" using card_mono [OF _ hist(3)] distinct_card [OF hist(2)] x(2) by simp
  with sample_executions [OF hist(1)] reliable_runs [OF x(1)] x(2) show ?thesis by (intro exI [of _ x]) simp
qed


end
