(* ===== verification/Typed_Calls.thy ===== *)
theory Typed_Calls
  imports Breakdown Values
begin

text \<open>
  Calls as an application sees them: arguments and results are values of IDL types. The stub and the
  skeleton that marshal them are generated and not part of the source; \<open>typed_call\<close> and
  \<open>skeleton_for\<close> state what they do with the members of the encoder and decoder.
\<close>

section \<open>The size of values\<close>

fun weight :: "datum \<Rightarrow> nat" where
  "weight (VBoolean v) = 1"
| "weight (VOctet v) = 1"
| "weight (VUshort v) = 3"
| "weight (VUlong v) = 7"
| "weight (VUlonglong v) = 15"
| "weight (VShort v) = 3"
| "weight (VLong v) = 7"
| "weight (VLonglong v) = 15"
| "weight (VFloat v) = 7"
| "weight (VDouble v) = 15"
| "weight (VString v) = 8 + length v"
| "weight (VBlob v) = 7 + length v"
| "weight (VFloats v) = 7 + 4 * length v"
| "weight (VDoubles v) = 14 + 8 * length v"
| "weight (VSequence vs) = 7 + sum_list (map weight vs)"
| "weight (VGroup vs) = sum_list (map weight vs)"

lemma cdr_word_weight: "0 < n \<Longrightarrow> length (cdr_word en n w p) \<le> 2 * n - 1"
  using padding_less [of n p] by (simp add: cdr_word_def cdr_seq_def cdr_pad_def)

lemma cdr_ulong_weight: "length (cdr_ulong en w p) \<le> 7"
  using cdr_word_weight [of 4 en w p] by (simp add: cdr_ulong_def)

lemma cdr_list_weight: "(\<And>x p. x \<in> set xs \<Longrightarrow> length (f x p) \<le> g x) \<Longrightarrow> length (cdr_list f xs p) \<le> sum_list (map g xs)"
proof (induction xs arbitrary: p)
  case (Cons x xs)
  have "length (f x p) \<le> g x" using Cons.prems by simp
  then show ?case using Cons.IH [of "p + length (f x p)"] Cons.prems by (simp add: cdr_seq_def add_mono)
qed simp

lemma layout_weight: "length (layout en v p) \<le> weight v"
proof (induction v arbitrary: p)
  case (VSequence vs)
  let ?q = "p + length (cdr_ulong en (of_nat (length vs)) p)"
  show ?case using cdr_list_weight [of vs "layout en" weight ?q] cdr_ulong_weight [of en "of_nat (length vs)" p] VSequence
    by (simp add: cdr_sequence_def cdr_seq_def add_mono)
next
  case (VGroup vs)
  then show ?case by (simp add: cdr_list_weight)
next
  case (VString v)
  then show ?case using cdr_ulong_weight [of en "of_nat (length (v @ [0]))" p]
    by (simp add: cdr_string_def cdr_blob_def cdr_seq_def)
next
  case (VBlob v)
  then show ?case using cdr_ulong_weight [of en "of_nat (length v)" p] by (simp add: cdr_blob_def cdr_seq_def)
next
  case (VFloats v)
  then show ?case using cdr_ulong_weight [of en "of_nat (length v)" p] by (simp add: cdr_seq_def length_concat_native)
next
  case (VDoubles v)
  then show ?case
    using cdr_ulong_weight [of en "of_nat (length v)" p] padding_less [of 8 "p + length (cdr_ulong en (of_nat (length v)) p)"]
    by (simp add: cdr_seq_def cdr_pad_def length_concat_native)
qed (use cdr_word_weight [of 2 en] cdr_word_weight [of 4 en] cdr_word_weight [of 8 en] in simp_all)

lemma short_layout: "weight v < 2 ^ 30 \<Longrightarrow> short (layout en v)"
  unfolding short_def using layout_weight le_less_trans by blast

section \<open>Stubs and skeletons\<close>

text \<open>
  An operation takes a value of type \<open>marg\<close> and ends as \<open>mfun\<close> says: it returns a value of type \<open>mres\<close>, or
  throws. A group of values are several arguments. What arrives of an argument or a result is
  \<open>unsigned_datum\<close> of it (theory Values): the decoder returns signed numbers as unsigned ones.
\<close>

record operation =
  marg :: idl
  mres :: idl
  mfun :: "datum \<Rightarrow> datum ending"

text \<open>What the servant writes when it returns.\<close>

fun write_ending :: "host \<Rightarrow> datum ending \<Rightarrow> giop_encoder writer" where
  "write_ending h (Returns v) = wr_ok (on_buf (write_value h v))"
| "write_ending h w = wr_ok (\<lambda>e. e)"

fun ending_layout :: "endian \<Rightarrow> datum ending \<Rightarrow> marshal" where
  "ending_layout en (Returns v) = layout en v"
| "ending_layout en w = cdr_raw []"

definition typed_call :: "'c node \<Rightarrow> 's node \<Rightarrow> bytes \<Rightarrow> bytes \<Rightarrow> operation \<Rightarrow> datum \<Rightarrow> (datum, datum) remote_call" where
  "typed_call cl sv key op m arg =
     \<lparr>rkey = key, roperation = op, rencode = wr_ok (on_buf (write_value (nhost cl) arg)),
      rdecode = cdr (read_value (nhost cl) (mres m)), rread = cdr (read_value (nhost sv) (marg m)),
      rwrite = write_ending (nhost sv) (mfun m (unsigned_datum arg)),
      rargs = layout (native (nhost cl)) arg, rargument = unsigned_datum arg,
      rresults = ending_layout (native (nhost sv)) (mfun m (unsigned_datum arg)),
      rends = map_ending unsigned_datum (mfun m (unsigned_datum arg))\<rparr>"

lemma raised_map [simp]: "raised (map_ending f w) = raised w"
  by (cases w) simp_all

text \<open>
  The skeleton reads the argument, and the servant writes its result at once, suspends, in which
  case it writes it later, or throws.
\<close>

definition skeleton_for :: "'s node \<Rightarrow> sref \<Rightarrow> bytes \<Rightarrow> operation \<Rightarrow> bool" where
  "skeleton_for sv s op m \<longleftrightarrow>
     (\<forall>g v g' e us. cdr (read_value (nhost sv) (marg m)) g = Inr (v, g') \<longrightarrow>
        (case raised (mfun m v) of
           None \<Rightarrow> fst (dispatch (nenv sv) s op g e us) = Suspended \<or>
             (\<exists>e'. write_ending (nhost sv) (mfun m v) e = Inr e' \<and> fst (dispatch (nenv sv) s op g e us) = Finished e')
         | Some ex \<Rightarrow> fst (dispatch (nenv sv) s op g e us) = Failed ex e))"

text \<open>What has to be right about a call: its object, its skeleton and its values.\<close>

definition well_typed_call :: "'c node \<Rightarrow> 's node \<Rightarrow> connection \<Rightarrow> bytes \<Rightarrow> bytes \<Rightarrow> operation \<Rightarrow> datum \<Rightarrow> bool" where
  "well_typed_call cl sv c key op m arg \<longleftrightarrow>
     callable \<lparr>stub_key = key, stub_conn = Some c\<rparr> c op \<and> op \<noteq> lit ''_is_a'' \<and>
     (\<exists>s. servants (norb sv) key = Some s \<and> contexts (norb sv) s = None \<and> skeleton_for sv s op m) \<and>
     readable (nhost cl) (nhost sv) (marg m) arg \<and> weight arg < 2 ^ 30 \<and>
     ending_ok (\<lambda>v. readable (nhost sv) (nhost cl) (mres m) v \<and> weight v < 2 ^ 30) (mfun m (unsigned_datum arg))"

lemma typed_matched:
  assumes "well_typed_call cl sv c key op m arg"
  shows "matched cl sv c (typed_call cl sv key op m arg)"
proof -
  note w = assms [unfolded well_typed_call_def]
  obtain s where s: "servants (norb sv) key = Some s" "contexts (norb sv) s = None" "skeleton_for sv s op m" using w by blast
  let ?k = "typed_call cl sv key op m arg"
  have ends: "ending_ok (\<lambda>v. gemits (\<lambda>_. True) (rwrite ?k) (\<lambda>e. e) (rresults ?k) \<and> short (rresults ?k) \<and>
      gparses (\<lambda>_. True) (native (nhost sv)) (rdecode ?k) v (\<lambda>g. g) (rresults ?k)) (rends ?k)"
  proof (cases "mfun m (unsigned_datum arg)")
    case (Returns v)
    then show ?thesis using w unfolding typed_call_def remote_call.simps Returns write_ending.simps ending_layout.simps ending.map ending_ok.simps
      by (intro conjI gemits_buf write_value_emits gparses_cdr read_value_parses short_layout) simp_all
  qed (use w in \<open>simp_all add: typed_call_def\<close>)
  have k: "rkey ?k = key" "roperation ?k = op" "rread ?k = cdr (read_value (nhost sv) (marg m))" "rargument ?k = unsigned_datum arg"
    by (simp_all add: typed_call_def)
  have "\<exists>out us'. dispatch_servant (nhost sv) (nenv sv) (norb sv) s op g e us = Inr (out, us') \<and> dispatched_as ?k e out"
    if "cdr (read_value (nhost sv) (marg m)) g = Inr (unsigned_datum arg, g')" for g g' e us
  proof (intro exI conjI)
    show "dispatch_servant (nhost sv) (nenv sv) (norb sv) s op g e us =
        Inr (fst (dispatch (nenv sv) s op g e us), snd (dispatch (nenv sv) s op g e us))"
      using s(2) by (simp add: dispatch_servant_def)
    show "dispatched_as ?k e (fst (dispatch (nenv sv) s op g e us))"
      using s(3) that unfolding skeleton_for_def dispatched_as_def typed_call_def remote_call.simps raised_map by blast
  qed
  moreover have "op \<noteq> lit ''_is_a''" using w by blast
  ultimately have "served cl sv ?k" unfolding served_def k s(1) option.case by (simp only: if_False) blast
  note k = typed_call_def [of cl sv key op m arg]
  show ?thesis
    unfolding matched_def
    by (intro conjI ends \<open>served cl sv ?k\<close>) (use w in \<open>simp_all add: k stub_of_def gemits_buf write_value_emits gparses_cdr
      read_value_parses short_layout\<close>)
qed

text \<open>C2. What an application sees: a call of an operation on a remote object ends as the servant's function ends
  for its argument, with its value or with the exception it throws, whatever other calls are under way and
  however often the connection breaks between messages, unless it fails with TRANSIENT, TIMEOUT or the
  exception of \<open>send\<close>. Arguments and results are of any types without floating point numbers, of types with
  them between hosts of one byte order; signed numbers arrive as the unsigned ones with the same bits.\<close>

theorem typed_calls_return_results:
  assumes "rtranclp (unreliable_step cl sv later (\<lambda>i. typed_call cl sv (key i) (op i) (m i) (arg i))) (exchange_init c sc uc us) x"
    and "\<And>i. well_typed_call cl sv c (key i) (op i) (m i) (arg i)"
    and "\<And>i v. i < made x \<Longrightarrow> mfun (m i) (unsigned_datum (arg i)) = Returns v \<Longrightarrow>
      later (requestId c + 2 * of_nat i) = wr_ok (on_buf (write_value (nhost sv) v))"
    and "made x \<le> 2 ^ 31" and "(i, r) \<in> set (returned x)"
  shows "r = Inr (at_client c (map_ending unsigned_datum (mfun (m i) (unsigned_datum (arg i))))) \<or>
    r \<in> {Inr (Inl (ThrewSystem transient)), Inr (Inl (ThrewSystem timeout)), Inl not_connected}"
proof -
  let ?calls = "\<lambda>i. typed_call cl sv (key i) (op i) (m i) (arg i)"
  have "goes_on later c ?calls (made x)" unfolding goes_on_def
  proof (intro allI impI)
    fix i assume i: "i < made x" and "returns (?calls i)"
    then obtain v where "mfun (m i) (unsigned_datum (arg i)) = Returns v"
      by (cases "mfun (m i) (unsigned_datum (arg i))") (simp_all add: typed_call_def returns_def)
    then show "later (requestId c + 2 * of_nat i) = rwrite (?calls i)" using assms(3) [OF i] by (simp add: typed_call_def)
  qed
  then obtain hist q b p where "accounted False (end_or_failure c ?calls) us cl sv ?calls c hist x q b p"
    using unreliable_session [where later = later and calls = ?calls, OF assms(1) typed_matched [OF assms(2)] _ assms(4)] by blast
  then have "end_or_failure c ?calls i r" using assms(5) unfolding accounted_parts by blast
  then show ?thesis by (simp add: end_or_failure_def its_end_def failures_def typed_call_def)
qed

section \<open>Witness\<close>

definition successor :: operation where
  "successor = \<lparr>marg = TUlong, mres = TUlong, mfun = (\<lambda>v. Returns (case v of VUlong n \<Rightarrow> VUlong (n + 1) | _ \<Rightarrow> v))\<rparr>"

definition sample_typed :: "nat \<Rightarrow> (datum, datum) remote_call" where
  "sample_typed i = typed_call (sample_node LE) (sample_node BE) (lit ''OID:1'') (lit ''next'') successor (VUlong (of_nat i))"

definition sample_result :: "u32 \<Rightarrow> giop_encoder writer" where
  "sample_result rid = rwrite (sample_typed 0)"

lemma sample_well_typed:
  "well_typed_call (sample_node LE) (sample_node BE) sample_connection (lit ''OID:1'') (lit ''next'') successor (VUlong n)"
proof -
  have "callable \<lparr>stub_key = lit ''OID:1'', stub_conn = Some sample_connection\<rparr> sample_connection (lit ''next'')"
    by (rule sample_callable [unfolded sample_stub_def]) simp
  moreover have "skeleton_for (sample_node BE) 1 (lit ''next'') successor"
    by (auto simp: skeleton_for_def successor_def rd_map_def rd_bind_def cdr_def sample_simps write_value_eqs split: sum.splits)
  ultimately show ?thesis
    by (auto simp: well_typed_call_def readable_def successor_def sample_simps)
qed

lemma typed_calls_return_results_witness:
  "\<exists>x :: (nat, nat, datum) exchange. rtranclp (unreliable_step (sample_node LE) (sample_node BE) sample_result sample_typed)
      (exchange_init sample_connection sample_connection 0 7) x \<and>
    (\<exists>r. returned x = [(0, r)] \<and> (r = Inr (Inr (VUlong 1)) \<or>
      r \<in> {Inr (Inl (ThrewSystem transient)), Inr (Inl (ThrewSystem timeout)), Inl not_connected}))"
proof -
  let ?later = sample_result and ?init = "exchange_init sample_connection sample_connection 0 7 :: (nat, nat, datum) exchange"
  let ?step = "exchange_step (sample_node LE) (sample_node BE) ?later sample_typed"
  have m: "matched (sample_node LE) (sample_node BE) sample_connection (sample_typed i)" for i
    unfolding sample_typed_def by (rule typed_matched [OF sample_well_typed])
  have init: "accounted True (its_end sample_connection sample_typed) 7 (sample_node LE) (sample_node BE) sample_typed sample_connection [] ?init {#} {#} {#}"
    by (rule accounted_init)
  from makes_call [OF this m, of ?later] obtain x hist q b p where x: "?step ?init x" "made x = 1"
    "accounted True (its_end sample_connection sample_typed) 7 (sample_node LE) (sample_node BE) sample_typed sample_connection hist x q b p"
    by (auto simp: exchange_init_def)
  have later: "goes_on ?later sample_connection sample_typed (made x)" using x(2) by (simp add: goes_on_def sample_result_def)
  from calls_finish [where later = ?later, OF x(3) m its_end later] x(2) obtain y hist q b p
    where y: "rtranclp ?step x y" "made y = 1" "under_way y = 0"
      "accounted True (its_end sample_connection sample_typed) 7 (sample_node LE) (sample_node BE) sample_typed sample_connection hist y q b p" by auto
  have run: "rtranclp (unreliable_step (sample_node LE) (sample_node BE) ?later sample_typed) ?init y"
    by (rule reliable_runs [OF converse_rtranclp_into_rtranclp [where r = ?step, OF x(1) y(1)]])
  have "set (map fst (returned y)) = {0}" "distinct (map fst (returned y))"
    using all_returned(1) [OF y(4,3)] y(2,4) by (auto simp: accounted_parts)
  then have "map fst (returned y) = [0]" by (cases "returned y"; cases "tl (returned y)") auto
  then obtain r where r: "returned y = [(0, r)]" by auto
  have "r = Inr (at_client sample_connection (map_ending unsigned_datum (mfun successor (unsigned_datum (VUlong (of_nat 0)))))) \<or>
      r \<in> {Inr (Inl (ThrewSystem transient)), Inr (Inl (ThrewSystem timeout)), Inl not_connected}"
    by (rule typed_calls_return_results [where later = ?later and i = 0 and x = y, OF run [unfolded sample_typed_def [abs_def]] sample_well_typed])
      (use y(2) r in \<open>simp_all add: sample_result_def sample_typed_def typed_call_def\<close>)
  with run r show ?thesis by (intro exI [of _ y]) (simp add: successor_def)
qed

end
