(* ===== verification/WS.thy ===== *)
theory WS
  imports TCP Text
begin

text \<open>
  A WebSocket connection (src/corba/net/ws/connection.cc): the HTTP handshake of both ends, the
  queue of messages, and the handlers the event loop calls. Frames are made and read by the
  library wslay; what it and the operating system answer are arguments.
\<close>

section \<open>Texts\<close>

text \<open>\<open>std::string::find\<close>, from the start and from a position.\<close>

fun search :: "bytes \<Rightarrow> bytes \<Rightarrow> nat option" where
  "search pat [] = (if pat = [] then Some 0 else None)"
| "search pat (c # s) = (if take (length pat) (c # s) = pat then Some 0 else map_option Suc (search pat s))"

definition search_from :: "bytes \<Rightarrow> bytes \<Rightarrow> nat \<Rightarrow> nat option" where
  "search_from pat s pos = (if length s < pos then None else map_option (\<lambda>i. pos + i) (search pat (drop pos s)))"

definition crlf :: bytes where
  "crlf = [13, 10]"

text \<open>\<open>substr(keyhdstart, keyhdend - keyhdstart)\<close>, where \<open>keyhdend\<close> can be \<open>npos\<close>.\<close>

definition header_value :: "bytes \<Rightarrow> nat \<Rightarrow> bytes" where
  "header_value s start =
     (case search_from crlf s start of
        None \<Rightarrow> drop start s
      | Some e \<Rightarrow> take (e - start) (drop start s))"

section \<open>State\<close>

datatype WsConnectionState = HTTP_SERVER | HTTP_CLIENT | WS

text \<open>\<open>ctx\<close> is whether the pointer to the context of wslay has been set.\<close>

record ws =
  wfd :: int
  wread_active :: bool
  wwrite_active :: bool
  wtimer_active :: bool
  wtimer_armed :: bool
  wstate :: ConnectionState
  wsstate :: WsConnectionState
  headers :: bytes
  client_key :: bytes
  ctx :: bool
  wqueue :: "bytes list"

definition ws_init :: "WsConnectionState \<Rightarrow> ws" where
  "ws_init initialState =
     \<lparr>wfd = -1, wread_active = False, wwrite_active = False, wtimer_active = False, wtimer_armed = False,
      wstate = IDLE, wsstate = initialState, headers = [], client_key = [], ctx = False, wqueue = []\<rparr>"

text \<open>
  \<open>HttpSent\<close>: octets given to \<open>::send\<close>; \<open>Queued\<close> and \<open>Refused\<close>: a message given to
  \<open>wslay_event_queue_msg\<close>, which takes it or not; \<open>Delivered\<close>: a message given to the ORB.
\<close>

datatype ws_effect =
    HttpSent bytes
  | Queued bytes
  | Refused bytes
  | Delivered bytes
  | WsClosed int
  | WsFailCalls system_exception

section \<open>Watchers\<close>

definition ws_stopReadHandler :: "ws \<Rightarrow> ws" where
  "ws_stopReadHandler c = (if \<not> wread_active c then c else c\<lparr>wread_active := False\<rparr>)"

definition ws_startWriteHandler :: "ws \<Rightarrow> ws" where
  "ws_startWriteHandler c = (if wwrite_active c then c else c\<lparr>wwrite_active := True\<rparr>)"

definition ws_stopWriteHandler :: "ws \<Rightarrow> ws" where
  "ws_stopWriteHandler c = (if \<not> wwrite_active c then c else c\<lparr>wwrite_active := False\<rparr>)"

definition ws_startReadHandler :: "ws \<Rightarrow> ws" where
  "ws_startReadHandler c = (if wread_active c then c else c\<lparr>wread_active := True\<rparr>)"

definition ws_startTimer :: "ws \<Rightarrow> ws" where
  "ws_startTimer c = (if wtimer_active c then c else c\<lparr>wtimer_active := True, wtimer_armed := True\<rparr>)"

definition ws_stopTimer :: "ws \<Rightarrow> ws" where
  "ws_stopTimer c = (if \<not> wtimer_active c then c else c\<lparr>wtimer_active := False, wtimer_armed := False\<rparr>)"

definition ws_init_watchers :: "ws \<Rightarrow> error option" where
  "ws_init_watchers c = (if wread_active c \<or> wwrite_active c then Some LibraryMisuse else None)"

section \<open>The queue\<close>

text \<open>
  Every handler returns the connection, the effects and the exception it leaves with. \<open>q i\<close> is
  what \<open>wslay_event_queue_msg\<close> returns for the message at index \<open>i\<close>, \<open>r\<close> what
  \<open>wslay_event_send\<close> returns.
\<close>

type_synonym ws_result = "ws \<times> ws_effect list \<times> error option"

definition flushSendBuffer :: "(nat \<Rightarrow> int) \<Rightarrow> int \<Rightarrow> ws \<Rightarrow> ws_result" where
  "flushSendBuffer q r c =
     (if wqueue c = [] then (c, [], None)
      else if \<not> ctx c then (c, [], Some Uninitialised)
      else (let fx = map (\<lambda>(i, b). if q i = 0 then Queued b else Refused b) (enumerate 0 (wqueue c));
                c1 = c\<lparr>wqueue := []\<rparr>
            in (if r \<noteq> 0 then ws_startWriteHandler c1 else c1, fx, None)))"

definition startWSMode :: "(nat \<Rightarrow> int) \<Rightarrow> int \<Rightarrow> ws \<Rightarrow> ws_result" where
  "startWSMode q r c = flushSendBuffer q r (c\<lparr>headers := [], wsstate := WS\<rparr>)"

section \<open>Connecting\<close>

definition ws_up :: "int \<Rightarrow> bool \<Rightarrow> ws \<Rightarrow> ws_result" where
  "ws_up fd in_progress c =
     (if 0 \<le> wfd c then (c, [], None)
      else let c1 = c\<lparr>wfd := fd\<rparr> in
        if fd < 0 then (c1\<lparr>wstate := PENDING\<rparr>, [], Some (RuntimeError ''WsConnection()::up(): {}: {}''))
        else case ws_init_watchers c1 of
          Some err \<Rightarrow> (c1, [], Some err)
        | None \<Rightarrow>
            (let c2 = ws_startTimer c1;
                 c3 = (if in_progress then ws_startWriteHandler (c2\<lparr>wstate := INPROGRESS\<rparr>)
                       else c2\<lparr>wstate := ESTABLISHED\<rparr>)
             in (ws_startReadHandler c3, [], None)))"

definition ws_accept :: "int \<Rightarrow> ws \<Rightarrow> ws_result" where
  "ws_accept client c =
     (if wfd c \<noteq> -1 then (c, [], Some (RuntimeError ''WsConnection::accept(int fd): fd is already set''))
      else let c1 = c\<lparr>wfd := client\<rparr> in
        case ws_init_watchers c1 of
          Some err \<Rightarrow> (c1, [], Some err)
        | None \<Rightarrow> ((ws_startReadHandler c1)\<lparr>wstate := ESTABLISHED\<rparr>, [], None))"

definition ws_send :: "int \<Rightarrow> bool \<Rightarrow> (nat \<Rightarrow> int) \<Rightarrow> int \<Rightarrow> bytes \<Rightarrow> ws \<Rightarrow> ws_result" where
  "ws_send fd in_progress q r buffer c =
     (let c1 = c\<lparr>wqueue := wqueue c @ [buffer]\<rparr> in
      case wstate c1 of
        IDLE \<Rightarrow> ws_up fd in_progress c1
      | PENDING \<Rightarrow> (c1, [], None)
      | INPROGRESS \<Rightarrow> (c1, [], None)
      | ESTABLISHED \<Rightarrow> flushSendBuffer q r c1)"

section \<open>The handshake\<close>

text \<open>
  What \<open>::send\<close> returns is the number of octets taken or -1. The octets given to the system are
  the first ones of the text.
\<close>

definition http_sent :: "int \<Rightarrow> bytes \<Rightarrow> ws_effect list" where
  "http_sent n text = (if n < 0 then [] else [HttpSent (take (nat n) text)])"

definition http_request :: "HostAndPort \<Rightarrow> bytes \<Rightarrow> bytes" where
  "http_request local key =
     lit ''GET '' @ lit ''/'' @ lit '' HTTP/1.1'' @ crlf @
     lit ''Host: '' @ host local @ lit '':'' @ show_decimal (unat (port local)) @ crlf @
     lit ''Upgrade: websocket'' @ crlf @
     lit ''Connection: Upgrade'' @ crlf @
     lit ''Sec-WebSocket-Key: '' @ key @ crlf @
     lit ''Sec-WebSocket-Version: 13'' @ crlf @ crlf"

definition http_reply :: "bytes \<Rightarrow> bytes" where
  "http_reply accept_key =
     lit ''HTTP/1.1 101 Switching Protocols'' @ crlf @
     lit ''Upgrade: websocket'' @ crlf @
     lit ''Connection: Upgrade'' @ crlf @
     lit ''Sec-WebSocket-Accept: '' @ accept_key @ crlf @ crlf"

text \<open>\<open>key\<close> is the random key \<open>create_clientkey\<close> returns, \<open>n\<close> what \<open>::send\<close> returns.\<close>

definition httpClientSend :: "HostAndPort \<Rightarrow> bytes \<Rightarrow> int \<Rightarrow> ws \<Rightarrow> ws_result" where
  "httpClientSend local key n c =
     (let c1 = c\<lparr>client_key := key\<rparr>; get = http_request local key
      in (c1, http_sent n get, if n \<noteq> int (length get) then Some (RuntimeError ''failed'') else None))"

datatype http_recv = HttpGot bytes | HttpError

text \<open>
  The answers the handshake depends on: \<open>sha1\<close> and \<open>base64\<close> are those of the library nettle;
  \<open>reply_sent\<close> is what \<open>::send\<close> returns for the reply; \<open>context_made\<close> is whether wslay
  could make its context.
\<close>

record handshake =
  sha1 :: "bytes \<Rightarrow> bytes"
  base64 :: "bytes \<Rightarrow> bytes"
  reply_sent :: int
  context_made :: bool
  queue_answer :: "nat \<Rightarrow> int"
  send_answer :: int

text \<open>The keys, from the 16 random octets and from the key of the client (createAcceptKey.cc).\<close>

definition create_clientkey :: "handshake \<Rightarrow> bytes \<Rightarrow> bytes" where
  "create_clientkey a random16 = base64 a random16"

definition create_acceptkey :: "handshake \<Rightarrow> bytes \<Rightarrow> bytes" where
  "create_acceptkey a clientkey = base64 a (sha1 a (clientkey @ lit ''258EAFA5-E914-47DA-95CA-C5AB0DC85B11''))"

definition httpServerRcvd :: "handshake \<Rightarrow> http_recv \<Rightarrow> ws \<Rightarrow> ws_result" where
  "httpServerRcvd a rcvd c =
     (case rcvd of
        HttpError \<Rightarrow> (c, [], None)
      | HttpGot octets \<Rightarrow>
          (let h = headers c @ take 8192 octets; c1 = c\<lparr>headers := h\<rparr> in
           if search (crlf @ crlf) h = None then (c1, [], None)
           else if search (lit ''Upgrade: websocket'' @ crlf) h = None \<or>
                   search (lit ''Connection: Upgrade'' @ crlf) h = None then (c1, [], None)
           else case search (lit ''Sec-WebSocket-Key: '') h of
               None \<Rightarrow> (c1, [], None)
             | Some keyhdstart \<Rightarrow>
                 (let reply = http_reply (create_acceptkey a (header_value h (keyhdstart + 19)));
                      (c2, fx, e) = startWSMode (queue_answer a) (send_answer a) (c1\<lparr>ctx := ctx c1 \<or> context_made a\<rparr>)
                  in (c2, http_sent (reply_sent a) reply @ fx, e))))"

definition httpClientRcvd :: "handshake \<Rightarrow> http_recv \<Rightarrow> ws \<Rightarrow> ws_result" where
  "httpClientRcvd a rcvd c =
     (case rcvd of
        HttpError \<Rightarrow> (c, [], None)
      | HttpGot octets \<Rightarrow>
          (let h = headers c @ take 8192 octets; c1 = c\<lparr>headers := h\<rparr> in
           if search (crlf @ crlf) h = None then (c1, [], None)
           else case search (lit ''Sec-WebSocket-Accept: '') h of
               None \<Rightarrow> (c1, [], None)
             | Some keyhdstart \<Rightarrow>
                 if header_value h (keyhdstart + 22) = create_acceptkey a (client_key c1)
                 then startWSMode (queue_answer a) (send_answer a) (c1\<lparr>ctx := ctx c1 \<or> context_made a\<rparr>)
                 else (c1, [], None)))"

section \<open>Handlers\<close>

text \<open>\<open>r\<close> is what \<open>wslay_event_send\<close> returns.\<close>

definition ws_canWrite :: "HostAndPort \<Rightarrow> bytes \<Rightarrow> int \<Rightarrow> int \<Rightarrow> ws \<Rightarrow> ws_result" where
  "ws_canWrite local key n r c =
     (let c1 = (if wstate c = INPROGRESS then c\<lparr>wstate := ESTABLISHED\<rparr> else c) in
      case wsstate c1 of
        HTTP_CLIENT \<Rightarrow> httpClientSend local key n (ws_stopWriteHandler c1)
      | HTTP_SERVER \<Rightarrow> (c1, [], None)
      | WS \<Rightarrow> if \<not> ctx c1 then (c1, [], Some Uninitialised)
              else (if r = 0 then ws_stopWriteHandler c1 else c1, [], None))"

text \<open>A message as wslay hands it over: by its opcode.\<close>

datatype ws_message = BinaryFrame bytes | ConnectionClose | OtherFrame

fun wslay_msg_rcv_callback :: "ws_message \<Rightarrow> ws_effect list" where
  "wslay_msg_rcv_callback (BinaryFrame msg) = [Delivered msg]"
| "wslay_msg_rcv_callback ConnectionClose = []"
| "wslay_msg_rcv_callback OtherFrame = []"

text \<open>\<open>msgs\<close> are the messages \<open>wslay_event_recv\<close> finds.\<close>

definition ws_canRead :: "handshake \<Rightarrow> http_recv \<Rightarrow> ws_message list \<Rightarrow> ws \<Rightarrow> ws_result" where
  "ws_canRead a rcvd msgs c =
     (case wsstate c of
        HTTP_SERVER \<Rightarrow> httpServerRcvd a rcvd c
      | HTTP_CLIENT \<Rightarrow> httpClientRcvd a rcvd c
      | WS \<Rightarrow> if \<not> ctx c then (c, [], Some Uninitialised)
              else (c, concat (map wslay_msg_rcv_callback msgs), None))"

definition ws_timer :: "ws \<Rightarrow> ws_result" where
  "ws_timer c =
     (let c1 = c\<lparr>wtimer_armed := False\<rparr> in
      if wstate c1 = INPROGRESS
      then ((ws_stopReadHandler c1)\<lparr>wfd := -1, wstate := IDLE\<rparr>, [WsClosed (wfd c1), WsFailCalls timeout], None)
      else (c1, [], None))"

section \<open>Callbacks of wslay\<close>

datatype os_answer = OsDone nat | OsEINTR | OsEAGAIN | OsFailed

datatype wslay_error =
    WSLAY_ERR_WANT_READ | WSLAY_ERR_WANT_WRITE | WSLAY_ERR_PROTO | WSLAY_ERR_INVALID_ARGUMENT
  | WSLAY_ERR_INVALID_CALLBACK | WSLAY_ERR_NO_MORE_MSG | WSLAY_ERR_CALLBACK_FAILURE | WSLAY_ERR_WOULDBLOCK
  | WSLAY_ERR_NOMEM | OtherCode int

text \<open>\<open>show_int\<close> prints a code that has no name.\<close>

definition show_int :: "int \<Rightarrow> bytes" where
  "show_int n = (if n < 0 then lit ''-'' else []) @ show_decimal (nat \<bar>n\<bar>)"

fun wslay_error_to_string :: "wslay_error \<Rightarrow> bytes" where
  "wslay_error_to_string WSLAY_ERR_WANT_READ = lit ''WSLAY_ERR_WANT_READ''"
| "wslay_error_to_string WSLAY_ERR_WANT_WRITE = lit ''WSLAY_ERR_WANT_WRITE''"
| "wslay_error_to_string WSLAY_ERR_PROTO = lit ''WSLAY_ERR_PROTO''"
| "wslay_error_to_string WSLAY_ERR_INVALID_ARGUMENT = lit ''WSLAY_ERR_INVALID_ARGUMENT''"
| "wslay_error_to_string WSLAY_ERR_INVALID_CALLBACK = lit ''WSLAY_ERR_INVALID_CALLBACK''"
| "wslay_error_to_string WSLAY_ERR_NO_MORE_MSG = lit ''WSLAY_ERR_NO_MORE_MSG''"
| "wslay_error_to_string WSLAY_ERR_CALLBACK_FAILURE = lit ''WSLAY_ERR_CALLBACK_FAILURE''"
| "wslay_error_to_string WSLAY_ERR_WOULDBLOCK = lit ''WSLAY_ERR_WOULDBLOCK''"
| "wslay_error_to_string WSLAY_ERR_NOMEM = lit ''WSLAY_ERR_NOMEM''"
| "wslay_error_to_string (OtherCode n) = lit ''unknown wslay error code '' @ show_int n"

text \<open>The loop around \<open>send\<close>; \<open>None\<close>: it has not come to an end with these answers.\<close>

fun wslay_send_callback :: "os_answer list \<Rightarrow> (int \<times> wslay_error option) option" where
  "wslay_send_callback [] = None"
| "wslay_send_callback (OsEINTR # rs) = wslay_send_callback rs"
| "wslay_send_callback (OsDone n # rs) = Some (int n, None)"
| "wslay_send_callback (OsEAGAIN # rs) = Some (-1, Some WSLAY_ERR_WOULDBLOCK)"
| "wslay_send_callback (OsFailed # rs) = Some (-1, Some WSLAY_ERR_CALLBACK_FAILURE)"

text \<open>
  What \<open>recv\<close> returns is passed on: the octets, none when the peer has closed, or -1 for an error. In no case
  is the error of the context set; the log apart, a failure looks like a lack of octets.
\<close>

datatype os_octets = OsGot bytes | OsReadAgain | OsReadFailed

definition wslay_recv_callback :: "nat \<Rightarrow> os_octets \<Rightarrow> int \<times> bytes \<times> wslay_error option" where
  "wslay_recv_callback len answer =
     (case answer of
        OsGot octets \<Rightarrow> (int (length (take len octets)), take len octets, None)
      | OsReadAgain \<Rightarrow> (-1, [], None)
      | OsReadFailed \<Rightarrow> (-1, [], None))"

text \<open>The mask is what the buffer held.\<close>

definition genmask_callback :: "bytes \<Rightarrow> int \<times> bytes" where
  "genmask_callback buf = (0, buf)"

section \<open>The protocol\<close>

text \<open>New connections, of a client and for the descriptor \<open>fd\<close> of an accepted socket (protocol.cc).\<close>

definition ws_connectOutgoing :: ws where
  "ws_connectOutgoing = ws_init HTTP_CLIENT"

definition ws_connectIncoming :: "int \<Rightarrow> ws_result" where
  "ws_connectIncoming fd = ws_accept fd (ws_init HTTP_SERVER)"

end
