(* ===== verification/WS_Properties.thy ===== *)
theory WS_Properties
  imports WS
begin

text \<open>
  Properties of a WebSocket connection: the handshake comes to its end however it is cut up on
  the way, what is known in every reachable state, and what goes wrong around the handshake.
\<close>

section \<open>Searching\<close>

definition occurs_at :: "bytes \<Rightarrow> bytes \<Rightarrow> nat \<Rightarrow> bool" where
  "occurs_at pat s i \<longleftrightarrow> i \<le> length s \<and> take (length pat) (drop i s) = pat"

lemma occurs_at_Cons: "occurs_at pat (c # s) (Suc i) \<longleftrightarrow> occurs_at pat s i"
  by (simp add: occurs_at_def)

lemma occurs_at_0: "occurs_at pat s 0 \<longleftrightarrow> take (length pat) s = pat"
  by (simp add: occurs_at_def)

lemma search_Some: "search pat s = Some i \<longleftrightarrow> occurs_at pat s i \<and> (\<forall>j<i. \<not> occurs_at pat s j)"
proof (induction s arbitrary: i)
  case Nil
  then show ?case by (auto simp: occurs_at_def)
next
  case (Cons c s)
  show ?case
  proof (cases "take (length pat) (c # s) = pat")
    case True
    then have "occurs_at pat (c # s) 0" by (simp only: occurs_at_0)
    then show ?thesis using True by (cases i) auto
  next
    case False
    then have no: "\<not> occurs_at pat (c # s) 0" by (simp only: occurs_at_0 not_False_eq_True)
    show ?thesis
    proof (cases i)
      case 0
      then show ?thesis using False no by simp
    next
      case (Suc k)
      have "(\<forall>j<Suc k. \<not> occurs_at pat (c # s) j) \<longleftrightarrow> (\<forall>j<k. \<not> occurs_at pat s j)"
        using no by (auto simp: less_Suc_eq_0_disj occurs_at_Cons)
      then show ?thesis using False Cons by (simp add: Suc occurs_at_Cons)
    qed
  qed
qed

lemma search_None: "search pat s = None \<longleftrightarrow> (\<forall>i. \<not> occurs_at pat s i)"
proof
  show "search pat s = None \<Longrightarrow> \<forall>i. \<not> occurs_at pat s i"
  proof (induction s)
    case Nil
    then show ?case by (auto simp: occurs_at_def split: if_splits)
  next
    case (Cons c s)
    show ?case
    proof
      fix i
      show "\<not> occurs_at pat (c # s) i" using Cons by (cases i) (auto simp: occurs_at_Cons occurs_at_0 split: if_splits)
    qed
  qed
  show "\<forall>i. \<not> occurs_at pat s i \<Longrightarrow> search pat s = None"
    using search_Some [of pat s] by (cases "search pat s") auto
qed

lemma occurs_appended: "occurs_at pat s i \<Longrightarrow> occurs_at pat (s @ t) i"
proof -
  assume o: "occurs_at pat s i"
  then have "length (drop i s) \<ge> length pat" unfolding occurs_at_def by (metis length_take min.absorb_iff2 nat_le_linear min_def)
  then show ?thesis using o by (simp add: occurs_at_def)
qed

lemma occurs_inside: "occurs_at pat s i \<Longrightarrow> i + length pat \<le> length s"
  unfolding occurs_at_def by (metis add.commute length_drop length_take le_diff_conv2 min.absorb_iff2 min.commute)

text \<open>A text whose first terminator is its end has none before it is complete.\<close>

lemma search_incomplete:
  assumes "search pat (s @ t) = Some (length (s @ t) - length pat)" and "t \<noteq> []"
  shows "search pat s = None"
  unfolding search_None
proof (intro allI notI)
  fix i
  assume "occurs_at pat s i"
  then have "occurs_at pat (s @ t) i" "i + length pat \<le> length s" by (simp_all add: occurs_appended occurs_inside)
  moreover have "i < length (s @ t) - length pat" using calculation(2) assms(2) by (cases t) auto
  ultimately show False using assms(1) by (simp add: search_Some)
qed

lemma search_found: "search pat (s @ pat @ t) \<noteq> None"
proof -
  have "occurs_at pat (s @ pat @ t) (length s)" by (simp add: occurs_at_def)
  then show ?thesis by (auto simp: search_None)
qed

lemma search_prefix [simp]: "search pat (pat @ t) = Some 0"
  by (simp add: search_Some occurs_at_0)

text \<open>A pattern is not found where the text has none of one of its characters.\<close>

lemma search_skip:
  assumes "pat = x # pat'" and "x \<notin> set l"
  shows "search pat (l @ r) = map_option (\<lambda>i. length l + i) (search pat r)"
  using assms(2)
proof (induction l)
  case Nil
  then show ?case by (simp add: option.map_ident)
next
  case (Cons c l)
  then show ?case using assms(1) by (auto simp: option.map_comp comp_def)
qed

lemma search_no_last:
  assumes "pat = pat' @ [x]" and "x \<notin> set (drop (length pat') s)"
  shows "search pat s = None"
  unfolding search_None
proof (intro allI notI)
  fix i
  assume o: "occurs_at pat s i"
  from occurs_inside [OF this] have len: "i + length pat' < length s" using assms(1) by simp
  have "take (length pat) (drop i s) ! length pat' = x" using o assms(1) by (simp add: occurs_at_def nth_append)
  then have "s ! (i + length pat') = x" using len assms(1) by simp
  then have "drop (length pat') s ! i = x" using len by (simp add: add.commute)
  moreover have "drop (length pat') s ! i \<in> set (drop (length pat') s)" using len by (intro nth_mem) simp
  ultimately show False using assms(2) by metis
qed

text \<open>A line that does not have a pattern without line ends in it is passed over.\<close>

lemma search_line:
  assumes "13 \<notin> set pat" and "10 \<notin> set pat" and "pat \<noteq> []" and "search pat l = None"
  shows "search pat (l @ crlf @ r) = map_option (\<lambda>i. length l + 2 + i) (search pat r)"
  using assms(4)
proof (induction l)
  case Nil
  have "take (length pat) (13 # 10 # r) \<noteq> pat" "take (length pat) (10 # r) \<noteq> pat"
    using assms(1-3) by (cases pat; auto)+
  then show ?case by (simp add: crlf_def option.map_comp comp_def)
next
  case (Cons c l)
  have "take (length pat) (c # l @ crlf @ r) \<noteq> pat"
  proof
    assume t: "take (length pat) (c # l @ crlf @ r) = pat"
    show False
    proof (cases "length pat \<le> length (c # l)")
      case True
      then have "take (length pat) (c # l) = pat" using t by (metis append_Cons take_append diff_is_0_eq take_0 append_Nil2)
      then show False using Cons.prems by simp
    next
      case False
      then have "13 \<in> set (take (length pat) ((c # l) @ crlf @ r))"
        using assms(3) by (simp add: crlf_def take_Cons')
      then show False using t assms(1) by simp
    qed
  qed
  then show ?case using Cons by (auto simp: option.map_comp comp_def split: if_splits)
qed


section \<open>The texts of the handshake\<close>

text \<open>Lines without line ends in them, and an empty line.\<close>

definition http_text :: "bytes list \<Rightarrow> bytes" where
  "http_text ls = concat (map (\<lambda>l. l @ crlf) ls) @ crlf"

lemma http_text_simps: "http_text [] = crlf" "http_text (l # ls) = l @ crlf @ http_text ls"
  by (simp_all add: http_text_def)

lemma length_http_text: "2 \<le> length (http_text ls)" "ls \<noteq> [] \<Longrightarrow> 4 \<le> length (http_text ls)"
  by (cases ls; simp add: http_text_def crlf_def)+

lemma http_text_end:
  "\<forall>l\<in>set ls. l \<noteq> [] \<and> 13 \<notin> set l \<Longrightarrow> ls \<noteq> [] \<Longrightarrow>
   search (crlf @ crlf) (http_text ls) = Some (length (http_text ls) - 4)"
proof (induction ls)
  case (Cons l ls)
  have skip: "search (crlf @ crlf) (l @ r) = map_option (\<lambda>i. length l + i) (search (crlf @ crlf) r)" for r
    using Cons.prems(1) by (intro search_skip [where x = 13]) (simp_all add: crlf_def)
  show ?case
  proof (cases ls)
    case Nil
    have "search (crlf @ crlf) (crlf @ crlf) = Some 0" using search_prefix [of "crlf @ crlf" "[]"] by simp
    then show ?thesis by (simp add: Nil http_text_simps skip) (simp add: crlf_def)
  next
    case (Cons l' ls')
    then obtain c l'' where l': "l' = c # l''" "c \<noteq> 13" using Cons.prems(1) by (cases l') auto
    have "search (crlf @ crlf) (crlf @ http_text ls) = map_option (\<lambda>i. 2 + i) (search (crlf @ crlf) (http_text ls))"
      using l' by (simp add: Cons http_text_simps crlf_def option.map_comp comp_def)
    moreover have "search (crlf @ crlf) (http_text ls) = Some (length (http_text ls) - 4)"
      using Cons.IH Cons.prems(1) Cons by simp
    moreover have "search (crlf @ crlf) (http_text (l # ls)) =
        map_option (\<lambda>i. length l + i) (search (crlf @ crlf) (crlf @ http_text ls))"
      by (simp only: http_text_simps(2) skip)
    moreover have "length (http_text (l # ls)) = length l + 2 + length (http_text ls)"
      by (simp add: http_text_simps crlf_def)
    ultimately show ?thesis using length_http_text(2) [of ls] Cons by simp
  qed
qed simp

text \<open>The first line that starts with a pattern that is in no line before.\<close>

lemma http_text_header:
  assumes "13 \<notin> set pat" and "10 \<notin> set pat" and "pat \<noteq> []"
    and "\<forall>l\<in>set ls. search pat l = None"
  shows "search pat (http_text (ls @ (pat @ v) # ls')) = Some (length (concat (map (\<lambda>l. l @ crlf) ls)))"
  using assms(4)
proof (induction ls)
  case Nil
  then show ?case by (simp add: http_text_simps)
next
  case (Cons l ls)
  then show ?case using search_line [OF assms(1-3), of l] by (simp add: http_text_simps) (simp add: crlf_def)
qed

lemma header_value_eq:
  assumes "drop start s = v @ crlf @ r" and "start \<le> length s" and "13 \<notin> set v"
  shows "header_value s start = v"
proof -
  have "search crlf (v @ crlf @ r) = Some (length v)"
    using search_skip [of crlf 13 "[10]" v "crlf @ r"] assms(3) by (simp add: crlf_def)
  then show ?thesis using assms(1,2) by (simp add: header_value_def search_from_def)
qed

lemma http_text_value:
  assumes "13 \<notin> set pat" and "10 \<notin> set pat" and "pat \<noteq> []"
    and "\<forall>l\<in>set ls. search pat l = None" and "13 \<notin> set v"
  obtains start where "search pat (http_text (ls @ (pat @ v) # ls')) = Some start"
    and "header_value (http_text (ls @ (pat @ v) # ls')) (start + length pat) = v"
proof -
  let ?before = "concat (map (\<lambda>l. l @ crlf) ls)"
  have eq: "http_text (ls @ (pat @ v) # ls') = ?before @ pat @ v @ crlf @ http_text ls'"
    by (simp add: http_text_def)
  have "header_value (http_text (ls @ (pat @ v) # ls')) (length ?before + length pat) = v"
    by (rule header_value_eq [of _ _ _ "http_text ls'"]) (simp_all add: eq assms(5))
  then show ?thesis using that http_text_header [OF assms(1-4)] by blast
qed


text \<open>A host name as it stands in a URL: no blank and no line end. Keys are base64.\<close>

definition plain_host :: "HostAndPort \<Rightarrow> bool" where
  "plain_host local \<longleftrightarrow> 13 \<notin> set (host local) \<and> 32 \<notin> set (host local)"

definition request_lines :: "HostAndPort \<Rightarrow> bytes list" where
  "request_lines local = [lit ''GET / HTTP/1.1'',
     lit ''Host: '' @ host local @ lit '':'' @ show_decimal (unat (port local)),
     lit ''Upgrade: websocket'', lit ''Connection: Upgrade'']"

definition reply_lines :: "bytes list" where
  "reply_lines = [lit ''HTTP/1.1 101 Switching Protocols'', lit ''Upgrade: websocket'', lit ''Connection: Upgrade'']"

lemma http_request_text:
  "http_request local key =
     http_text (request_lines local @ (lit ''Sec-WebSocket-Key: '' @ key) # [lit ''Sec-WebSocket-Version: 13''])"
  by (simp add: http_request_def request_lines_def http_text_def)

lemma http_reply_text: "http_reply key = http_text (reply_lines @ (lit ''Sec-WebSocket-Accept: '' @ key) # [])"
  by (simp add: http_reply_def reply_lines_def http_text_def)

lemma decimal_plain: "13 \<notin> set (show_decimal n)" "32 \<notin> set (show_decimal n)"
  using show_decimal_digits [of 13 n] show_decimal_digits [of 32 n] by (auto simp: is_digit_def)

lemma request_end:
  assumes "plain_host local" and "13 \<notin> set key"
  shows "search (crlf @ crlf) (http_request local key) = Some (length (http_request local key) - 4)"
  unfolding http_request_text
  by (rule http_text_end) (use assms decimal_plain in \<open>simp_all add: request_lines_def plain_host_def\<close>)

lemma reply_end:
  assumes "13 \<notin> set key"
  shows "search (crlf @ crlf) (http_reply key) = Some (length (http_reply key) - 4)"
  unfolding http_reply_text by (rule http_text_end) (use assms in \<open>simp_all add: reply_lines_def\<close>)

lemma request_key:
  assumes "plain_host local" and "13 \<notin> set key"
  obtains start where "search (lit ''Sec-WebSocket-Key: '') (http_request local key) = Some start"
    and "header_value (http_request local key) (start + 19) = key"
proof -
  let ?pat = "lit ''Sec-WebSocket-Key: ''"
  let ?host = "lit ''Host: '' @ host local @ lit '':'' @ show_decimal (unat (port local))"
  have "32 \<notin> set (drop 18 ?host)"
    using assms(1) decimal_plain set_drop_subset [of 12 "host local @ lit '':'' @ show_decimal (unat (port local))"]
    by (auto simp: plain_host_def)
  moreover have "length (lit ''Sec-WebSocket-Key:'') = 18" "?pat = lit ''Sec-WebSocket-Key:'' @ [32]" by simp_all
  ultimately have host: "search ?pat ?host = None"
    using search_no_last [of ?pat "lit ''Sec-WebSocket-Key:''" 32 ?host] by metis
  have lines: "\<forall>l\<in>set (request_lines local). search ?pat l = None"
    using host by (simp add: request_lines_def)
  have len: "length ?pat = 19" by simp
  show ?thesis
  proof (rule http_text_value [of ?pat "request_lines local" key "[lit ''Sec-WebSocket-Version: 13'']", OF _ _ _ lines assms(2),
        folded http_request_text, unfolded len])
  qed (use that in \<open>assumption | simp\<close>)+
qed

lemma reply_key:
  assumes "13 \<notin> set key"
  obtains start where "search (lit ''Sec-WebSocket-Accept: '') (http_reply key) = Some start"
    and "header_value (http_reply key) (start + 22) = key"
proof -
  let ?pat = "lit ''Sec-WebSocket-Accept: ''"
  have lines: "\<forall>l\<in>set reply_lines. search ?pat l = None" by (simp add: reply_lines_def)
  have len: "length ?pat = 22" by simp
  show ?thesis
  proof (rule http_text_value [of ?pat reply_lines key "[]", OF _ _ _ lines assms, folded http_reply_text, unfolded len])
  qed (use that in \<open>assumption | simp\<close>)+
qed

lemma request_upgrades:
  "search (lit ''Upgrade: websocket'' @ crlf) (http_request local key) \<noteq> None"
  "search (lit ''Connection: Upgrade'' @ crlf) (http_request local key) \<noteq> None"
proof -
  let ?a = "lit ''GET '' @ lit ''/'' @ lit '' HTTP/1.1'' @ crlf @ lit ''Host: '' @ host local @ lit '':'' @
    show_decimal (unat (port local)) @ crlf"
  let ?z = "lit ''Sec-WebSocket-Key: '' @ key @ crlf @ lit ''Sec-WebSocket-Version: 13'' @ crlf @ crlf"
  have 1: "http_request local key = ?a @ (lit ''Upgrade: websocket'' @ crlf) @ lit ''Connection: Upgrade'' @ crlf @ ?z"
    and 2: "http_request local key = (?a @ lit ''Upgrade: websocket'' @ crlf) @ (lit ''Connection: Upgrade'' @ crlf) @ ?z"
    by (simp_all add: http_request_def)
  show "search (lit ''Upgrade: websocket'' @ crlf) (http_request local key) \<noteq> None" unfolding 1 by (rule search_found)
  show "search (lit ''Connection: Upgrade'' @ crlf) (http_request local key) \<noteq> None" unfolding 2 by (rule search_found)
qed


section \<open>The handshake\<close>

text \<open>The read handler is called once for every piece that arrives.\<close>

fun http_reads :: "handshake \<Rightarrow> bytes list \<Rightarrow> ws \<Rightarrow> ws_result" where
  "http_reads a [] c = (c, [], None)"
| "http_reads a (bs # bss) c =
     (case ws_canRead a (HttpGot bs) [] c of
        (c1, fx, Some e) \<Rightarrow> (c1, fx, Some e)
      | (c1, fx, None) \<Rightarrow> (let (c2, fx', e) = http_reads a bss c1 in (c2, fx @ fx', e)))"

definition pieces :: "bytes list \<Rightarrow> bool" where
  "pieces bss \<longleftrightarrow> (\<forall>bs\<in>set bss. bs \<noteq> [] \<and> length bs \<le> 8192)"

fun http_octets :: "ws_effect list \<Rightarrow> bytes" where
  "http_octets [] = []"
| "http_octets (HttpSent bs # fx) = bs @ http_octets fx"
| "http_octets (_ # fx) = http_octets fx"

lemma canRead_gathers:
  assumes "wsstate c \<noteq> WS" and "length bs \<le> 8192" and "search (crlf @ crlf) (headers c @ bs) = None"
  shows "ws_canRead a (HttpGot bs) ms c = (c\<lparr>headers := headers c @ bs\<rparr>, [], None)"
  using assms by (cases "wsstate c") (simp_all add: ws_canRead_def httpServerRcvd_def httpClientRcvd_def Let_def)

lemma http_reads_gather:
  assumes "search (crlf @ crlf) (headers c @ concat bss) = Some (length (headers c @ concat bss) - length (crlf @ crlf))"
    and "bss \<noteq> []" and "pieces bss" and "wsstate c \<noteq> WS"
  shows "http_reads a bss c = ws_canRead a (HttpGot (last bss)) [] (c\<lparr>headers := headers c @ concat (butlast bss)\<rparr>)"
  using assms
proof (induction bss arbitrary: c)
  case (Cons bs bss)
  show ?case
  proof (cases bss)
    case Nil
    then show ?thesis by (auto split: prod.split option.split)
  next
    case (Cons b' bss')
    then have "concat bss \<noteq> []" using Cons.prems(3) by (simp add: pieces_def)
    then have "search (crlf @ crlf) (headers c @ bs) = None"
      using search_incomplete [of "crlf @ crlf" "headers c @ bs" "concat bss"] Cons.prems(1) by simp
    from canRead_gathers [OF Cons.prems(4) _ this]
    have "ws_canRead a (HttpGot bs) [] c = (c\<lparr>headers := headers c @ bs\<rparr>, [], None)"
      using Cons.prems(3) by (simp add: pieces_def)
    moreover have "http_reads a bss (c\<lparr>headers := headers c @ bs\<rparr>) =
        ws_canRead a (HttpGot (last bss)) [] (c\<lparr>headers := headers c @ bs @ concat (butlast bss)\<rparr>)"
      using Cons.IH [of "c\<lparr>headers := headers c @ bs\<rparr>"] Cons.prems Cons by (simp add: pieces_def)
    ultimately show ?thesis using Cons by (simp split: prod.split)
  qed
qed simp

lemma last_piece: "bss \<noteq> [] \<Longrightarrow> pieces bss \<Longrightarrow> concat (butlast bss) @ take 8192 (last bss) = concat bss"
proof -
  assume "bss \<noteq> []" "pieces bss"
  then have "bss = butlast bss @ [last bss]" "take 8192 (last bss) = last bss" by (simp_all add: pieces_def)
  then show ?thesis by (metis append_Nil2 concat.simps concat_append)
qed

text \<open>A read that completes the request, and one that completes the reply.\<close>

lemma server_completes:
  assumes "plain_host local" and "13 \<notin> set key" and "wsstate s = HTTP_SERVER" and "wqueue s = []" and "length piece \<le> 8192"
    and "headers s @ piece = http_request local key"
  shows "ws_canRead a (HttpGot piece) [] s = (s\<lparr>headers := [], wsstate := WS, ctx := ctx s \<or> context_made a\<rparr>,
    http_sent (reply_sent a) (http_reply (create_acceptkey a key)), None)"
proof -
  obtain start where k: "search (lit ''Sec-WebSocket-Key: '') (http_request local key) = Some start"
    "header_value (http_request local key) (start + 19) = key" by (rule request_key [OF assms(1,2)])
  show ?thesis
    using k request_upgrades [of local key] request_end [OF assms(1,2)] assms(3-6)
    by (auto simp: ws_canRead_def httpServerRcvd_def startWSMode_def flushSendBuffer_def Let_def simp del: lit_simps)
qed

lemma client_completes:
  assumes "13 \<notin> set (create_acceptkey a (client_key c))" and "wsstate c = HTTP_CLIENT" and "context_made a"
    and "length piece \<le> 8192" and "headers c @ piece = http_reply (create_acceptkey a (client_key c))"
  shows "ws_canRead a (HttpGot piece) [] c = startWSMode (queue_answer a) (send_answer a) (c\<lparr>ctx := True\<rparr>)"
proof -
  let ?key = "create_acceptkey a (client_key c)"
  obtain start where k: "search (lit ''Sec-WebSocket-Accept: '') (http_reply ?key) = Some start"
    "header_value (http_reply ?key) (start + 22) = ?key" by (rule reply_key [OF assms(1)])
  show ?thesis
    using k reply_end [OF assms(1)] assms(2-5)
    by (simp add: ws_canRead_def httpClientRcvd_def startWSMode_def del: lit_simps)
qed

lemma server_switches:
  assumes "plain_host local" and "13 \<notin> set key"
    and "wsstate s = HTTP_SERVER" and "headers s = []" and "wqueue s = []"
    and "concat bss = http_request local key" and "pieces bss"
  shows "http_reads a bss s = (s\<lparr>headers := [], wsstate := WS, ctx := ctx s \<or> context_made a\<rparr>,
    http_sent (reply_sent a) (http_reply (create_acceptkey a key)), None)"
proof -
  have ne: "bss \<noteq> []" using assms(6) by (auto simp: http_request_def)
  have four: "length (crlf @ crlf) = 4" by (simp add: crlf_def)
  let ?s = "s\<lparr>headers := concat (butlast bss)\<rparr>"
  have whole: "concat (butlast bss) @ last bss = http_request local key" "length (last bss) \<le> 8192"
    using last_piece [OF ne assms(7)] assms(6,7) ne by (simp_all add: pieces_def)
  have "http_reads a bss s = ws_canRead a (HttpGot (last bss)) [] ?s"
    using http_reads_gather [of s bss a] request_end [OF assms(1,2)] assms(3,4,6,7) ne four by simp
  also have "\<dots> = (s\<lparr>headers := [], wsstate := WS, ctx := ctx s \<or> context_made a\<rparr>,
      http_sent (reply_sent a) (http_reply (create_acceptkey a key)), None)"
    using server_completes [OF assms(1,2), of ?s] assms(3,5) whole by simp
  finally show ?thesis .
qed

lemma client_switches:
  assumes "13 \<notin> set (create_acceptkey a (client_key c))"
    and "wsstate c = HTTP_CLIENT" and "headers c = []" and "context_made a"
    and "concat bss = http_reply (create_acceptkey a (client_key c))" and "pieces bss"
  shows "http_reads a bss c = startWSMode (queue_answer a) (send_answer a) (c\<lparr>ctx := True\<rparr>)"
proof -
  have ne: "bss \<noteq> []" using assms(5) by (auto simp: http_reply_def)
  have four: "length (crlf @ crlf) = 4" by (simp add: crlf_def)
  let ?c = "c\<lparr>headers := concat (butlast bss)\<rparr>"
  have whole: "concat (butlast bss) @ last bss = http_reply (create_acceptkey a (client_key c))" "length (last bss) \<le> 8192"
    using last_piece [OF ne assms(6)] assms(5,6) ne by (simp_all add: pieces_def)
  have "http_reads a bss c = ws_canRead a (HttpGot (last bss)) [] ?c"
    using http_reads_gather [of c bss a] reply_end [OF assms(1)] assms(2,3,5,6) ne four by simp
  also have "\<dots> = startWSMode (queue_answer a) (send_answer a) (c\<lparr>ctx := True\<rparr>)"
    using client_completes [of a ?c "last bss"] assms(1,2,4) whole by (simp add: startWSMode_def)
  finally show ?thesis .
qed

lemma flush_queues:
  assumes "ctx c" and "\<forall>i. q i = 0"
  shows "flushSendBuffer q r c = (if wqueue c = [] \<or> r = 0 then c\<lparr>wqueue := []\<rparr> else ws_startWriteHandler (c\<lparr>wqueue := []\<rparr>),
    map Queued (wqueue c), None)"
proof -
  have "map (\<lambda>(i, b). if q i = 0 then Queued b else Refused b) (enumerate n bs) = map Queued bs" for n bs
    using assms(2) by (induction bs arbitrary: n) simp_all
  then show ?thesis using assms(1) by (simp add: flushSendBuffer_def)
qed

text \<open>C19. The handshake comes to its end: the client's write handler sends the request, the server gets it
  in any pieces and sends the reply, the client gets that in any pieces, and then both ends are in
  WebSocket mode with a context of wslay, the client having handed over everything that was sent meanwhile,
  in order. What is needed is that neither the host name nor what base64 returns has a line end in it, that the
  libraries of both ends compute the same, and that the system takes the texts whole.\<close>

theorem handshake_completes:
  assumes "plain_host local" and "\<And>s. 13 \<notin> set (base64 cl s)" and "sha1 sv = sha1 cl" and "base64 sv = base64 cl"
    and "wsstate c = HTTP_CLIENT" and "wstate c = INPROGRESS" and "headers c = []"
    and "wsstate s = HTTP_SERVER" and "headers s = []" and "wqueue s = []"
    and "context_made cl" and "context_made sv" and "\<forall>i. queue_answer cl i = 0"
    and "key = create_clientkey cl random16"
    and "ws_canWrite local key (int (length (http_request local key))) r c = (c1, fx1, e1)"
    and "concat requests = http_octets fx1" and "pieces requests" and "http_reads sv requests s = (s1, fx2, e2)"
    and "reply_sent sv = int (length (http_reply (create_acceptkey sv key)))"
    and "concat replies = http_octets fx2" and "pieces replies" and "http_reads cl replies c1 = (c2, fx3, e3)"
  shows "e1 = None \<and> e2 = None \<and> e3 = None \<and> wsstate s1 = WS \<and> ctx s1 \<and> wsstate c2 = WS \<and> ctx c2 \<and>
    wstate c2 = ESTABLISHED \<and> wqueue c2 = [] \<and> fx3 = map Queued (wqueue c)"
proof -
  have keys: "13 \<notin> set key" "13 \<notin> set (create_acceptkey cl key)" "create_acceptkey sv key = create_acceptkey cl key"
    using assms(2-4) by (simp_all add: assms(14) create_clientkey_def create_acceptkey_def)
  have c1: "c1 = (ws_stopWriteHandler (c\<lparr>wstate := ESTABLISHED\<rparr>))\<lparr>client_key := key\<rparr>"
    "fx1 = [HttpSent (http_request local key)]" "e1 = None"
    using assms(5,6,15) by (auto simp: ws_canWrite_def httpClientSend_def http_sent_def ws_stopWriteHandler_def Let_def)
  then have "concat requests = http_request local key" using assms(16) by simp
  from server_switches [OF assms(1) keys(1) assms(8-10) this assms(17), of sv]
  have s1: "s1 = s\<lparr>headers := [], wsstate := WS, ctx := True\<rparr>" "fx2 = [HttpSent (http_reply (create_acceptkey sv key))]" "e2 = None"
    using assms(12,18,19) by (simp_all add: http_sent_def)
  have key: "client_key c1 = key" "wsstate c1 = HTTP_CLIENT" "headers c1 = []" "wqueue c1 = wqueue c" "wstate c1 = ESTABLISHED"
    using assms(5,7) by (simp_all add: c1(1) ws_stopWriteHandler_def)
  then have "13 \<notin> set (create_acceptkey cl (client_key c1))" "concat replies = http_reply (create_acceptkey cl (client_key c1))"
    using s1(2) keys(2,3) assms(20) by simp_all
  from client_switches [OF this(1) key(2,3) assms(11) this(2) assms(21)]
  have "http_reads cl replies c1 = startWSMode (queue_answer cl) (send_answer cl) (c1\<lparr>ctx := True\<rparr>)" .
  then show ?thesis
    using c1(3) s1(1,3) key(4,5) assms(22) flush_queues [of _ "queue_answer cl" "send_answer cl", OF _ assms(13)]
    by (auto simp: startWSMode_def ws_startWriteHandler_def split: if_splits)
qed


section \<open>Runs\<close>

text \<open>
  As for TCP: the application sends messages, the event loop calls handlers whose watcher is
  active. A server does not answer before the client has written, so nothing is read while the
  connection is being made. Misuse of a library is not part of a run.
\<close>

datatype ws_event = WsQueue bytes | WsHandler

fun ws_queued :: "ws_event \<Rightarrow> bytes list" where
  "ws_queued (WsQueue b) = [b]"
| "ws_queued WsHandler = []"

definition defined :: "error option \<Rightarrow> bool" where
  "defined e \<longleftrightarrow> e \<noteq> Some LibraryMisuse \<and> e \<noteq> Some Uninitialised"

inductive ws_step :: "ws \<Rightarrow> ws_event \<Rightarrow> ws_effect list \<Rightarrow> ws \<Rightarrow> bool" where
  send: "ws_send fd in_progress q r b c = (c', fx, e) \<Longrightarrow> defined e \<Longrightarrow> -1 \<le> fd \<Longrightarrow> ws_step c (WsQueue b) fx c'"
| can_write: "wwrite_active c \<Longrightarrow> ws_canWrite local key n r c = (c', fx, e) \<Longrightarrow> defined e \<Longrightarrow> ws_step c WsHandler fx c'"
| can_read: "wread_active c \<Longrightarrow> ws_canRead a rcvd msgs c = (c', fx, e) \<Longrightarrow> defined e \<Longrightarrow> context_made a \<Longrightarrow>
    (wstate c = INPROGRESS \<Longrightarrow> rcvd = HttpError \<or> rcvd = HttpGot []) \<Longrightarrow>
    (wfd c < 0 \<Longrightarrow> rcvd = HttpError) \<Longrightarrow> ws_step c WsHandler fx c'"
| timer_fires: "wtimer_armed c \<Longrightarrow> ws_timer c = (c', fx, e) \<Longrightarrow> ws_step c WsHandler fx c'"

inductive ws_run :: "bytes list \<Rightarrow> ws_effect list \<Rightarrow> ws \<Rightarrow> bool" where
  outgoing: "ws_run [] [] (ws_init HTTP_CLIENT)"
| incoming: "0 \<le> fd \<Longrightarrow> ws_accept fd (ws_init HTTP_SERVER) = (c, [], None) \<Longrightarrow> ws_run [] [] c"
| next_event: "ws_run bs fx c \<Longrightarrow> ws_step c ev fx' c' \<Longrightarrow> ws_run (bs @ ws_queued ev) (fx @ fx') c'"

lemmas ws_handler_simps = ws_stopReadHandler_def ws_stopWriteHandler_def ws_startReadHandler_def ws_startWriteHandler_def
  ws_startTimer_def ws_stopTimer_def ws_init_watchers_def

definition ws_ok :: "ws \<Rightarrow> bool" where
  "ws_ok c \<longleftrightarrow>
     (0 \<le> wfd c \<longleftrightarrow> wstate c = INPROGRESS \<or> wstate c = ESTABLISHED) \<and> -1 \<le> wfd c \<and>
     (0 \<le> wfd c \<longrightarrow> wread_active c) \<and>
     (wstate c = INPROGRESS \<longrightarrow> wwrite_active c) \<and>
     (wstate c \<noteq> ESTABLISHED \<longrightarrow> wsstate c = HTTP_CLIENT \<and> headers c = []) \<and>
     (if wsstate c = WS then ctx c \<and> headers c = [] \<and> wqueue c = [] else \<not> ctx c)"

lemma flush_ok:
  "flushSendBuffer q r c = (c', fx, e) \<Longrightarrow> defined e \<Longrightarrow> ws_ok (c\<lparr>wqueue := []\<rparr>) \<Longrightarrow> ws_ok c'"
  by (auto simp: flushSendBuffer_def defined_def ws_ok_def ws_startWriteHandler_def Let_def split: if_splits)

lemma startWSMode_ok:
  assumes "startWSMode q r c = (c', fx, e)" and "defined e" and "ctx c" and "ws_ok (c\<lparr>ctx := False\<rparr>)"
    and "wstate c = ESTABLISHED" and "wsstate c \<noteq> WS"
  shows "ws_ok c'"
  using assms(1,2) unfolding startWSMode_def
  by (rule flush_ok) (use assms(3-6) in \<open>simp add: ws_ok_def\<close>)

lemma ws_up_ok:
  "ws_up fd p c = (c', fx, e) \<Longrightarrow> defined e \<Longrightarrow> -1 \<le> fd \<Longrightarrow> ws_ok c \<Longrightarrow> wstate c = IDLE \<Longrightarrow> ws_ok c'"
  by (auto simp: ws_up_def ws_ok_def ws_handler_simps defined_def Let_def split: if_splits)

lemma ws_send_ok:
  assumes "ws_send fd p q r b c = (c', fx, e)" and "defined e" and "-1 \<le> fd" and "ws_ok c"
  shows "ws_ok c'"
proof (cases "wstate c")
  case IDLE
  then have "ws_ok (c\<lparr>wqueue := wqueue c @ [b]\<rparr>)" using assms(4) by (simp add: ws_ok_def)
  then show ?thesis using IDLE assms(1-3) ws_up_ok by (simp add: ws_send_def)
next
  case ESTABLISHED
  have "ws_ok (c\<lparr>wqueue := wqueue c @ [b]\<rparr>\<lparr>wqueue := []\<rparr>)" using assms(4) by (auto simp: ws_ok_def)
  then show ?thesis using ESTABLISHED assms(1,2) flush_ok by (simp add: ws_send_def)
qed (use assms(1,4) in \<open>auto simp: ws_send_def ws_ok_def\<close>)

lemma ws_canWrite_ok: "ws_canWrite local key n r c = (c', fx, e) \<Longrightarrow> ws_ok c \<Longrightarrow> ws_ok c'"
  by (cases "wsstate c"; cases "wstate c = INPROGRESS")
     (auto simp: ws_canWrite_def httpClientSend_def ws_ok_def ws_stopWriteHandler_def Let_def split: if_splits)

lemma httpServerRcvd_ok:
  assumes "httpServerRcvd a rcvd c = (c', fx, e)" and "defined e" and "context_made a" and "ws_ok c"
    and "wsstate c = HTTP_SERVER"
  shows "ws_ok c'"
proof -
  have est: "wstate c = ESTABLISHED" using assms(4,5) by (auto simp: ws_ok_def)
  then have ok: "ws_ok (c\<lparr>headers := h\<rparr>)" for h using assms(4,5) by (simp add: ws_ok_def)
  have switched: "ws_ok c2" if "startWSMode q r (c\<lparr>headers := h, ctx := True\<rparr>) = (c2, fx2, e)" for q r h c2 fx2
    by (rule startWSMode_ok [OF that assms(2)])
       (use est assms(4,5) in \<open>simp_all add: ws_ok_def\<close>)
  show ?thesis using assms(1,3,4) ok
    by (auto simp: httpServerRcvd_def Let_def dest: switched split: http_recv.splits if_splits option.splits prod.splits)
qed


lemma nothing_found: "search (crlf @ crlf) [] = None"
  by (simp add: crlf_def)

lemma httpClientRcvd_ok:
  assumes "httpClientRcvd a rcvd c = (c', fx, e)" and "defined e" and "context_made a" and "ws_ok c"
    and "wsstate c = HTTP_CLIENT" and "wstate c \<noteq> ESTABLISHED \<Longrightarrow> rcvd = HttpError \<or> rcvd = HttpGot []"
  shows "ws_ok c'"
proof (cases "wstate c = ESTABLISHED")
  case True
  then have ok: "ws_ok (c\<lparr>headers := h\<rparr>)" for h using assms(4,5) by (simp add: ws_ok_def)
  have switched: "ws_ok c2" if "startWSMode q r (c\<lparr>headers := h, ctx := True\<rparr>) = (c2, fx2, e)" for q r h c2 fx2
    by (rule startWSMode_ok [OF that assms(2)])
       (use True assms(4,5) in \<open>simp_all add: ws_ok_def\<close>)
  show ?thesis using assms(1,3,4) ok
    by (auto simp: httpClientRcvd_def Let_def dest: switched split: http_recv.splits if_splits option.splits)
next
  case False
  then have "headers c = []" using assms(4) by (simp add: ws_ok_def)
  then have "c' = c \<or> c' = c\<lparr>headers := []\<rparr>"
    using assms(1,6) False nothing_found by (auto simp: httpClientRcvd_def Let_def)
  then show ?thesis using assms(4) by (auto simp: ws_ok_def)
qed

lemma ws_canRead_ok:
  assumes "ws_canRead a rcvd msgs c = (c', fx, e)" and "defined e" and "context_made a" and "ws_ok c"
    and "wstate c = INPROGRESS \<Longrightarrow> rcvd = HttpError \<or> rcvd = HttpGot []" and "wfd c < 0 \<Longrightarrow> rcvd = HttpError"
  shows "ws_ok c'"
proof -
  have "rcvd = HttpError \<or> rcvd = HttpGot []" if "wstate c \<noteq> ESTABLISHED"
    using that assms(4-6) by (auto simp: ws_ok_def linorder_not_less)
  then show ?thesis
    using assms httpServerRcvd_ok httpClientRcvd_ok by (cases "wsstate c") (auto simp: ws_canRead_def split: if_splits)
qed

lemma ws_timer_ok: "ws_timer c = (c', fx, e) \<Longrightarrow> ws_ok c \<Longrightarrow> ws_ok c'"
  by (auto simp: ws_timer_def ws_ok_def ws_stopReadHandler_def Let_def split: if_splits)

lemma ws_step_ok: "ws_step c ev fx c' \<Longrightarrow> ws_ok c \<Longrightarrow> ws_ok c'"
  by (cases rule: ws_step.cases) (auto intro: ws_send_ok ws_canWrite_ok ws_canRead_ok ws_timer_ok)

lemma ws_run_ok: "ws_run bs fx c \<Longrightarrow> ws_ok c"
proof (induction rule: ws_run.induct)
  case outgoing
  show ?case by (simp add: ws_ok_def ws_init_def)
next
  case (incoming fd c)
  then show ?case by (auto simp: ws_accept_def ws_init_def ws_ok_def ws_handler_simps Let_def)
next
  case (next_event bs fx c ev fx' c')
  then show ?case using ws_step_ok by blast
qed

text \<open>C39. In every state a connection can come to, there is a file descriptor and an active read handler
  exactly while it is being made or established, the write handler that begins the handshake is
  active while it is being made, wslay has its context exactly in WebSocket mode, and in that
  mode neither a message nor a header waits.\<close>

theorem websocket_states:
  assumes "ws_run bs fx c"
  shows "(0 \<le> wfd c \<longleftrightarrow> wstate c = INPROGRESS \<or> wstate c = ESTABLISHED) \<and>
    (0 \<le> wfd c \<longrightarrow> wread_active c) \<and> (wstate c = INPROGRESS \<longrightarrow> wwrite_active c) \<and>
    (ctx c \<longleftrightarrow> wsstate c = WS) \<and> (wsstate c = WS \<longrightarrow> headers c = [] \<and> wqueue c = [])"
  using ws_run_ok [OF assms] by (auto simp: ws_ok_def split: if_splits)

text \<open>While the handshake goes on the connection counts as established, and a message sent then is
  given to wslay although its context has not been made.\<close>

theorem send_during_handshake:
  assumes "ws_run bs fx c" and "wstate c = ESTABLISHED" and "wsstate c \<noteq> WS"
  shows "snd (snd (ws_send fd in_progress q r b c)) = Some Uninitialised"
  using ws_run_ok [OF assms(1)] assms(2,3) by (simp add: ws_send_def flushSendBuffer_def ws_ok_def)

section \<open>Messages\<close>

text \<open>What has been handed to wslay, whether it was taken or not.\<close>

fun handed :: "ws_effect list \<Rightarrow> bytes list" where
  "handed [] = []"
| "handed (Queued b # fx) = b # handed fx"
| "handed (Refused b # fx) = b # handed fx"
| "handed (_ # fx) = handed fx"

lemma handed_append [simp]: "handed (fx @ fx') = handed fx @ handed fx'"
  by (induction fx rule: handed.induct) simp_all

lemma handed_queue: "handed (map (\<lambda>(i, b). if q i = 0 then Queued b else Refused b) (enumerate n bs)) = bs"
  by (induction bs arbitrary: n) simp_all

lemma handed_http [simp]: "handed (http_sent n txt') = []"
  by (simp add: http_sent_def)

lemma handed_delivered [simp]: "handed (concat (map wslay_msg_rcv_callback msgs)) = []"
proof (induction msgs)
  case (Cons m msgs)
  then show ?case by (cases m) simp_all
qed simp

lemma flush_handed: "flushSendBuffer q r c = (c', fx, e) \<Longrightarrow> handed fx @ wqueue c' = wqueue c"
  by (auto simp: flushSendBuffer_def handed_queue ws_startWriteHandler_def Let_def split: if_splits)

lemma startWSMode_handed: "startWSMode q r c = (c', fx, e) \<Longrightarrow> handed fx @ wqueue c' = wqueue c"
  using flush_handed by (fastforce simp: startWSMode_def)

lemma ws_send_handed: "ws_send fd p q r b c = (c', fx, e) \<Longrightarrow> handed fx @ wqueue c' = wqueue c @ [b]"
  by (cases "wstate c")
     (auto simp: ws_send_def ws_up_def ws_handler_simps Let_def dest: flush_handed split: if_splits option.splits)

lemma ws_canWrite_handed: "ws_canWrite local key n r c = (c', fx, e) \<Longrightarrow> handed fx @ wqueue c' = wqueue c"
  by (cases "wsstate c")
     (auto simp: ws_canWrite_def httpClientSend_def ws_handler_simps Let_def split: if_splits)

lemma ws_canRead_handed: "ws_canRead a rcvd msgs c = (c', fx, e) \<Longrightarrow> handed fx @ wqueue c' = wqueue c"
  by (cases "wsstate c"; cases rcvd)
     (auto simp: ws_canRead_def httpServerRcvd_def httpClientRcvd_def Let_def dest!: startWSMode_handed
        split: if_splits option.splits prod.splits)

lemma ws_step_handed: "ws_step c ev fx c' \<Longrightarrow> handed fx @ wqueue c' = wqueue c @ ws_queued ev"
  by (cases rule: ws_step.cases)
     (auto simp: ws_timer_def ws_handler_simps Let_def dest: ws_send_handed ws_canWrite_handed ws_canRead_handed split: if_splits)

text \<open>Over the whole life of a connection the messages handed to wslay and those still queued are the
  messages sent, each once and in order, also those sent before the handshake has begun.\<close>

theorem websocket_messages_in_order:
  assumes "ws_run bs fx c"
  shows "handed fx @ wqueue c = bs"
  using assms
proof (induction rule: ws_run.induct)
  case (incoming fd c)
  then show ?case by (auto simp: ws_accept_def ws_init_def ws_handler_simps Let_def)
next
  case (next_event bs fx c ev fx' c')
  then show ?case using ws_step_handed [OF next_event(2)] by (metis append.assoc handed_append)
qed (simp add: ws_init_def)


section \<open>What comes after the handshake\<close>

lemma search_appended:
  assumes "search pat s = Some i"
  shows "search pat (s @ t) = Some i"
proof -
  have o: "occurs_at pat s i" "\<And>j. j < i \<Longrightarrow> \<not> occurs_at pat s j" using assms by (simp_all add: search_Some)
  have "\<not> occurs_at pat (s @ t) j" if "j < i" for j
  proof
    assume a: "occurs_at pat (s @ t) j"
    have "j + length pat \<le> length s" using occurs_inside [OF o(1)] that by simp
    then have "occurs_at pat s j" using a by (simp add: occurs_at_def)
    then show False using o(2) [OF that] by simp
  qed
  then show ?thesis using occurs_appended [OF o(1)] by (simp add: search_Some)
qed

text \<open>What the server sends right behind its reply, so that the client reads both at once, is thrown
  away: the client does the same as without it.\<close>

theorem frames_behind_reply_lost:
  assumes "13 \<notin> set (create_acceptkey a (client_key c))" and "wsstate c = HTTP_CLIENT" and "headers c = []"
    and "length (http_reply (create_acceptkey a (client_key c)) @ rest) \<le> 8192"
  shows "ws_canRead a (HttpGot (http_reply (create_acceptkey a (client_key c)) @ rest)) msgs c =
    ws_canRead a (HttpGot (http_reply (create_acceptkey a (client_key c)))) msgs c"
proof -
  let ?key = "create_acceptkey a (client_key c)"
  let ?before = "concat (map (\<lambda>l. l @ crlf) reply_lines)"
  let ?pat = "lit ''Sec-WebSocket-Accept: ''"
  have eq: "http_reply ?key = ?before @ ?pat @ ?key @ crlf @ crlf" by (simp add: http_reply_text http_text_def)
  have len: "length ?pat = 22" by simp
  have k: "search ?pat (http_reply ?key) = Some (length ?before)"
    unfolding http_reply_text by (rule http_text_header) (simp_all add: reply_lines_def)
  have val: "header_value (http_reply ?key @ xs) (length ?before + 22) = ?key" for xs
    by (rule header_value_eq [of _ _ _ "crlf @ xs"]) (use len assms(1) in \<open>simp_all add: eq del: lit_simps\<close>)
  from search_appended [OF k] search_appended [OF reply_end [OF assms(1)]] k reply_end [OF assms(1)]
    val [of rest] val [of "[]"] assms(2-4)
  show ?thesis by (simp add: ws_canRead_def httpClientRcvd_def startWSMode_def del: lit_simps)
qed

section \<open>Witnesses\<close>

text \<open>In place of the library: the low halves of the octets as digits, the first twenty octets as digest.\<close>

definition sample_base64 :: "bytes \<Rightarrow> bytes" where
  "sample_base64 bs = map (\<lambda>b. hex_digit (unat b mod 16)) bs"

definition sample_accept :: bytes where
  "sample_accept = sample_base64 (take 20 (sample_base64 [1, 2, 3, 4, 5, 6, 7, 8, 9, 10, 11, 12, 13, 14, 15, 16] @ lit ''258EAFA5-E914-47DA-95CA-C5AB0DC85B11''))"

definition sample_handshake :: handshake where
  "sample_handshake = \<lparr>sha1 = take 20, base64 = sample_base64, reply_sent = int (length (http_reply sample_accept)),
     context_made = True, queue_answer = (\<lambda>_. 0), send_answer = 0\<rparr>"

definition sample_listen :: HostAndPort where
  "sample_listen = \<lparr>host = lit ''backend'', port = 2809\<rparr>"

definition sample_key :: bytes where
  "sample_key = create_clientkey sample_handshake [1, 2, 3, 4, 5, 6, 7, 8, 9, 10, 11, 12, 13, 14, 15, 16]"

text \<open>A client with a message to send, which has begun to connect.\<close>

definition sample_client :: ws where
  "sample_client = fst (ws_send 7 True (\<lambda>_. 0) 0 [1, 2] (ws_init HTTP_CLIENT))"

definition sample_asked :: ws where
  "sample_asked = fst (ws_canWrite sample_listen sample_key (int (length (http_request sample_listen sample_key))) 0 sample_client)"

lemma sample_client_simps: "wsstate sample_client = HTTP_CLIENT" "wstate sample_client = INPROGRESS" "headers sample_client = []"
    "wqueue sample_client = [[1, 2]]" "wwrite_active sample_client"
    "ws_send 7 True (\<lambda>_. 0) 0 [1, 2] (ws_init HTTP_CLIENT) = (sample_client, [], None)"
  by (simp_all add: sample_client_def ws_send_def ws_init_def ws_up_def ws_handler_simps Let_def)

lemma sample_asked_eq:
  "ws_canWrite sample_listen sample_key (int (length (http_request sample_listen sample_key))) 0 sample_client =
     (sample_asked, [HttpSent (http_request sample_listen sample_key)], None)"
  by (simp add: sample_asked_def ws_canWrite_def httpClientSend_def http_sent_def sample_client_simps Let_def
      ws_stopWriteHandler_def)

lemma sample_plain: "plain_host sample_listen" "13 \<notin> set (base64 sample_handshake bs)" "13 \<notin> set (create_acceptkey sample_handshake key)"
  "13 \<notin> set sample_key" "create_acceptkey sample_handshake sample_key = sample_accept"
proof -
  have "hex_digit (unat b mod 16) \<noteq> 13" for b :: byte using unat_hex_digit [of "unat b mod 16"] by (auto split: if_splits)
  then have "13 \<notin> set (sample_base64 bs)" for bs by (auto simp: sample_base64_def)
  then show "13 \<notin> set (base64 sample_handshake bs)" "13 \<notin> set (create_acceptkey sample_handshake key)" "13 \<notin> set sample_key"
    by (simp_all add: create_acceptkey_def create_clientkey_def sample_key_def sample_handshake_def del: lit_simps)
  show "create_acceptkey sample_handshake sample_key = sample_accept"
    by (simp add: create_acceptkey_def create_clientkey_def sample_key_def sample_handshake_def sample_accept_def del: lit_simps)
qed (simp add: plain_host_def sample_listen_def)

lemma sample_run: "ws_run [[1, 2]] [] sample_client" "ws_run [[1, 2]] [HttpSent (http_request sample_listen sample_key)] sample_asked"
proof -
  from next_event [OF outgoing ws_step.send [OF sample_client_simps(6)]]
  show 1: "ws_run [[1, 2]] [] sample_client" by (simp add: defined_def)
  from next_event [OF 1 can_write [OF sample_client_simps(5) sample_asked_eq]]
  show "ws_run [[1, 2]] [HttpSent (http_request sample_listen sample_key)] sample_asked" by (simp add: defined_def)
qed

lemma handshake_completes_witness:
  "wsstate (fst (http_reads sample_handshake [http_reply sample_accept] sample_asked)) = WS"
proof -
  let ?s = "fst (ws_accept 7 (ws_init HTTP_SERVER))"
  let ?req = "http_request sample_listen sample_key" and ?rep = "http_reply sample_accept"
  have s: "wsstate ?s = HTTP_SERVER" "headers ?s = []" "wqueue ?s = []"
    by (simp_all add: ws_accept_def ws_init_def ws_handler_simps Let_def)
  have short: "pieces [?req]" "pieces [?rep]"
    by (simp_all add: pieces_def http_request_def http_reply_def sample_listen_def sample_key_def sample_accept_def
        create_clientkey_def sample_handshake_def sample_base64_def crlf_def show_decimal.simps)
  obtain s1 fx2 e2 where r: "http_reads sample_handshake [?req] ?s = (s1, fx2, e2)" by (metis prod_cases3)
  have "fx2 = [HttpSent ?rep]"
    using server_switches [OF sample_plain(1,4) s _ short(1), of sample_handshake] r
    by (simp add: http_sent_def sample_plain(5) sample_handshake_def [THEN arg_cong [of _ _ reply_sent]])
  then have replies: "concat [?rep] = http_octets fx2" by simp
  obtain c2 fx3 e3 where c: "http_reads sample_handshake [?rep] sample_asked = (c2, fx3, e3)" by (metis prod_cases3)
  from handshake_completes [OF sample_plain(1,2) refl refl sample_client_simps(1-3) s _ _ _ sample_key_def sample_asked_eq _ short(1) r
      _ replies short(2) c]
  have "wsstate c2 = WS" by (simp add: sample_plain(5)) (simp add: sample_handshake_def)
  then show ?thesis by (simp only: c fst_conv)
qed


lemma sample_asked_simps: "wsstate sample_asked = HTTP_CLIENT" "wstate sample_asked = ESTABLISHED"
  by (simp_all add: sample_asked_def ws_canWrite_def httpClientSend_def sample_client_simps Let_def ws_stopWriteHandler_def)

lemma websocket_states_witness: "wsstate sample_asked = HTTP_CLIENT \<and> \<not> ctx sample_asked \<and> 0 \<le> wfd sample_asked \<and> wread_active sample_asked"
  using websocket_states [OF sample_run(2)] sample_asked_simps by simp

lemma send_during_handshake_witness:
  "snd (snd (ws_send 0 False (\<lambda>_. 0) 0 [3] sample_asked)) = Some Uninitialised"
  by (rule send_during_handshake [OF sample_run(2)]) (simp_all add: sample_asked_simps)

lemma websocket_messages_in_order_witness:
  "handed [HttpSent (http_request sample_listen sample_key)] @ wqueue sample_asked = [[1, 2]]"
  by (rule websocket_messages_in_order [OF sample_run(2)])

lemma frames_behind_reply_lost_witness:
  "ws_canRead sample_handshake (HttpGot (http_reply (create_acceptkey sample_handshake (client_key (ws_init HTTP_CLIENT))) @ [0x82, 1, 7]))
     [] (ws_init HTTP_CLIENT) =
   ws_canRead sample_handshake (HttpGot (http_reply (create_acceptkey sample_handshake (client_key (ws_init HTTP_CLIENT))))) []
     (ws_init HTTP_CLIENT)"
  by (rule frames_behind_reply_lost [OF sample_plain(3)])
     (simp_all add: sample_plain(3) ws_init_def http_reply_def crlf_def create_acceptkey_def sample_handshake_def sample_base64_def)

end
