(* ===== verification/Lifetimes.thy ===== *)
theory Lifetimes
  imports Handlers TCP_Properties WS_Properties "HOL-Library.Multiset"
begin

text \<open>
  What connections hold and give back: file descriptors, the watchers of the event loop, the calls
  that wait. The destructors (src/corba/net/tcp/connection.cc, src/corba/net/ws/connection.cc), and
  over whole lives that every descriptor opened is closed exactly once.
\<close>

section \<open>TCP connections\<close>

text \<open>The watchers that are active afterwards stay with the event loop, which still calls them.\<close>

definition tcp_destroy :: "tcp \<Rightarrow> tcp \<times> tcp_effect list" where
  "tcp_destroy c =
     (let c1 = stopTimer c in
      if tfd c1 \<noteq> -1
      then (let c2 = stopWriteHandler c1; c3 = stopReadHandler c2 in (c3, [Closed (tfd c3)]))
      else (c1, []))"

text \<open>\<open>connected r c\<close>: the descriptor \<open>connect_to\<close> opens, if \<open>send\<close> comes to call it.\<close>

definition connected :: "int \<Rightarrow> tcp \<Rightarrow> int list" where
  "connected r c = (if tstate c = IDLE \<and> tfd c < 0 \<and> 0 \<le> r then [r] else [])"

fun closed :: "tcp_effect list \<Rightarrow> int multiset" where
  "closed [] = {#}"
| "closed (Closed fd # fx) = (if 0 \<le> fd then {#fd#} else {#}) + closed fx"
| "closed (_ # fx) = closed fx"

definition held :: "tcp \<Rightarrow> int multiset" where
  "held c = (if 0 \<le> tfd c then {#tfd c#} else {#})"

text \<open>A connection from its constructor on: the descriptors opened for it and its effects.\<close>

inductive tcp_life :: "host \<Rightarrow> nat \<Rightarrow> int list \<Rightarrow> tcp_effect list \<Rightarrow> tcp \<Rightarrow> bool" for h rbs where
  outgoing: "tcp_life h rbs [] [] (tcp_init rbs)"
| incoming: "0 \<le> fd \<Longrightarrow> tcp_accept fd (tcp_init rbs) = (c, None) \<Longrightarrow> tcp_life h rbs [fd] [] c"
| sends: "tcp_life h rbs os fx c \<Longrightarrow> tcp_send r in_progress b c = (c', e) \<Longrightarrow> e \<noteq> Some LibraryMisuse \<Longrightarrow> -1 \<le> r \<Longrightarrow>
    tcp_life h rbs (os @ connected r c) fx c'"
| handles: "tcp_life h rbs os fx c \<Longrightarrow> tcp_step h c Handler fx' c' \<Longrightarrow> tcp_life h rbs os (fx @ fx') c'"

lemma closed_append [simp]: "closed (fx @ fx') = closed fx + closed fx'"
  by (induction fx rule: closed.induct) simp_all

lemma closed_received [simp]: "closed (map Received ms) = {#}"
  by (induction ms) simp_all

lemma held_same: "tfd c' = tfd c \<Longrightarrow> held c' = held c"
  by (simp add: held_def)

lemma tcp_send_held:
  assumes "tcp_send r in_progress b c = (c', e)" and "e \<noteq> Some LibraryMisuse"
  shows "held c' = held c + mset (connected r c)"
  using assms
  by (cases "tstate c") (auto simp: tcp_send_def up_def held_def connected_def handler_simps Let_def
      split: if_splits)

lemma write_loop_held: "write_loop rs c = (c', fx, out) \<Longrightarrow> held c = held c' + closed fx"
  by (induction rule: write_loop_turns) (auto simp: held_def close_fd_def split: if_splits)

lemma canWrite_held: "canWrite p rs c = (c', fx) \<Longrightarrow> held c = held c' + closed fx"
proof -
  assume w: "canWrite p rs c = (c', fx)"
  obtain c2 fx2 out where loop: "write_loop rs (stopWriteHandler c) = (c2, fx2, out)" by (metis prod_cases3)
  have "held (stopWriteHandler c) = held c" "held (startWriteHandler c2) = held c2" by (simp_all add: handler_simps held_def)
  then show ?thesis using w write_loop_held [OF loop] loop
    by (auto simp: canWrite_def Let_def split: if_splits) (auto simp: held_def handler_simps)
qed

lemma canRead_held: "canRead h fresh r c = (c', fx, e) \<Longrightarrow> held c = held c' + closed fx"
  by (auto simp: canRead_def held_def handler_simps Let_def split: recv_result.splits if_splits prod.splits)

lemma timer_held: "timer c = (c', fx) \<Longrightarrow> held c = held c' + closed fx"
  by (auto simp: timer_def held_def handler_simps Let_def split: if_splits)

lemma handler_held: "tcp_step h c Handler fx c' \<Longrightarrow> held c = held c' + closed fx"
  by (cases rule: tcp_step.cases) (auto dest: canWrite_held canRead_held timer_held)

lemma tcp_life_held: "tcp_life h rbs os fx c \<Longrightarrow> mset os = closed fx + held c"
proof (induction rule: tcp_life.induct)
  case outgoing
  show ?case by (simp add: held_def tcp_init_def)
next
  case (incoming fd c)
  then show ?case by (auto simp: held_def tcp_accept_def tcp_init_def handler_simps Let_def)
next
  case (sends os fx c r in_progress b c' e)
  from tcp_send_held [OF sends.hyps(2,3)] sends.IH show ?case by simp
next
  case (handles os fx c fx' c')
  from handler_held [OF handles.hyps(2)] handles.IH show ?case by simp
qed

lemma destroy_held: "held (fst (tcp_destroy c)) = held c" "-1 \<le> tfd c \<Longrightarrow> closed (snd (tcp_destroy c)) = held c"
  by (auto simp: tcp_destroy_def held_def handler_simps Let_def)

lemma tcp_life_ok: "tcp_life h rbs os fx c \<Longrightarrow> state_ok c"
proof (induction rule: tcp_life.induct)
  case (sends os fx c r in_progress b c' e)
  then show ?case using tcp_step_ok [OF tcp_step.send] by blast
qed (auto intro: state_ok_init tcp_step_ok)

text \<open>C21. No descriptor is lost and none is closed twice: over the whole life of a TCP connection, with any
  number of broken connections and new ones, the descriptors opened for it are those it has
  closed and the one it holds, and when its destructor has run all of them are closed, each once.\<close>

theorem descriptors_balanced:
  assumes "tcp_life h rbs os fx c"
  shows "mset os = closed fx + held c \<and> mset os = closed (fx @ snd (tcp_destroy c))"
proof -
  have "-1 \<le> tfd c" using tcp_life_ok [OF assms] by (simp add: state_ok_def)
  then show ?thesis using tcp_life_held [OF assms] destroy_held(2) by simp
qed
section \<open>Watchers that outlive their connection\<close>

text \<open>The destructor stops the timer always, and the watchers only while there is a descriptor: exactly a
  connection that has lost its descriptor with a watcher active leaves that watcher to the event loop.\<close>

theorem destructor_releases:
  assumes "tcp_life h rbs os fx c"
  shows "\<not> timer_armed (fst (tcp_destroy c)) \<and>
    (read_active (fst (tcp_destroy c)) \<or> write_active (fst (tcp_destroy c))) =
    (tstate c \<in> {IDLE, PENDING} \<and> (read_active c \<or> write_active c))"
proof -
  have ok: "state_ok c" by (rule tcp_life_ok [OF assms])
  then have fd: "tfd c = -1 \<or> 0 \<le> tfd c" by (auto simp: state_ok_def)
  show ?thesis using ok fd by (cases "tstate c") (auto simp: state_ok_def tcp_destroy_def handler_simps Let_def)
qed

text \<open>When an established connection breaks while it is written (EPIPE), its read watcher stays active, also
  when the connection object is then destroyed: the event loop goes on to call it in memory
  that has been freed.\<close>

theorem watcher_outlives_connection:
  assumes "tcp_life h rbs os fx c" and "tstate c = ESTABLISHED" and "sendBuffer c \<noteq> []" and "write_active c"
  shows "\<exists>c'. tcp_life h rbs os (fx @ [Closed (tfd c)]) c' \<and> tfd c' = -1 \<and>
    tcp_destroy c' = (stopTimer c', []) \<and> read_active (stopTimer c')"
proof -
  let ?w = "canWrite True [EPIPE] c"
  have "read_active c" using tcp_life_ok [OF assms(1)] assms(2) by (simp add: state_ok_def)
  then have w: "?w = (fst ?w, [Closed (tfd c)])" "tfd (fst ?w) = -1" "read_active (fst ?w)"
    using assms(2,3) by (auto simp: canWrite_def write_loop_simps handler_simps Let_def neq_Nil_conv)
  from tcp_life.handles [OF assms(1) tcp_step.can_write [OF assms(4) w(1)]] w(2,3) show ?thesis
    by (intro exI [of _ "fst ?w"]) (simp add: tcp_destroy_def handler_simps)
qed

section \<open>WebSocket connections\<close>

definition ws_destroy :: "ws \<Rightarrow> ws \<times> ws_effect list" where
  "ws_destroy c =
     (let c1 = ws_stopTimer c in
      if wfd c1 \<noteq> -1
      then (let c2 = ws_stopWriteHandler c1; c3 = ws_stopReadHandler c2 in (c3, [WsClosed (wfd c3)]))
      else (c1, []))"

definition ws_connected :: "int \<Rightarrow> ws \<Rightarrow> int list" where
  "ws_connected r c = (if wstate c = IDLE \<and> wfd c < 0 \<and> 0 \<le> r then [r] else [])"

fun ws_closed :: "ws_effect list \<Rightarrow> int multiset" where
  "ws_closed [] = {#}"
| "ws_closed (WsClosed fd # fx) = (if 0 \<le> fd then {#fd#} else {#}) + ws_closed fx"
| "ws_closed (_ # fx) = ws_closed fx"

definition ws_held :: "ws \<Rightarrow> int multiset" where
  "ws_held c = (if 0 \<le> wfd c then {#wfd c#} else {#})"

inductive ws_life :: "int list \<Rightarrow> ws_effect list \<Rightarrow> ws \<Rightarrow> bool" where
  outgoing: "ws_life [] [] ws_connectOutgoing"
| incoming: "0 \<le> fd \<Longrightarrow> ws_connectIncoming fd = (c, [], None) \<Longrightarrow> ws_life [fd] [] c"
| sends: "ws_life os fx c \<Longrightarrow> ws_send r in_progress q n b c = (c', fx', e) \<Longrightarrow> defined e \<Longrightarrow> -1 \<le> r \<Longrightarrow>
    ws_life (os @ ws_connected r c) (fx @ fx') c'"
| handles: "ws_life os fx c \<Longrightarrow> ws_step c WsHandler fx' c' \<Longrightarrow> ws_life os (fx @ fx') c'"

lemma ws_closed_append [simp]: "ws_closed (fx @ fx') = ws_closed fx + ws_closed fx'"
  by (induction fx rule: ws_closed.induct) simp_all

lemma ws_closed_simps [simp]:
  "ws_closed (map (\<lambda>(i, b). if q i = 0 then Queued b else Refused b) (enumerate n bs)) = {#}"
  "ws_closed (http_sent k txt') = {#}" "ws_closed (concat (map wslay_msg_rcv_callback msgs)) = {#}"
proof -
  show "ws_closed (map (\<lambda>(i, b). if q i = 0 then Queued b else Refused b) (enumerate n bs)) = {#}"
    by (induction bs arbitrary: n) simp_all
  show "ws_closed (http_sent k txt') = {#}" by (simp add: http_sent_def)
  show "ws_closed (concat (map wslay_msg_rcv_callback msgs)) = {#}"
  proof (induction msgs)
    case (Cons m msgs)
    then show ?case by (cases m) simp_all
  qed simp
qed

lemma flush_held: "flushSendBuffer q r c = (c', fx, e) \<Longrightarrow> wfd c' = wfd c \<and> ws_closed fx = {#}"
  by (auto simp: flushSendBuffer_def ws_handler_simps Let_def split: if_splits)

lemma startWSMode_held: "startWSMode q r c = (c', fx, e) \<Longrightarrow> wfd c' = wfd c \<and> ws_closed fx = {#}"
  unfolding startWSMode_def by (auto dest: flush_held)

lemma ws_send_held:
  assumes "ws_send r p q n b c = (c', fx, e)" and "defined e"
  shows "ws_held c' + ws_closed fx = ws_held c + mset (ws_connected r c)"
  using assms
  by (cases "wstate c") (auto simp: ws_send_def ws_up_def ws_held_def ws_connected_def ws_handler_simps defined_def Let_def
      split: if_splits dest!: flush_held)

lemma ws_canRead_held: "ws_canRead a rcvd msgs c = (c', fx, e) \<Longrightarrow> wfd c' = wfd c \<and> ws_closed fx = {#}"
  by (cases "wsstate c")
    (auto simp: ws_canRead_def httpServerRcvd_def httpClientRcvd_def Let_def
      split: http_recv.splits option.splits if_splits prod.splits dest!: startWSMode_held)

lemma ws_handler_held: "ws_step c WsHandler fx c' \<Longrightarrow> ws_held c' + ws_closed fx = ws_held c"
  by (cases rule: ws_step.cases)
    (auto simp: ws_held_def ws_canWrite_def httpClientSend_def ws_timer_def ws_handler_simps Let_def
      split: WsConnectionState.splits if_splits dest!: ws_canRead_held)

lemma ws_life_ok: "ws_life os fx c \<Longrightarrow> ws_ok c"
proof (induction rule: ws_life.induct)
  case outgoing
  show ?case unfolding ws_connectOutgoing_def by (rule ws_run_ok [OF ws_run.outgoing])
next
  case (incoming fd c)
  from ws_run_ok [OF ws_run.incoming [OF this [unfolded ws_connectIncoming_def]]] show ?case .
qed (blast intro: ws_send_ok ws_step_ok)+

lemma ws_life_held: "ws_life os fx c \<Longrightarrow> mset os = ws_closed fx + ws_held c"
proof (induction rule: ws_life.induct)
  case outgoing
  show ?case by (simp add: ws_held_def ws_connectOutgoing_def ws_init_def)
next
  case (incoming fd c)
  then show ?case by (auto simp: ws_held_def ws_connectIncoming_def ws_accept_def ws_init_def ws_handler_simps Let_def)
next
  case (sends os fx c r in_progress q n b c' fx' e)
  from ws_send_held [OF sends.hyps(2,3)] sends.IH show ?case by (simp add: ac_simps)
next
  case (handles os fx c fx' c')
  from ws_handler_held [OF handles.hyps(2)] handles.IH show ?case by (simp add: ac_simps)
qed

text \<open>The same of a WebSocket connection: the descriptors opened are those it has closed and the one it
  holds, and its destructor closes that one.\<close>

theorem websocket_descriptors_balanced:
  assumes "ws_life os fx c"
  shows "mset os = ws_closed fx + ws_held c \<and> mset os = ws_closed (fx @ snd (ws_destroy c))"
proof -
  have "-1 \<le> wfd c" using ws_life_ok [OF assms] by (simp add: ws_ok_def)
  then have "ws_closed (snd (ws_destroy c)) = ws_held c"
    by (auto simp: ws_destroy_def ws_held_def ws_handler_simps Let_def)
  then show ?thesis using ws_life_held [OF assms] by simp
qed

section \<open>Connections that are never made\<close>

text \<open>The application goes on to send and the event loop to call handlers.\<close>

inductive tcp_goes :: "host \<Rightarrow> tcp \<Rightarrow> bytes list \<Rightarrow> tcp_effect list \<Rightarrow> tcp \<Rightarrow> bool" for h c where
  stays: "tcp_goes h c [] [] c"
| goes: "tcp_goes h c bs fx c1 \<Longrightarrow> tcp_step h c1 ev fx' c' \<Longrightarrow> tcp_goes h c (bs @ queued ev) (fx @ fx') c'"

lemma pending_stays:
  assumes "tcp_goes h c bs fx c'" and "tstate c = PENDING" and "\<not> read_active c" and "\<not> write_active c" and "\<not> timer_armed c"
  shows "c' = c\<lparr>sendBuffer := sendBuffer c @ bs\<rparr> \<and> fx = []"
  using assms(1)
proof (induction rule: tcp_goes.induct)
  case (goes bs fx c1 ev fx' c')
  from goes.hyps(2) show ?case
    by (cases rule: tcp_step.cases) (use goes.IH assms(2-5) in \<open>auto simp: tcp_send_def\<close>)
qed simp

text \<open>C29. A connection whose first attempt to connect fails at once is never made: the first call throws, its
  message and all that are sent later stay in the queue, nothing is tried again, no call that waits is
  resumed, and every later call waits without an error being reported.\<close>

theorem failed_connect_stalls:
  assumes "tcp_send r in_progress b (tcp_init rbs) = (c, e)" and "r < 0" and "tcp_goes h c bs fx c'"
  shows "e = Some (RuntimeError ''TcpConnection()::up(): {}: {}'') \<and> sendBuffer c' = b # bs \<and> tstate c' = PENDING \<and> fx = [] \<and>
    (twowayCall h' st operation encode = Inr (rid, msg, conn) \<longrightarrow>
       start_twoway h' hs addr st operation encode (tcp_throws r' in_progress' c') = (WaitsFor rid conn, []))"
proof -
  have c: "tstate c = PENDING" "\<not> read_active c" "\<not> write_active c" "\<not> timer_armed c" "sendBuffer c = [b]"
    "e = Some (RuntimeError ''TcpConnection()::up(): {}: {}'')"
    using assms(1,2) by (auto simp: tcp_send_def up_def tcp_init_def Let_def)
  from pending_stays [OF assms(3) c(1-4)] c(1,5,6) show ?thesis by (simp add: handlers_run tcp_throws_def tcp_send_def)
qed

section \<open>Witnesses\<close>

definition accepted_tcp :: tcp where
  "accepted_tcp = fst (tcp_accept 7 (tcp_init 100))"

definition busy_tcp :: tcp where
  "busy_tcp = fst (tcp_send 0 False [1, 2] accepted_tcp)"

lemma busy_tcp_life: "tcp_life h 100 [7] [] busy_tcp"
proof -
  have "tcp_life h 100 [7] [] accepted_tcp"
    by (rule tcp_life.incoming) (simp_all add: accepted_tcp_def tcp_accept_def tcp_init_def handler_simps Let_def)
  from tcp_life.sends [OF this, of 0 False "[1, 2]" busy_tcp None] show ?thesis
    by (simp add: busy_tcp_def accepted_tcp_def connected_def tcp_send_def tcp_accept_def tcp_init_def handler_simps Let_def)
qed

lemma busy_tcp_simps: "tstate busy_tcp = ESTABLISHED" "sendBuffer busy_tcp = [[1, 2]]" "write_active busy_tcp" "tfd busy_tcp = 7"
  by (simp_all add: busy_tcp_def accepted_tcp_def tcp_send_def tcp_accept_def tcp_init_def handler_simps Let_def)

lemma descriptors_balanced_witness: "mset [7] = closed [] + held busy_tcp \<and> mset [7] = closed ([] @ snd (tcp_destroy busy_tcp))"
  by (rule descriptors_balanced [OF busy_tcp_life [of LE]])

lemma destructor_releases_witness: "\<not> read_active (fst (tcp_destroy busy_tcp)) \<and> \<not> write_active (fst (tcp_destroy busy_tcp))"
  using destructor_releases [OF busy_tcp_life [of LE]] by (simp add: busy_tcp_simps)

lemma watcher_outlives_connection_witness:
  "\<exists>c'. tcp_life LE 100 [7] [Closed 7] c' \<and> tfd c' = -1 \<and> tcp_destroy c' = (stopTimer c', []) \<and> read_active (stopTimer c')"
  using watcher_outlives_connection [OF busy_tcp_life [of LE]] by (simp add: busy_tcp_simps)

lemma websocket_descriptors_balanced_witness:
  "mset [7] = ws_closed [] + ws_held (fst (ws_accept 7 (ws_init HTTP_SERVER)))"
proof -
  have "ws_life [7] [] (fst (ws_accept 7 (ws_init HTTP_SERVER)))"
    by (rule ws_life.incoming) (simp_all add: ws_connectIncoming_def ws_accept_def ws_init_def ws_handler_simps Let_def)
  from websocket_descriptors_balanced [OF this] show ?thesis by simp
qed

lemma failed_connect_stalls_witness:
  "\<exists>c c'. tcp_goes LE c [[2]] [] c' \<and> sendBuffer c' = [[1], [2]] \<and> tstate c' = PENDING"
proof -
  let ?c = "fst (tcp_send (-1) False [1] (tcp_init 100))" and ?e = "snd (tcp_send (-1) False [1] (tcp_init 100))"
  have "tcp_step LE ?c (Queue [2]) [] (fst (tcp_send (-1) False [2] ?c))"
    by (rule tcp_step.send [where e = "snd (tcp_send (-1) False [2] ?c)" and r = "-1" and in_progress = False])
      (simp_all add: tcp_send_def tcp_init_def up_def Let_def)
  from tcp_goes.goes [OF tcp_goes.stays this] have run: "tcp_goes LE ?c [[2]] [] (fst (tcp_send (-1) False [2] ?c))" by simp
  from failed_connect_stalls [OF _ _ this, of "-1" False "[1]" 100 ?e] run show ?thesis by (simp add: prod_eq_iff) blast
qed

end
