(* ===== verification/TCP_Link.thy ===== *)
theory TCP_Link
  imports TCP_Properties
begin

text \<open>
  Two TCP connections and the octets between them, in both directions: whatever the order in
  which the event loops call the handlers and whatever the sizes of the pieces, the messages one
  end sends are the messages the ORB of the other end gets.
\<close>

section \<open>Reading\<close>

fun received :: "tcp_effect list \<Rightarrow> bytes list" where
  "received [] = []"
| "received (Received m # fx) = m # received fx"
| "received (_ # fx) = received fx"

lemma received_map [simp]: "received (map Received ms) = ms"
  by (induction ms) simp_all

lemma canRead_stream:
  assumes "canRead h fresh (Got got) c = (c', fx, e)" and "s2p_ok h (tstream c)" and "quiet h (tstream c)"
    and "length got \<le> s2p_length (s2p_buffer fresh (tstream c))"
  shows "frames h (pending (tstream c) @ got) = (received fx, pending (tstream c'), e) \<and> s2p_ok h (tstream c')"
proof -
  let ?s1 = "s2p_buffer fresh (tstream c)"
  let ?s2 = "?s1\<lparr>sdata := overwrite (ssize ?s1) got (sdata ?s1)\<rparr>"
  have read: "s2p_read fresh (length got) got (tstream c) = (s2p_received (length got) ?s2, [])"
    using assms(4) by (simp add: s2p_read_def Let_def)
  from s2p_read_pending [OF assms(2) this]
  have s2: "pending (s2p_received (length got) ?s2) = pending (tstream c) @ got" "s2p_ok h (s2p_received (length got) ?s2)"
    by auto
  show ?thesis
  proof (cases "got = []")
    case True
    have "s2p_received (length got) ?s2 = ?s1" using True by (simp add: overwrite_def s2p_received_def)
    then have "pending ?s1 = pending (tstream c)" "s2p_ok h ?s1" using s2 True by simp_all
    then show ?thesis using True assms(1,3) by (auto simp: canRead_def Let_def quiet_def stopTimer_def)
  next
    case False
    obtain ms s3 e3 where d: "s2p_drain h (s2p_received (length got) ?s2) = (ms, s3, e3)" by (metis prod_cases3)
    from s2p_drain_frames [OF s2(2) d] s2(1) d assms(1,4) False show ?thesis
      by (auto simp: canRead_def Let_def stopTimer_def split: if_splits)
  qed
qed

text \<open>The other handlers leave the stream alone.\<close>

lemma tcp_send_tstream: "tcp_send r p b c = (c', e) \<Longrightarrow> tstream c' = tstream c"
  by (cases "tstate c") (auto simp: tcp_send_def up_def handler_simps Let_def split: if_splits option.splits)

lemma write_loop_tstream: "write_loop rs c = (c', fx, out) \<Longrightarrow> tstream c' = tstream c"
  by (induction rule: write_loop_turns) (simp_all add: close_fd_def)

lemma canWrite_tstream: "canWrite p rs c = (c', fx) \<Longrightarrow> tstream c' = tstream c"
  by (auto simp: canWrite_def handler_simps Let_def dest!: write_loop_tstream split: if_splits prod.splits)

lemma timer_tstream: "timer c = (c', fx) \<Longrightarrow> tstream c' = tstream c"
  by (auto simp: timer_def handler_simps Let_def split: if_splits)

section \<open>The link\<close>

text \<open>
  One end: its connection, the messages its ORB has sent, the octets that have left it and not
  arrived at the other end, the messages its ORB has got, and the exception its read handler was
  left with.
\<close>

record endpoint =
  conn :: tcp
  asked :: "bytes list"
  wire :: bytes
  got :: "bytes list"
  failure :: "error option"

definition endpoint_init :: "tcp \<Rightarrow> endpoint" where
  "endpoint_init c = \<lparr>conn = c, asked = [], wire = [], got = [], failure = None\<rparr>"

text \<open>
  What one end does. The system gives a reader a prefix of what is on its way to it, no more
  than the buffer takes. The socket is not lost meanwhile.
\<close>

inductive link_step :: "host \<Rightarrow> endpoint \<Rightarrow> endpoint \<Rightarrow> endpoint \<Rightarrow> endpoint \<Rightarrow> bool" for h where
  sends: "tcp_send r in_progress m (conn a) = (c, e) \<Longrightarrow> e \<noteq> Some LibraryMisuse \<Longrightarrow>
    link_step h a b (a\<lparr>conn := c, asked := asked a @ [m]\<rparr>) b"
| writes: "write_active (conn a) \<Longrightarrow> canWrite peer_known rs (conn a) = (c, fx) \<Longrightarrow> (\<And>fd. Closed fd \<notin> set fx) \<Longrightarrow>
    link_step h a b (a\<lparr>conn := c, wire := wire a @ sent_octets fx\<rparr>) b"
| reads: "read_active (conn a) \<Longrightarrow> failure a = None \<Longrightarrow> wire b = piece @ rest \<Longrightarrow>
    length fresh = receiveBufferSize (tstream (conn a)) \<Longrightarrow>
    length piece \<le> s2p_length (s2p_buffer fresh (tstream (conn a))) \<Longrightarrow>
    canRead h fresh (Got piece) (conn a) = (c, fx, e) \<Longrightarrow>
    link_step h a b (a\<lparr>conn := c, got := got a @ received fx, failure := e\<rparr>) (b\<lparr>wire := rest\<rparr>)"
| fires: "timer_armed (conn a) \<Longrightarrow> timer (conn a) = (c, fx) \<Longrightarrow> (\<And>fd. Closed fd \<notin> set fx) \<Longrightarrow>
    link_step h a b (a\<lparr>conn := c\<rparr>) b"

text \<open>\<open>a\<close> has opened the connection, \<open>b\<close> has accepted it.\<close>

inductive link :: "host \<Rightarrow> host \<Rightarrow> nat \<Rightarrow> endpoint \<Rightarrow> endpoint \<Rightarrow> bool" for ha hb rbs where
  connect: "tcp_accept fd (tcp_init rbs) = (c, None) \<Longrightarrow>
    link ha hb rbs (endpoint_init (tcp_init rbs)) (endpoint_init c)"
| this_end: "link ha hb rbs a b \<Longrightarrow> link_step ha a b a' b' \<Longrightarrow> link ha hb rbs a' b'"
| other_end: "link ha hb rbs a b \<Longrightarrow> link_step hb b a b' a' \<Longrightarrow> link ha hb rbs a' b'"

section \<open>Nothing is lost on the way\<close>

text \<open>
  From \<open>a\<close> to \<open>b\<close>: what has arrived has been cut up as far as possible, and the rest of what has
  been sent is on the way or still queued.
\<close>

definition carries :: "host \<Rightarrow> endpoint \<Rightarrow> endpoint \<Rightarrow> bool" where
  "carries hb a b \<longleftrightarrow>
     queue_ok (conn a) \<and> s2p_ok hb (tstream (conn b)) \<and>
     (\<exists>here. concat (asked a) = here @ wire a @ unsent (conn a) \<and>
       frames hb here = (got b, pending (tstream (conn b)), failure b))"

lemma carries_send:
  assumes "tcp_send r p m (conn a) = (c, e)" and "carries hb a b"
  shows "carries hb (a\<lparr>conn := c, asked := asked a @ [m]\<rparr>) b"
proof -
  have "queue_ok c \<and> unsent c = unsent (conn a) @ m"
    using tcp_send_queue [OF assms(1)] assms(2)
    by (cases "sendBuffer (conn a)") (auto simp: carries_def queue_ok_def unsent_def)
  then show ?thesis using assms(2) by (auto simp: carries_def)
qed

lemma carries_write:
  assumes "canWrite p rs (conn a) = (c, fx)" and "carries hb a b"
  shows "carries hb (a\<lparr>conn := c, wire := wire a @ sent_octets fx\<rparr>) b"
proof -
  have "queue_ok (conn a)" using assms(2) by (simp add: carries_def)
  from canWrite_queue [OF assms(1) this] show ?thesis using assms(2) by (auto simp: carries_def)
qed

lemma carries_same:
  assumes "sendBuffer c = sendBuffer (conn a) \<and> bytesSend c = bytesSend (conn a)" and "carries hb a b"
  shows "carries hb (a\<lparr>conn := c\<rparr>) b" and "carries hb (a\<lparr>conn := c, got := g, failure := f\<rparr>) b"
  using same_queue [of c "conn a"] assms by (auto simp: carries_def)

lemma carries_stream:
  "tstream c = tstream (conn b) \<Longrightarrow> carries hb a b \<Longrightarrow>
   carries hb a (b\<lparr>conn := c\<rparr>) \<and> carries hb a (b\<lparr>conn := c, asked := m\<rparr>) \<and> carries hb a (b\<lparr>conn := c, wire := w\<rparr>)"
  by (simp add: carries_def)

lemma carries_read:
  assumes "canRead hb fresh (Got piece) (conn b) = (c, fx, e)" and "carries hb a b" and "failure b = None"
    and "wire a = piece @ rest" and "length piece \<le> s2p_length (s2p_buffer fresh (tstream (conn b)))"
  shows "carries hb (a\<lparr>wire := rest\<rparr>) (b\<lparr>conn := c, got := got b @ received fx, failure := e\<rparr>)"
proof -
  obtain here where f: "concat (asked a) = here @ (piece @ rest) @ unsent (conn a)"
      "frames hb here = (got b, pending (tstream (conn b)), None)"
    and ok: "queue_ok (conn a)" "s2p_ok hb (tstream (conn b))" using assms(2-4) by (auto simp: carries_def)
  have "quiet hb (tstream (conn b))" using frames_rest [OF f(2)] by (simp add: quiet_def)
  note read = canRead_stream [OF assms(1) ok(2) this assms(5)]
  have "frames hb (here @ piece) = (got b @ received fx, pending (tstream c), e)"
    using frames_append [of hb here piece] f(2) read by simp
  then show ?thesis unfolding carries_def using f(1) ok(1) read by (intro conjI exI [of _ "here @ piece"]) simp_all
qed

lemma link_step_carries:
  assumes "link_step ha a b a' b'" and "carries hb a b" and "carries ha b a"
  shows "carries hb a' b' \<and> carries ha b' a'"
  using assms(1)
proof cases
  case (sends r p m c e)
  then show ?thesis using carries_send [OF sends(3) assms(2)] carries_stream [OF tcp_send_tstream [OF sends(3)] assms(3)] by simp
next
  case (writes p rs c fx)
  then show ?thesis using carries_write [OF writes(4) assms(2)] carries_stream [OF canWrite_tstream [OF writes(4)] assms(3)] by simp
next
  case (reads piece rest fresh c fx e)
  have "carries hb (a\<lparr>conn := c, got := got a @ received fx, failure := e\<rparr>) b"
    using canRead_queue [OF reads(8)] by (intro carries_same(2) [OF _ assms(2)]) simp
  moreover have "carries hb x (b\<lparr>wire := rest\<rparr>)" if "carries hb x b" for x using that by (simp add: carries_def)
  ultimately show ?thesis using reads carries_read [OF reads(8) assms(3) reads(4,5,7)] by simp
next
  case (fires c fx)
  then show ?thesis
    using carries_same(1) [OF _ assms(2), of c] timer_queue [OF fires(4)] carries_stream [OF timer_tstream [OF fires(4)] assms(3)]
    by simp
qed

lemma link_carries: "link ha hb rbs a b \<Longrightarrow> carries hb a b \<and> carries ha b a"
proof (induction rule: link.induct)
  case (connect fd c)
  then have "tstream c = s2p_init rbs" "sendBuffer c = []" "bytesSend c = 0"
    by (auto simp: tcp_accept_def tcp_init_def handler_simps Let_def split: if_splits)
  then show ?case
    by (simp add: carries_def endpoint_init_def tcp_init_def queue_ok_def unsent_def frames.simps [of _ "[]"])
qed (use link_step_carries in blast)+

lemma frames_so_far:
  assumes "frames h (here @ to_come) = (msgs, [], None)" and "frames h here = (ms, rest, e)"
  shows "e = None \<and> prefix ms msgs \<and> (to_come = [] \<longrightarrow> ms = msgs)"
  using assms frames_append [of h here to_come] by (cases e) (auto split: prod.splits)

lemma carries_messages:
  assumes "carries hb a b" and "\<forall>m\<in>set (asked a). framed hb m"
  shows "failure b = None \<and> prefix (got b) (asked a) \<and> (wire a = [] \<and> unsent (conn a) = [] \<longrightarrow> got b = asked a)"
proof -
  obtain here where here: "concat (asked a) = here @ wire a @ unsent (conn a)"
    "frames hb here = (got b, pending (tstream (conn b)), failure b)" using assms(1) by (auto simp: carries_def)
  then have "frames hb (here @ wire a @ unsent (conn a)) = (asked a, [], None)" using frames_concat [OF assms(2)] by simp
  from frames_so_far [OF this here(2)] show ?thesis by simp
qed

text \<open>C17. A connection carries messages both ways: whatever the order in which the handlers of both ends
  run and however the octets are cut up on the way, each ORB gets a prefix of the messages the
  other one has sent, in order and whole, and no exception is thrown; and if nothing waits at the
  sender and on the wire any more it has got all of them. Messages may also wait at the sender for ever
  (\<open>second_request_stalls\<close> and \<open>connected_at_once_stalls\<close> in TCP_Properties). The socket is not lost.\<close>

theorem link_delivers:
  assumes "link ha hb rbs a b" and "\<forall>m\<in>set (asked a). framed hb m" and "\<forall>m\<in>set (asked b). framed ha m"
  shows "failure b = None \<and> prefix (got b) (asked a) \<and> (wire a = [] \<and> unsent (conn a) = [] \<longrightarrow> got b = asked a) \<and>
    failure a = None \<and> prefix (got a) (asked b) \<and> (wire b = [] \<and> unsent (conn b) = [] \<longrightarrow> got a = asked b)"
  using link_carries [OF assms(1)] carries_messages [OF _ assms(2)] carries_messages [OF _ assms(3)] by blast


section \<open>A message on its way\<close>

text \<open>One message sent by the end that opens the connection, written and read as a whole.\<close>

lemma one_message_steps:
  assumes "m \<noteq> []" and "framed hb m" and "length m \<le> rbs"
  obtains a1 a2 a b where "link_step ha (endpoint_init (tcp_init rbs)) (endpoint_init (fst (tcp_accept 7 (tcp_init rbs)))) a1
        (endpoint_init (fst (tcp_accept 7 (tcp_init rbs))))" "asked a1 = [m]"
    and "link_step ha a1 (endpoint_init (fst (tcp_accept 7 (tcp_init rbs)))) a2 (endpoint_init (fst (tcp_accept 7 (tcp_init rbs))))"
      "asked a2 = [m]"
    and "link_step hb (endpoint_init (fst (tcp_accept 7 (tcp_init rbs)))) a2 b a" "asked a = [m]" "asked b = []" "wire a = []"
      "unsent (conn a) = []" "wire b = []" "failure a = None" "read_active (conn a)" "tstream (conn a) = s2p_init rbs"
      "tstate (conn b) = ESTABLISHED" "sendBuffer (conn b) = []" "bytesSend (conn b) = 0"
proof -
  let ?c0 = "tcp_init rbs" and ?d0 = "fst (tcp_accept 7 (tcp_init rbs))"
  let ?c1 = "fst (tcp_send 7 True m ?c0)"
  let ?c2 = "fst (canWrite True [Took (length m)] ?c1)"
  let ?a1 = "(endpoint_init ?c0)\<lparr>conn := ?c1, asked := [m]\<rparr>"
  let ?a2 = "?a1\<lparr>conn := ?c2, wire := m\<rparr>"
  let ?b = "endpoint_init ?d0"
  have c1: "tcp_send 7 True m ?c0 = (?c1, None)" "write_active ?c1" "sendBuffer ?c1 = [m]" "bytesSend ?c1 = 0"
    by (simp_all add: tcp_init_def tcp_send_def up_def handler_simps Let_def)
  have 1: "link_step ha (endpoint_init ?c0) ?b ?a1 ?b"
    using sends [of 7 True m "endpoint_init ?c0" ?c1 None ha ?b] c1(1) by (simp add: endpoint_init_def)
  have "write_loop [Took (length m)] (stopWriteHandler ?c1) =
      ((stopWriteHandler ?c1)\<lparr>sendBuffer := [], bytesSend := 0\<rparr>, [Sent m], False)"
    using c1 by (simp add: write_loop_simps handler_simps)
  then have c2: "canWrite True [Took (length m)] ?c1 = (?c2, [Sent m])" "unsent ?c2 = []"
    by (simp_all add: canWrite_def Let_def unsent_def)
  have 2: "link_step ha ?a1 ?b ?a2 ?b"
    using writes [of ?a1 True "[Took (length m)]" ?c2 "[Sent m]" ha ?b] c1(2) c2(1) by (simp add: endpoint_init_def)
  have d0: "read_active ?d0" "tstream ?d0 = s2p_init rbs" "tstate ?d0 = ESTABLISHED" "sendBuffer ?d0 = []" "bytesSend ?d0 = 0"
    by (simp_all add: tcp_accept_def tcp_init_def handler_simps Let_def)
  have size: "receiveBufferSize (s2p_init rbs) = rbs" by (simp add: s2p_init_def)
  then have room: "length m \<le> s2p_length (s2p_buffer (replicate rbs 0) (s2p_init rbs))"
      "length (replicate rbs (0 :: byte)) = receiveBufferSize (s2p_init rbs)"
    using buffer_room [of LE "s2p_init rbs" "replicate rbs 0"] assms(3) by simp_all
  obtain d fx e where r: "canRead hb (replicate rbs 0) (Got m) ?d0 = (d, fx, e)" by (metis prod_cases3)
  have 3: "link_step hb ?b ?a2 (?b\<lparr>conn := d, got := received fx, failure := e\<rparr>) (?a2\<lparr>wire := []\<rparr>)"
    using reads [of ?b ?a2 m "[]" "replicate rbs 0" hb d fx e] d0 r room by (simp add: endpoint_init_def size)
  have d: "tstate d = ESTABLISHED" "sendBuffer d = []" "bytesSend d = 0"
    using r d0 canRead_queue [OF r] by (auto simp: canRead_def stopTimer_def Let_def split: if_splits prod.splits)
  have c2': "read_active ?c2" "tstream ?c2 = s2p_init rbs"
  proof -
    have "read_active ?c1" "tstream ?c1 = s2p_init rbs"
      by (simp_all add: tcp_init_def tcp_send_def up_def handler_simps Let_def)
    then show "read_active ?c2" "tstream ?c2 = s2p_init rbs" using c2(1) c1
      by (simp_all add: canWrite_def handler_simps write_loop_simps Let_def)
  qed
  show thesis by (rule that [OF 1 _ 2 _ 3]) (use c2(2) d c2' in \<open>simp_all add: endpoint_init_def\<close>)
qed

lemma tcp_accepted: "tcp_accept 7 (tcp_init rbs) = (fst (tcp_accept 7 (tcp_init rbs)), None)"
  by (simp add: tcp_accept_def tcp_init_def handler_simps Let_def)

lemma one_message_arrives:
  assumes "m \<noteq> []" and "framed hb m" and "length m \<le> rbs"
  shows "\<exists>a b. link ha hb rbs a b \<and> asked a = [m] \<and> asked b = [] \<and> wire a = [] \<and> unsent (conn a) = [] \<and>
    wire b = [] \<and> failure a = None \<and> read_active (conn a) \<and> tstream (conn a) = s2p_init rbs \<and>
    tstate (conn b) = ESTABLISHED \<and> sendBuffer (conn b) = [] \<and> bytesSend (conn b) = 0"
  by (rule one_message_steps [where ha = ha, OF assms])
     (blast intro: other_end [OF this_end [OF this_end [OF connect [OF tcp_accepted]]]])

text \<open>And the answer of the other end.\<close>

lemma answer_steps:
  assumes "m' \<noteq> []" and "length m' \<le> rbs" and "wire a = []" and "asked b = []" and "wire b = []" and "failure a = None"
    and "read_active (conn a)" and "tstream (conn a) = s2p_init rbs" and "tstate (conn b) = ESTABLISHED"
    and "sendBuffer (conn b) = []" and "bytesSend (conn b) = 0"
  obtains b1 b2 a' b' where "link_step hb b a b1 a" "asked b1 = [m']" and "link_step hb b1 a b2 a" "asked b2 = [m']"
    and "link_step ha a b2 a' b'" "asked a' = asked a" "asked b' = [m']" "wire a' = []" "unsent (conn a') = unsent (conn a)"
      "wire b' = []" "unsent (conn b') = []"
proof -
  let ?d1 = "fst (tcp_send 0 False m' (conn b))"
  let ?d2 = "fst (canWrite True [Took (length m')] ?d1)"
  let ?b1 = "b\<lparr>conn := ?d1, asked := [m']\<rparr>" and ?b2 = "b\<lparr>conn := ?d1, asked := [m']\<rparr>\<lparr>conn := ?d2, wire := m'\<rparr>"
  have d1: "tcp_send 0 False m' (conn b) = (?d1, None)" "write_active ?d1" "sendBuffer ?d1 = [m']" "bytesSend ?d1 = 0"
      "tstate ?d1 = ESTABLISHED"
    using assms(9-11) by (simp_all add: tcp_send_def handler_simps Let_def)
  have 1: "link_step hb b a ?b1 a" using sends [OF d1(1), of hb a] assms(4) by simp
  have "write_loop [Took (length m')] (stopWriteHandler ?d1) =
      ((stopWriteHandler ?d1)\<lparr>sendBuffer := [], bytesSend := 0\<rparr>, [Sent m'], False)"
    using d1 by (simp add: write_loop_simps handler_simps)
  then have d2: "canWrite True [Took (length m')] ?d1 = (?d2, [Sent m'])" "unsent ?d2 = []"
    by (simp_all add: canWrite_def Let_def unsent_def)
  have 2: "link_step hb ?b1 a ?b2 a"
    using writes [of ?b1 True "[Took (length m')]" ?d2 "[Sent m']" hb a] d1(2) d2(1) assms(5) by simp
  have size: "receiveBufferSize (s2p_init rbs) = rbs" by (simp add: s2p_init_def)
  then have room: "length m' \<le> s2p_length (s2p_buffer (replicate rbs 0) (s2p_init rbs))"
    using buffer_room [of LE "s2p_init rbs" "replicate rbs 0"] assms(2) by simp
  obtain c fx e where r: "canRead ha (replicate rbs 0) (Got m') (conn a) = (c, fx, e)" by (metis prod_cases3)
  have 3: "link_step ha a ?b2 (a\<lparr>conn := c, got := got a @ received fx, failure := e\<rparr>) (?b2\<lparr>wire := []\<rparr>)"
    using reads [of a ?b2 m' "[]" "replicate rbs 0" ha c fx e] assms(6-8) r room by (simp add: size)
  have "unsent c = unsent (conn a)" using canRead_queue [OF r] by (simp add: unsent_def)
  then show thesis by (intro that [OF 1 _ 2 _ 3]) (use d2(2) assms(3) in simp_all)
qed

lemma two_messages_arrive:
  assumes "m \<noteq> []" and "framed hb m" and "length m \<le> rbs" and "m' \<noteq> []" and "length m' \<le> rbs"
  shows "\<exists>a b. link ha hb rbs a b \<and> asked a = [m] \<and> asked b = [m'] \<and> wire a = [] \<and> unsent (conn a) = [] \<and>
    wire b = [] \<and> unsent (conn b) = []"
proof -
  obtain a b where l: "link ha hb rbs a b" "asked a = [m]" "asked b = []" "wire a = []" "unsent (conn a) = []" "wire b = []"
      "failure a = None" "read_active (conn a)" "tstream (conn a) = s2p_init rbs"
    and b: "tstate (conn b) = ESTABLISHED" "sendBuffer (conn b) = []" "bytesSend (conn b) = 0"
    using one_message_arrives [OF assms(1-3)] by blast
  obtain b1 b2 a' b' where s: "link_step hb b a b1 a" "link_step hb b1 a b2 a" "link_step ha a b2 a' b'" "asked a' = asked a"
      "asked b' = [m']" "wire a' = []" "unsent (conn a') = unsent (conn a)" "wire b' = []" "unsent (conn b') = []"
    by (rule answer_steps [where ha = ha and hb = hb, OF assms(4,5) l(4,3,6-9) b])
  have "link ha hb rbs a' b'" by (rule this_end [OF other_end [OF other_end [OF l(1) s(1)] s(2)] s(3)])
  then show ?thesis using s l by (intro exI [of _ a'] exI [of _ b']) simp
qed

definition sample_message :: bytes where
  "sample_message = reply_layout (native LE) 1 2 7 NO_EXCEPTION (cdr_ulong (native LE) 5)"

lemma sample_message: "framed BE sample_message" "length sample_message \<le> 100" "sample_message \<noteq> []"
  using sample_reply_framed length_layouts(1) [of "native LE" 5 24]
  by (simp_all add: sample_message_def reply_layout_def giop_header_def)

lemma link_delivers_witness:
  "\<exists>a b. link LE BE 100 a b \<and> asked a = [sample_message] \<and> got b = [sample_message] \<and> failure b = None"
proof -
  obtain a b where l: "link LE BE 100 a b" "asked a = [sample_message]" "asked b = []" "wire a = []" "unsent (conn a) = []"
    using one_message_arrives [OF sample_message(3,1,2)] by blast
  from link_delivers [OF l(1)] l sample_message(1) show ?thesis by (intro exI [of _ a] exI [of _ b]) simp
qed

end
