(* ===== verification/WS_Link.thy ===== *)
theory WS_Link
  imports WS_Properties "HOL-Library.Sublist"
begin

text \<open>
  Two WebSocket connections and the octets between them: the handshake, then frames both ways.
  Frames are made and taken apart by wslay, which is a parameter; what is asked of it is only that the
  frames it makes are whole and can be told from each other.
\<close>

section \<open>Frames\<close>

text \<open>
  \<open>makes m f\<close>: wslay may send the message \<open>m\<close> as the octets \<open>f\<close>, with any mask.
  \<open>parse\<close> takes the first message off the octets received, if they hold a whole one.
\<close>

definition framing_ok :: "(bytes \<Rightarrow> bytes \<Rightarrow> bool) \<Rightarrow> (bytes \<Rightarrow> (ws_message \<times> bytes) option) \<Rightarrow> bool" where
  "framing_ok makes parse \<longleftrightarrow>
     (\<forall>m f s. makes m f \<longrightarrow> parse (f @ s) = Some (BinaryFrame m, s)) \<and>
     (\<forall>m p x s. makes m (p @ x # s) \<longrightarrow> parse p = None) \<and> parse [] = None"

lemma framing_laws:
  assumes "framing_ok makes parse"
  shows "makes m f \<Longrightarrow> parse (f @ s) = Some (BinaryFrame m, s)" and "makes m (p @ x # s) \<Longrightarrow> parse p = None"
    and "parse [] = None" and "\<not> makes m []"
proof -
  note ok = assms [unfolded framing_ok_def]
  show 1: "makes m f \<Longrightarrow> parse (f @ s) = Some (BinaryFrame m, s)" for m f s using ok by blast
  show "makes m (p @ x # s) \<Longrightarrow> parse p = None" and 3: "parse [] = None" using ok by blast+
  show "\<not> makes m []" using 1 [of m "[]" "[]"] 3 by auto
qed

text \<open>\<open>wslay_event_recv\<close> takes off messages as long as there are whole ones.\<close>

inductive takes_off :: "(bytes \<Rightarrow> (ws_message \<times> bytes) option) \<Rightarrow> bytes \<Rightarrow> ws_message list \<Rightarrow> bytes \<Rightarrow> bool" for parse where
  incomplete: "parse s = None \<Longrightarrow> takes_off parse s [] s"
| complete: "parse s = Some (m, s') \<Longrightarrow> takes_off parse s' ms rest \<Longrightarrow> takes_off parse s (m # ms) rest"

lemma takes_off_frames:
  assumes "takes_off parse s ms' part" and "framing_ok makes parse" and "list_all2 makes ms fs" and "concat fs = s @ t"
  shows "\<exists>now later fs'. ms = now @ later \<and> ms' = map BinaryFrame now \<and> list_all2 makes later fs' \<and> concat fs' = part @ t"
  using assms(1,3,4)
proof (induction arbitrary: ms fs rule: takes_off.induct)
  case (incomplete s)
  then show ?case by (intro exI [of _ "[]"] exI [of _ ms] exI [of _ fs]) simp
next
  case (complete s m s' ms' rest)
  note laws = framing_laws [OF assms(2)]
  from complete.hyps(1) laws(3) have "s \<noteq> []" by auto
  then obtain m1 ms1 f fs1 where 1: "ms = m1 # ms1" "fs = f # fs1" "makes m1 f" "list_all2 makes ms1 fs1"
    using complete.prems by (cases fs) (auto simp: list_all2_Cons2)
  have "f @ concat fs1 = s @ t" using complete.prems(2) 1(2) by simp
  then obtain u where "f = s @ u \<and> t = u @ concat fs1 \<or> s = f @ u \<and> concat fs1 = u @ t"
    unfolding append_eq_append_conv2 by auto
  then consider (short) x u' where "f = s @ x # u'" | (whole) u where "s = f @ u" "concat fs1 = u @ t"
    by (cases u) auto
  then show ?case
  proof cases
    case short
    then have "parse s = None" using laws(2) 1(3) by blast
    then show ?thesis using complete.hyps(1) by simp
  next
    case whole
    have m: "m = BinaryFrame m1" "s' = u" using laws(1) [OF 1(3)] complete.hyps(1) whole(1) by simp_all
    from complete.IH [OF 1(4), of] whole(2) m(2) obtain now later fs' where
      "ms1 = now @ later" "ms' = map BinaryFrame now" "list_all2 makes later fs'" "concat fs' = rest @ t" by blast
    then show ?thesis using 1(1) m(1) by (intro exI [of _ "m1 # now"] exI [of _ later] exI [of _ fs']) simp
  qed
qed

lemma takes_off_rest: "takes_off parse s ms rest \<Longrightarrow> parse rest = None"
  by (induction rule: takes_off.induct)

lemma nothing_taken_off: "takes_off parse [] ms part \<Longrightarrow> framing_ok makes parse \<Longrightarrow> ms = [] \<and> part = []"
  by (erule takes_off.cases) (auto simp: framing_ok_def)

lemma no_frames: "framing_ok makes parse \<Longrightarrow> list_all2 makes ms fs \<Longrightarrow> parse (concat fs) = None \<Longrightarrow> ms = []"
  using framing_laws(1) by (cases ms) (fastforce simp: list_all2_Cons1)+

section \<open>The link\<close>

text \<open>
  One end: its connection, the messages its ORB has sent, the octets of frames that wslay has made
  and not written, the octets on the way to the other end, those wslay has read and not used, and the
  messages its ORB has got.
\<close>

record ws_endpoint =
  wconn :: ws
  wasked :: "bytes list"
  unwritten :: bytes
  wwire :: bytes
  unused :: bytes
  wgot :: "bytes list"

definition ws_endpoint_init :: "ws \<Rightarrow> ws_endpoint" where
  "ws_endpoint_init c = \<lparr>wconn = c, wasked = [], unwritten = [], wwire = [], unused = [], wgot = []\<rparr>"

fun delivered :: "ws_effect list \<Rightarrow> bytes list" where
  "delivered [] = []"
| "delivered (Delivered b # fx) = b # delivered fx"
| "delivered (_ # fx) = delivered fx"

text \<open>
  What an end puts out in a step: the texts of the handshake at once, and of the frames of the messages
  handed to wslay as much as wslay and the system let through.
\<close>

definition puts_out :: "(bytes \<Rightarrow> bytes \<Rightarrow> bool) \<Rightarrow> ws_endpoint \<Rightarrow> ws_effect list \<Rightarrow> ws_endpoint \<Rightarrow> bool" where
  "puts_out makes a fx a' \<longleftrightarrow> (\<forall>m. Refused m \<notin> set fx) \<and>
     (\<exists>fs out kept. list_all2 makes (handed fx) fs \<and> unwritten a @ concat fs = out @ kept \<and>
       a' = a\<lparr>unwritten := kept, wwire := wwire a @ http_octets fx @ out\<rparr>)"

text \<open>
  What one end does. The libraries of both ends compute the same hash and encoding. The end that has
  accepted the connection sends only when it has got a message, as an ORB does that answers.
  \<open>recv\<close> gives the reader a prefix of what is on its way. The system takes the request whole (otherwise the program is
  left with an exception), wslay accepts every message, and the socket is not lost meanwhile.
\<close>

inductive ws_link_step :: "handshake \<Rightarrow> (bytes \<Rightarrow> bytes \<Rightarrow> bool) \<Rightarrow> (bytes \<Rightarrow> (ws_message \<times> bytes) option) \<Rightarrow>
    bool \<Rightarrow> ws_endpoint \<Rightarrow> ws_endpoint \<Rightarrow> ws_endpoint \<Rightarrow> ws_endpoint \<Rightarrow> bool" for lib makes parse opener where
  ws_sends: "opener \<or> wgot a \<noteq> [] \<Longrightarrow> ws_send fd in_progress q r m (wconn a) = (c, fx, e) \<Longrightarrow> defined e \<Longrightarrow> -1 \<le> fd \<Longrightarrow>
    puts_out makes (a\<lparr>wconn := c, wasked := wasked a @ [m]\<rparr>) fx a' \<Longrightarrow> ws_link_step lib makes parse opener a b a' b"
| ws_writes: "wwrite_active (wconn a) \<Longrightarrow> plain_host local \<Longrightarrow> key = create_clientkey lib rnd \<Longrightarrow>
    ws_canWrite local key n r (wconn a) = (c, fx, None) \<Longrightarrow>
    puts_out makes (a\<lparr>wconn := c\<rparr>) fx a' \<Longrightarrow> ws_link_step lib makes parse opener a b a' b"
| ws_reads: "wread_active (wconn a) \<Longrightarrow> 0 \<le> wfd (wconn a) \<Longrightarrow> wwire b = piece @ rest \<Longrightarrow> length piece \<le> 8192 \<Longrightarrow>
    sha1 h = sha1 lib \<Longrightarrow> base64 h = base64 lib \<Longrightarrow> context_made h \<Longrightarrow>
    (if wsstate (wconn a) = WS then takes_off parse (unused a @ piece) msgs part else msgs = [] \<and> part = unused a) \<Longrightarrow>
    ws_canRead h (HttpGot piece) msgs (wconn a) = (c, fx, None) \<Longrightarrow>
    puts_out makes (a\<lparr>wconn := c, unused := part, wgot := wgot a @ delivered fx\<rparr>) fx a' \<Longrightarrow>
    ws_link_step lib makes parse opener a b a' (b\<lparr>wwire := rest\<rparr>)"
| ws_fires: "wtimer_armed (wconn a) \<Longrightarrow> ws_timer (wconn a) = (c, fx, e) \<Longrightarrow> \<forall>fd. WsClosed fd \<notin> set fx \<Longrightarrow>
    ws_link_step lib makes parse opener a b (a\<lparr>wconn := c\<rparr>) b"

text \<open>\<open>a\<close> opens the connection, \<open>b\<close> has accepted it.\<close>

inductive ws_link :: "handshake \<Rightarrow> (bytes \<Rightarrow> bytes \<Rightarrow> bool) \<Rightarrow> (bytes \<Rightarrow> (ws_message \<times> bytes) option) \<Rightarrow>
    ws_endpoint \<Rightarrow> ws_endpoint \<Rightarrow> bool" for lib makes parse where
  ws_connect: "0 \<le> fd \<Longrightarrow> ws_connectIncoming fd = (c, [], None) \<Longrightarrow>
    ws_link lib makes parse (ws_endpoint_init ws_connectOutgoing) (ws_endpoint_init c)"
| ws_this_end: "ws_link lib makes parse a b \<Longrightarrow> ws_link_step lib makes parse True a b a' b' \<Longrightarrow> ws_link lib makes parse a' b'"
| ws_other_end: "ws_link lib makes parse a b \<Longrightarrow> ws_link_step lib makes parse False b a b' a' \<Longrightarrow> ws_link lib makes parse a' b'"

section \<open>The handshake on the way\<close>

text \<open>The two phases of the handshake, before and after, with what is on the way in each.\<close>

definition ws_silent :: "ws_endpoint \<Rightarrow> bool" where
  "ws_silent a \<longleftrightarrow> unwritten a = [] \<and> unused a = [] \<and> wgot a = []"

definition ws_carries :: "(bytes \<Rightarrow> bytes \<Rightarrow> bool) \<Rightarrow> (bytes \<Rightarrow> (ws_message \<times> bytes) option) \<Rightarrow> ws_endpoint \<Rightarrow> ws_endpoint \<Rightarrow> bool" where
  "ws_carries makes parse a b \<longleftrightarrow> parse (unused b) = None \<and>
     (\<exists>ms fs. wasked a = wgot b @ ms \<and> list_all2 makes ms fs \<and> concat fs = unused b @ wwire a @ unwritten a)"

definition waiting_client :: "ws_endpoint \<Rightarrow> bool" where
  "waiting_client a \<longleftrightarrow> ws_silent a \<and> wsstate (wconn a) = HTTP_CLIENT \<and> wasked a = wqueue (wconn a)"

definition client_asked :: "ws_endpoint \<Rightarrow> bool" where
  "client_asked a \<longleftrightarrow> waiting_client a \<and> wstate (wconn a) = ESTABLISHED \<and> \<not> wwrite_active (wconn a)"

definition waiting_server :: "ws_endpoint \<Rightarrow> bool" where
  "waiting_server b \<longleftrightarrow> ws_silent b \<and> wasked b = [] \<and> wwire b = [] \<and> wsstate (wconn b) = HTTP_SERVER \<and> wqueue (wconn b) = []"

inductive ws_phase :: "handshake \<Rightarrow> (bytes \<Rightarrow> bytes \<Rightarrow> bool) \<Rightarrow> (bytes \<Rightarrow> (ws_message \<times> bytes) option) \<Rightarrow>
    ws_endpoint \<Rightarrow> ws_endpoint \<Rightarrow> bool" for lib makes parse a b where
  calling: "waiting_client a \<Longrightarrow> headers (wconn a) = [] \<Longrightarrow> (wwrite_active (wconn a) \<Longrightarrow> wstate (wconn a) = INPROGRESS) \<Longrightarrow>
    wwire a = [] \<Longrightarrow> waiting_server b \<Longrightarrow> headers (wconn b) = [] \<Longrightarrow> ws_phase lib makes parse a b"
| asking: "client_asked a \<Longrightarrow> headers (wconn a) = [] \<Longrightarrow> waiting_server b \<Longrightarrow> plain_host local \<Longrightarrow>
    client_key (wconn a) = create_clientkey lib rnd \<Longrightarrow>
    headers (wconn b) @ wwire a = http_request local (client_key (wconn a)) \<Longrightarrow> wwire a \<noteq> [] \<Longrightarrow> ws_phase lib makes parse a b"
| answered: "client_asked a \<Longrightarrow> wwire a = [] \<Longrightarrow> ws_silent b \<Longrightarrow> wasked b = [] \<Longrightarrow> wsstate (wconn b) = WS \<Longrightarrow>
    headers (wconn a) @ wwire b @ lost = http_reply (create_acceptkey lib (client_key (wconn a))) \<Longrightarrow>
    search (crlf @ crlf) (headers (wconn a)) = None \<Longrightarrow> ws_phase lib makes parse a b"
| talking: "wsstate (wconn a) = WS \<Longrightarrow> wsstate (wconn b) = WS \<Longrightarrow> ws_carries makes parse a b \<Longrightarrow> ws_carries makes parse b a \<Longrightarrow>
    ws_phase lib makes parse a b"

section \<open>What a step puts out\<close>

lemma puts_out_nothing:
  "puts_out makes x fx a' \<Longrightarrow> handed fx = [] \<Longrightarrow> unwritten x = [] \<Longrightarrow> a' = x\<lparr>wwire := wwire x @ http_octets fx\<rparr>"
  by (auto simp: puts_out_def)

lemma puts_out_same: "puts_out makes x fx a' \<Longrightarrow> wconn a' = wconn x \<and> wasked a' = wasked x \<and> unused a' = unused x \<and> wgot a' = wgot x"
  by (auto simp: puts_out_def)

lemma puts_out_carries:
  assumes "puts_out makes x fx a'" and "http_octets fx = []" and "wasked x = wasked a @ handed fx"
    and "wwire x = wwire a" and "unwritten x = unwritten a" and "ws_carries makes parse a b"
  shows "ws_carries makes parse a' b"
proof -
  obtain fs out kept where o: "list_all2 makes (handed fx) fs" "unwritten a @ concat fs = out @ kept"
    "a' = x\<lparr>unwritten := kept, wwire := wwire a @ out\<rparr>" using assms(1,2,4,5) by (auto simp: puts_out_def)
  obtain ms fs' where "wasked a = wgot b @ ms" "list_all2 makes ms fs'" "concat fs' = unused b @ wwire a @ unwritten a"
    using assms(6) by (auto simp: ws_carries_def)
  then show ?thesis unfolding ws_carries_def using o assms(3)
    assms(6) [unfolded ws_carries_def]
    by (intro conjI exI [of _ "ms @ handed fx"] exI [of _ "fs' @ fs"]) (simp_all add: list_all2_appendI)
qed

lemma flush_puts: "flushSendBuffer q r c = (c', fx, e) \<Longrightarrow> http_octets fx = [] \<and> delivered fx = [] \<and> wsstate c' = wsstate c \<and>
    wstate c' = wstate c \<and> client_key c' = client_key c"
proof -
  have "http_octets (map (\<lambda>(i, b). if q i = 0 then Queued b else Refused b) (enumerate n bs)) = [] \<and>
    delivered (map (\<lambda>(i, b). if q i = 0 then Queued b else Refused b) (enumerate n bs)) = []" for n bs
    by (induction bs arbitrary: n) simp_all
  then show "flushSendBuffer q r c = (c', fx, e) \<Longrightarrow> ?thesis"
    by (auto simp: flushSendBuffer_def ws_startWriteHandler_def Let_def split: if_splits)
qed

lemma delivered_frames: "delivered (concat (map wslay_msg_rcv_callback (map BinaryFrame ms))) = ms"
  by (induction ms) simp_all

lemma messages_put_nothing: "http_octets (concat (map wslay_msg_rcv_callback ms)) = []"
proof (induction ms)
  case (Cons m ms)
  then show ?case by (cases m) simp_all
qed simp


section \<open>Frames on the way\<close>

text \<open>An end in WebSocket mode.\<close>

lemma timer_keeps: "ws_timer c = (c', fx, e) \<Longrightarrow> \<forall>fd. WsClosed fd \<notin> set fx \<Longrightarrow> c' = c\<lparr>wtimer_armed := False\<rparr>"
  by (cases "wstate c = INPROGRESS") (auto simp: ws_timer_def Let_def)

lemma ws_mode: "ws_ok c \<Longrightarrow> wsstate c = WS \<Longrightarrow> wstate c = ESTABLISHED \<and> ctx c \<and> headers c = [] \<and> wqueue c = [] \<and> 0 \<le> wfd c"
  by (auto simp: ws_ok_def split: if_splits)

lemma ws_mode_step:
  assumes "ws_link_step lib makes parse opener a b a' b'" and "framing_ok makes parse"
    and "wsstate (wconn a) = WS" and "ws_ok (wconn a)" and "ws_carries makes parse a b" and "ws_carries makes parse b a"
  shows "ws_ok (wconn a') \<and> wsstate (wconn a') = WS \<and> wconn b' = wconn b \<and> ws_carries makes parse a' b' \<and> ws_carries makes parse b' a'"
  using assms(1)
proof cases
  case (ws_sends fd p q r m c fx e)
  note mode = ws_mode [OF assms(4,3)]
  have step: "flushSendBuffer q r ((wconn a)\<lparr>wqueue := [m]\<rparr>) = (c, fx, e)" using ws_sends(3) mode by (simp add: ws_send_def)
  note fl = flush_puts [OF step]
  have ok: "ws_ok c" using ws_send_ok [OF ws_sends(3,4,5) assms(4)] .
  then have "handed fx = [m]" using ws_send_handed [OF ws_sends(3)] mode fl assms(3) ws_mode [of c] by simp
  then have "ws_carries makes parse a' b" using fl by (intro puts_out_carries [OF ws_sends(6) _ _ _ _ assms(5)]) simp_all
  then show ?thesis using puts_out_same [OF ws_sends(6)] ok fl assms(3,6) ws_sends(1) by (simp add: ws_carries_def)
next
  case (ws_writes local key rnd n r c fx)
  have c: "c = wconn a \<or> c = ws_stopWriteHandler (wconn a)" "fx = []"
    using ws_writes(5) ws_mode [OF assms(4,3)] assms(3) by (auto simp: ws_canWrite_def Let_def split: if_splits)
  have "ws_carries makes parse a' b" using c by (intro puts_out_carries [OF ws_writes(6) _ _ _ _ assms(5)]) simp_all
  then show ?thesis using puts_out_same [OF ws_writes(6)] c ws_canWrite_ok [OF ws_writes(5) assms(4)] assms(3,6) ws_writes(1)
    by (auto simp: ws_carries_def ws_stopWriteHandler_def)
next
  case (ws_reads piece rest h msgs part c fx)
  have c: "c = wconn a" "fx = concat (map wslay_msg_rcv_callback msgs)"
    using ws_reads(10) ws_mode [OF assms(4,3)] assms(3) by (simp_all add: ws_canRead_def)
  obtain ms fs where b: "wasked b = wgot a @ ms" "list_all2 makes ms fs" "concat fs = (unused a @ piece) @ rest @ unwritten b"
    using assms(6) ws_reads(4) by (auto simp: ws_carries_def)
  have "takes_off parse (unused a @ piece) msgs part" using ws_reads(9) assms(3) by simp
  from takes_off_frames [OF this assms(2) b(2,3)] obtain now later fs' where
    t: "ms = now @ later" "msgs = map BinaryFrame now" "list_all2 makes later fs'" "concat fs' = part @ rest @ unwritten b" by blast
  have fx: "delivered fx = now" "http_octets fx = []" "handed fx = []"
    unfolding c(2) t(2) by (simp_all add: delivered_frames messages_put_nothing del: map_map)
  have "ws_carries makes parse a' (b\<lparr>wwire := rest\<rparr>)"
    using fx assms(5) by (intro puts_out_carries [OF ws_reads(11), of a]) (auto simp: ws_carries_def)
  moreover have "ws_carries makes parse (b\<lparr>wwire := rest\<rparr>) a'"
    unfolding ws_carries_def
    using puts_out_same [OF ws_reads(11)] fx(1) b(1) t(1,3,4) takes_off_rest [OF \<open>takes_off parse (unused a @ piece) msgs part\<close>]
    by (intro conjI exI [of _ later] exI [of _ fs']) simp_all
  ultimately show ?thesis using puts_out_same [OF ws_reads(11)] c(1) assms(3,4) ws_reads(1) by simp
next
  case (ws_fires c fx e)
  then show ?thesis using ws_timer_ok [OF ws_fires(4) assms(4)] timer_keeps [OF ws_fires(4,5)] assms(3,5,6)
    by (simp add: ws_carries_def)
qed


section \<open>The handshake\<close>

lemma reads_nothing:
  "wsstate c \<noteq> WS \<Longrightarrow> search (crlf @ crlf) (headers c) = None \<Longrightarrow> ws_canRead h (HttpGot []) ms c = (c, [], None)"
  using canRead_gathers [of c "[]" h ms] by simp

text \<open>A client that has not sent its request, and one that waits for the reply.\<close>

lemma client_calls:
  assumes "ws_link_step lib makes parse True a b a' b'" and "\<And>s. 13 \<notin> set (base64 lib s)"
    and "ws_ok (wconn a)" and "waiting_client a" and "headers (wconn a) = []" and "wwire a = []"
    and "wwrite_active (wconn a) \<Longrightarrow> wstate (wconn a) = INPROGRESS" and "waiting_server b" and "headers (wconn b) = []"
  shows "ws_ok (wconn a') \<and> wconn b' = wconn b \<and> ws_phase lib makes parse a' b'"
  using assms(1)
proof cases
  case (ws_sends fd p q r m c fx e)
  note w = assms(4) [unfolded waiting_client_def ws_silent_def]
  have noctx: "\<not> ctx (wconn a)" using assms(3) w by (simp add: ws_ok_def)
  then have c: "wsstate c = HTTP_CLIENT" "headers c = []" "wwrite_active c \<longrightarrow> wstate c = INPROGRESS"
      "wqueue c = wqueue (wconn a) @ [m]" "fx = []"
    using ws_sends(3,4) w assms(5,7)
    by (cases "wstate (wconn a)"; auto simp: ws_send_def ws_up_def flushSendBuffer_def defined_def ws_handler_simps Let_def
        split: if_splits)+
  have a': "a' = a\<lparr>wconn := c, wasked := wasked a @ [m]\<rparr>"
    using puts_out_nothing [OF ws_sends(6)] c(5) w assms(6) by simp
  have "waiting_client a'" using c(1,4) w by (simp add: a' waiting_client_def ws_silent_def)
  then have "ws_phase lib makes parse a' b"
    using calling [where a = a' and b = b] c(2,3) assms(6,8,9) by (simp add: a')
  then show ?thesis using ws_send_ok [OF ws_sends(3-5) assms(3)] ws_sends(1) by (simp add: a')
next
  case (ws_writes local key rnd n r c fx)
  note w = assms(4) [unfolded waiting_client_def ws_silent_def]
  have c: "c = (ws_stopWriteHandler ((wconn a)\<lparr>wstate := ESTABLISHED\<rparr>))\<lparr>client_key := key\<rparr>" "fx = [HttpSent (http_request local key)]"
    using ws_writes(5) w assms(7) ws_writes(2)
    by (auto simp: ws_canWrite_def httpClientSend_def http_sent_def Let_def split: if_splits)
  have a': "a' = a\<lparr>wconn := c, wwire := http_request local key\<rparr>"
    using puts_out_nothing [OF ws_writes(6)] c(2) w assms(6) by simp
  have "client_asked a'" using w unfolding a' client_asked_def waiting_client_def ws_silent_def c(1)
    by (simp add: ws_stopWriteHandler_def)
  moreover have "headers (wconn a') = []" "client_key (wconn a') = key"
    using assms(5) unfolding a' c(1) by (simp_all add: ws_stopWriteHandler_def)
  ultimately have "ws_phase lib makes parse a' b"
    using asking [where a = a' and b = b and local = local and rnd = rnd] assms(8,9) ws_writes(3,4)
    by (simp add: a' http_request_def)
  then show ?thesis using ws_canWrite_ok [OF ws_writes(5) assms(3)] ws_writes(1) by (simp add: a')
next
  case (ws_reads piece rest h msgs part c fx)
  note w = assms(4) [unfolded waiting_client_def ws_silent_def] and s = assms(8) [unfolded waiting_server_def]
  have "piece = []" "rest = []" using s ws_reads(4) by simp_all
  then have "c = wconn a" "fx = []" "b' = b"
    using ws_reads(1,10) w assms(5) s reads_nothing [of "wconn a" h msgs] nothing_found by simp_all
  moreover have "a' = a" using puts_out_nothing [OF ws_reads(11)] \<open>fx = []\<close> \<open>c = wconn a\<close> ws_reads(9) w assms(6) by simp
  ultimately show ?thesis using calling [where a = a and b = b] assms(3-9) by simp
next
  case (ws_fires c fx e)
  note w = assms(4) [unfolded waiting_client_def ws_silent_def]
  have c: "c = (wconn a)\<lparr>wtimer_armed := False\<rparr>" by (rule timer_keeps [OF ws_fires(4,5)])
  have "ws_phase lib makes parse a' b"
    using w assms(5-9) by (intro calling) (simp_all add: ws_fires(1,2) c waiting_client_def ws_silent_def)
  then show ?thesis using ws_timer_ok [OF ws_fires(4) assms(3)] ws_fires(1,2) by simp
qed


lemma client_waits:
  assumes "ws_link_step lib makes parse True a b a' b'" and "ws_ok (wconn a)" and "client_asked a"
  shows "(b' = b \<and> ws_ok (wconn a') \<and> client_asked a' \<and> headers (wconn a') = headers (wconn a) \<and>
      client_key (wconn a') = client_key (wconn a) \<and> wwire a' = wwire a) \<or>
    (\<exists>piece rest h c fx. wwire b = piece @ rest \<and> length piece \<le> 8192 \<and> sha1 h = sha1 lib \<and> base64 h = base64 lib \<and>
       context_made h \<and> ws_canRead h (HttpGot piece) [] (wconn a) = (c, fx, None) \<and> b' = b\<lparr>wwire := rest\<rparr> \<and> ws_ok c \<and>
       puts_out makes (a\<lparr>wconn := c, wgot := delivered fx\<rparr>) fx a')"
  using assms(1)
proof cases
  case (ws_sends fd p q r m c fx e)
  have "\<not> ctx (wconn a)" using assms(2,3) by (simp add: ws_ok_def client_asked_def waiting_client_def)
  then have False using ws_sends(3,4) assms(3)
    by (simp add: ws_send_def client_asked_def flushSendBuffer_def defined_def)
  then show ?thesis ..
next
  case (ws_writes local key rnd n r c fx)
  then show ?thesis using assms(3) by (simp add: client_asked_def)
next
  case (ws_reads piece rest h msgs part c fx)
  have w: "wsstate (wconn a) = HTTP_CLIENT" "ws_silent a" "wstate (wconn a) = ESTABLISHED"
    using assms(3) by (simp_all add: client_asked_def waiting_client_def)
  have "ws_ok c" using ws_canRead_ok [OF ws_reads(10) _ ws_reads(8) assms(2)] ws_reads(3) w(3) by (simp add: defined_def)
  moreover have "a\<lparr>wconn := c, unused := part, wgot := wgot a @ delivered fx\<rparr> = a\<lparr>wconn := c, wgot := delivered fx\<rparr>" "msgs = []"
    using ws_reads(9) w by (simp_all add: ws_silent_def)
  ultimately show ?thesis using ws_reads by auto
next
  case (ws_fires c fx e)
  have c: "c = (wconn a)\<lparr>wtimer_armed := False\<rparr>" by (rule timer_keeps [OF ws_fires(4,5)])
  then show ?thesis using ws_timer_ok [OF ws_fires(4) assms(2)] assms(3) ws_fires(1,2)
    by (simp add: client_asked_def waiting_client_def ws_silent_def)
qed

text \<open>A server that waits for the request reads what has come of it.\<close>

lemma server_waits:
  assumes "ws_link_step lib makes parse False b a b' a'" and "ws_ok (wconn b)" and "waiting_server b"
    and "search (crlf @ crlf) (headers (wconn b)) = None"
  shows "(a' = a \<and> ws_ok (wconn b') \<and> waiting_server b' \<and> headers (wconn b') = headers (wconn b)) \<or>
    (\<exists>piece rest h c fx. wwire a = piece @ rest \<and> length piece \<le> 8192 \<and> sha1 h = sha1 lib \<and> base64 h = base64 lib \<and>
       context_made h \<and> ws_canRead h (HttpGot piece) [] (wconn b) = (c, fx, None) \<and> a' = a\<lparr>wwire := rest\<rparr> \<and> ws_ok c \<and>
       puts_out makes (b\<lparr>wconn := c, wgot := delivered fx\<rparr>) fx b')"
  using assms(1)
proof cases
  case (ws_sends fd p q r m c fx e)
  then show ?thesis using assms(3) by (simp add: waiting_server_def ws_silent_def)
next
  case (ws_writes local key rnd n r c fx)
  have "wstate (wconn b) = ESTABLISHED" using assms(2,3) by (auto simp: ws_ok_def waiting_server_def)
  then have "c = wconn b" "fx = []" using ws_writes(5) assms(3) by (simp_all add: ws_canWrite_def waiting_server_def)
  then have "b' = b" using puts_out_nothing [OF ws_writes(6)] assms(3) by (simp add: waiting_server_def ws_silent_def)
  then show ?thesis using assms(2,3) ws_writes(1) by simp
next
  case (ws_reads piece rest h msgs part c fx)
  have s: "wsstate (wconn b) = HTTP_SERVER" "ws_silent b" using assms(3) by (simp_all add: waiting_server_def)
  have "wstate (wconn b) = ESTABLISHED" using assms(2) s by (auto simp: ws_ok_def)
  then have "ws_ok c" using ws_canRead_ok [OF ws_reads(10) _ ws_reads(8) assms(2)] ws_reads(3) by (simp add: defined_def)
  moreover have "b\<lparr>wconn := c, unused := part, wgot := wgot b @ delivered fx\<rparr> = b\<lparr>wconn := c, wgot := delivered fx\<rparr>" "msgs = []"
    using ws_reads(9) s by (simp_all add: ws_silent_def)
  ultimately show ?thesis using ws_reads by auto
next
  case (ws_fires c fx e)
  have c: "c = (wconn b)\<lparr>wtimer_armed := False\<rparr>" by (rule timer_keeps [OF ws_fires(4,5)])
  then show ?thesis using ws_timer_ok [OF ws_fires(4) assms(2)] assms(3) ws_fires(1,2)
    by (simp add: waiting_server_def ws_silent_def)
qed


lemma server_answers:
  assumes "ws_link_step lib makes parse False b a b' a'" and "\<And>s. 13 \<notin> set (base64 lib s)" and "ws_ok (wconn b)"
    and "client_asked a" and "headers (wconn a) = []" and "waiting_server b" and "plain_host local"
    and "client_key (wconn a) = create_clientkey lib rnd"
    and "headers (wconn b) @ wwire a = http_request local (client_key (wconn a))" and "wwire a \<noteq> []"
  shows "ws_ok (wconn b') \<and> wconn a' = wconn a \<and> ws_phase lib makes parse a' b'"
proof -
  let ?key = "client_key (wconn a)"
  have key: "13 \<notin> set ?key" by (simp add: assms(2,8) create_clientkey_def)
  have four: "length (crlf @ crlf) = 4" by (simp add: crlf_def)
  have part: "search (crlf @ crlf) (headers (wconn b) @ p) = None" if "wwire a = p @ q" "q \<noteq> []" for p q
  proof (rule search_incomplete [OF _ that(2)])
    have "(headers (wconn b) @ p) @ q = http_request local ?key" using assms(9) that(1) by simp
    then show "search (crlf @ crlf) ((headers (wconn b) @ p) @ q) = Some (length ((headers (wconn b) @ p) @ q) - length (crlf @ crlf))"
      by (simp only: request_end [OF assms(7) key] four)
  qed
  note s = assms(6) [unfolded waiting_server_def ws_silent_def]
  from part [of "[]"] assms(10) have "search (crlf @ crlf) (headers (wconn b)) = None" by simp
  from server_waits [OF assms(1,3,6) this] consider
      (same) "a' = a" "ws_ok (wconn b')" "waiting_server b'" "headers (wconn b') = headers (wconn b)"
    | (read) piece rest h c fx where "wwire a = piece @ rest" "length piece \<le> 8192" "sha1 h = sha1 lib" "base64 h = base64 lib"
      "context_made h" "ws_canRead h (HttpGot piece) [] (wconn b) = (c, fx, None)" "a' = a\<lparr>wwire := rest\<rparr>" "ws_ok c"
      "puts_out makes (b\<lparr>wconn := c, wgot := delivered fx\<rparr>) fx b'" by blast
  then show ?thesis
  proof cases
    case same
    then show ?thesis using asking [OF assms(4,5) same(3) assms(7,8) _ assms(10)] assms(9) by simp
  next
    case read
    have asked: "client_asked (a\<lparr>wwire := rest\<rparr>)" using assms(4) by (simp add: client_asked_def waiting_client_def ws_silent_def)
    show ?thesis
    proof (cases "rest = []")
      case False
      then have c: "c = (wconn b)\<lparr>headers := headers (wconn b) @ piece\<rparr>" "fx = []"
        using canRead_gathers [of "wconn b" piece h "[]"] part [OF read(1)] read(2,6) s by simp_all
      then have b': "b' = b\<lparr>wconn := c\<rparr>" using puts_out_nothing [OF read(9)] s by simp
      have "waiting_server b'" using s by (simp add: b' c(1) waiting_server_def ws_silent_def)
      from asking [OF asked _ this assms(7), of lib rnd makes] show ?thesis
        using assms(5,8,9) False read(1,7,8) by (simp add: b' c(1))
    next
      case True
      have "create_acceptkey h ?key = create_acceptkey lib ?key" using read(3,4) by (simp add: create_acceptkey_def)
      then have c: "c = (wconn b)\<lparr>headers := [], wsstate := WS, ctx := True\<rparr>"
          "fx = http_sent (reply_sent h) (http_reply (create_acceptkey lib ?key))"
        using server_completes [OF assms(7) key _ _ read(2), of "wconn b" h] s read(1,5,6) assms(9) True by simp_all
      obtain n where "http_octets fx = take n (http_reply (create_acceptkey lib ?key))" "delivered fx = []"
        using c(2) by (cases "reply_sent h < 0") (auto simp: http_sent_def intro: that [of 0])
      moreover from this have b': "b' = b\<lparr>wconn := c, wwire := http_octets fx\<rparr>"
        using puts_out_nothing [OF read(9)] s c(2) by simp
      ultimately show ?thesis
        using answered [OF asked, of b' _ lib makes, where lost = "drop n (http_reply (create_acceptkey lib ?key))"]
          True s read(7,8) assms(5) nothing_found by (simp add: c(1) ws_silent_def)
    qed
  qed
qed

lemma client_understands:
  assumes "framing_ok makes parse" and "ws_link_step lib makes parse True a b a' b'" and "\<And>s. 13 \<notin> set (base64 lib s)" and "ws_ok (wconn a)"
    and "client_asked a" and "wwire a = []" and "ws_silent b" and "wasked b = []" and "wsstate (wconn b) = WS"
    and "headers (wconn a) @ wwire b @ lost = http_reply (create_acceptkey lib (client_key (wconn a)))"
    and "search (crlf @ crlf) (headers (wconn a)) = None"
  shows "ws_ok (wconn a') \<and> wconn b' = wconn b \<and> ws_phase lib makes parse a' b'"
  using client_waits [OF assms(2,4,5)]
proof (elim disjE exE conjE)
  assume "b' = b" "ws_ok (wconn a')" "client_asked a'" "headers (wconn a') = headers (wconn a)"
    "client_key (wconn a') = client_key (wconn a)" "wwire a' = wwire a"
  then show ?thesis using answered [where a = a' and b = b and lib = lib and lost = lost and makes = makes] assms(6-11) by simp
next
  fix piece rest h c fx
  assume read: "wwire b = piece @ rest" "length piece \<le> 8192" "sha1 h = sha1 lib" "base64 h = base64 lib" "context_made h"
    "ws_canRead h (HttpGot piece) [] (wconn a) = (c, fx, None)" "b' = b\<lparr>wwire := rest\<rparr>" "ws_ok c"
    and puts: "puts_out makes (a\<lparr>wconn := c, wgot := delivered fx\<rparr>) fx a'"
  let ?key = "client_key (wconn a)"
  note w = assms(5) [unfolded client_asked_def waiting_client_def ws_silent_def] and s = assms(7) [unfolded ws_silent_def]
  have keys: "create_acceptkey h ?key = create_acceptkey lib ?key" "13 \<notin> set (create_acceptkey lib ?key)"
    using read(3,4) assms(3) by (simp_all add: create_acceptkey_def)
  have four: "length (crlf @ crlf) = 4" by (simp add: crlf_def)
  have whole: "(headers (wconn a) @ piece) @ rest @ lost = http_reply (create_acceptkey lib ?key)"
    using assms(10) read(1) by simp
  show ?thesis
  proof (cases "rest @ lost = []")
    case False
    have none: "search (crlf @ crlf) (headers (wconn a) @ piece) = None"
      by (rule search_incomplete [OF _ False]) (simp only: whole reply_end [OF keys(2)] four)
    then have c: "c = (wconn a)\<lparr>headers := headers (wconn a) @ piece\<rparr>" "fx = []"
      using canRead_gathers [of "wconn a" piece h "[]"] read(2,6) w by simp_all
    have a': "a' = a\<lparr>wconn := c\<rparr>" using puts_out_nothing [OF puts] c(2) w by simp
    have "client_asked a'" using w by (simp add: a' c(1) client_asked_def waiting_client_def ws_silent_def)
    from answered [OF this, where b = b' and lib = lib and lost = lost and makes = makes] show ?thesis
      using none whole read(7,8) assms(6-9) by (simp add: a' c(1) ws_silent_def)
  next
    case True
    have r: "startWSMode (queue_answer h) (send_answer h) ((wconn a)\<lparr>ctx := True\<rparr>) = (c, fx, None)"
      using client_completes [of h "wconn a" piece] keys w read(2,5,6) whole True by simp
    note fl = flush_puts [OF r [unfolded startWSMode_def]]
    have mode: "wsstate c = WS" using fl by simp
    then have "handed fx = wasked a" using startWSMode_handed [OF r] ws_mode [OF read(8)] w by simp
    then have "ws_carries makes parse a' (b\<lparr>wwire := []\<rparr>)"
      using fl assms(6) w s by (intro puts_out_carries [OF puts, of "a\<lparr>wasked := []\<rparr>"]) (simp_all add: ws_carries_def framing_laws(3) [OF assms(1)])
    moreover have "ws_carries makes parse (b\<lparr>wwire := []\<rparr>) a'"
      using puts_out_same [OF puts] fl w s assms(8) by (simp add: ws_carries_def framing_laws(3) [OF assms(1)])
    ultimately show ?thesis
      using talking [where a = a' and b = b' and makes = makes and lib = lib] puts_out_same [OF puts] mode True read(7,8) assms(9)
      by simp
  qed
qed

section \<open>The invariant\<close>

definition ws_linked :: "handshake \<Rightarrow> (bytes \<Rightarrow> bytes \<Rightarrow> bool) \<Rightarrow> (bytes \<Rightarrow> (ws_message \<times> bytes) option) \<Rightarrow>
    ws_endpoint \<Rightarrow> ws_endpoint \<Rightarrow> bool" where
  "ws_linked lib makes parse a b \<longleftrightarrow> ws_ok (wconn a) \<and> ws_ok (wconn b) \<and> ws_phase lib makes parse a b"

lemma opener_step:
  assumes "ws_link_step lib makes parse True a b a' b'" and "framing_ok makes parse" and "\<And>s. 13 \<notin> set (base64 lib s)"
    and "ws_linked lib makes parse a b"
  shows "ws_linked lib makes parse a' b'"
proof -
  have ok: "ws_ok (wconn a)" "ws_ok (wconn b)" using assms(4) by (simp_all add: ws_linked_def)
  have "ws_phase lib makes parse a b" using assms(4) by (simp add: ws_linked_def)
  then have "ws_ok (wconn a') \<and> wconn b' = wconn b \<and> ws_phase lib makes parse a' b'"
  proof cases
    case calling
    then show ?thesis using client_calls [OF assms(1,3) ok(1)] by blast
  next
    case (asking local rnd)
    show ?thesis using client_waits [OF assms(1) ok(1) asking(1)]
    proof (elim disjE exE conjE)
      assume "b' = b" "ws_ok (wconn a')" "client_asked a'" "headers (wconn a') = headers (wconn a)"
        "client_key (wconn a') = client_key (wconn a)" "wwire a' = wwire a"
      then show ?thesis using ws_phase.asking [where a = a' and b = b and local = local and rnd = rnd] asking by simp
    next
      fix piece rest h c fx
      assume read: "wwire b = piece @ rest" "ws_canRead h (HttpGot piece) [] (wconn a) = (c, fx, None)" "b' = b\<lparr>wwire := rest\<rparr>"
        and puts: "puts_out makes (a\<lparr>wconn := c, wgot := delivered fx\<rparr>) fx a'"
      have e: "piece = []" "rest = []" "b' = b" using read(1,3) asking(3) by (simp_all add: waiting_server_def)
      have w: "wsstate (wconn a) = HTTP_CLIENT" "ws_silent a" using asking(1) by (simp_all add: client_asked_def waiting_client_def)
      then have "c = wconn a" "fx = []"
        using reads_nothing [of "wconn a" h "[]"] read(2) nothing_found by (simp_all add: e(1) asking(2))
      then have "a' = a" using puts_out_nothing [OF puts] w by (simp add: ws_silent_def)
      then show ?thesis using \<open>ws_phase lib makes parse a b\<close> ok e(3) by simp
    qed
  next
    case (answered lost)
    then show ?thesis using client_understands [OF assms(2,1,3) ok(1)] by blast
  next
    case talking
    then show ?thesis using ws_mode_step [OF assms(1,2) _ ok(1)] ws_phase.talking by metis
  qed
  then show ?thesis using ok(2) by (simp add: ws_linked_def)
qed


lemma server_silent:
  assumes "ws_link_step lib makes parse False b a b' a'" and "framing_ok makes parse" and "ws_ok (wconn b)"
    and "ws_silent b" and "wsstate (wconn b) = WS" and "wwire a = []"
  shows "a' = a \<and> ws_ok (wconn b') \<and> wsstate (wconn b') = WS \<and> ws_silent b' \<and> wasked b' = wasked b \<and> wwire b' = wwire b"
  using assms(1)
proof cases
  case (ws_sends fd p q r m c fx e)
  then show ?thesis using assms(4) by (simp add: ws_silent_def)
next
  case (ws_writes local key rnd n r c fx)
  have c: "c = wconn b \<or> c = ws_stopWriteHandler (wconn b)" "fx = []"
    using ws_writes(5) ws_mode [OF assms(3,5)] assms(5) by (auto simp: ws_canWrite_def Let_def split: if_splits)
  have "b' = b\<lparr>wconn := c\<rparr>" using puts_out_nothing [OF ws_writes(6)] c(2) assms(4) by (simp add: ws_silent_def)
  then show ?thesis using c ws_canWrite_ok [OF ws_writes(5) assms(3)] ws_writes(1) assms(4,5)
    by (auto simp: ws_silent_def ws_stopWriteHandler_def)
next
  case (ws_reads piece rest h msgs part c fx)
  have e: "piece = []" "rest = []" "a' = a" using ws_reads(1,4) assms(6) by simp_all
  have "msgs = []" "part = []" using ws_reads(9) nothing_taken_off [of parse msgs part] assms(2,4,5) e by (simp_all add: ws_silent_def)
  moreover from this have "c = wconn b" "fx = []" using ws_reads(10) ws_mode [OF assms(3,5)] assms(5) by (simp_all add: ws_canRead_def)
  ultimately have "b' = b" using puts_out_nothing [OF ws_reads(11)] assms(4) by (simp add: ws_silent_def)
  then show ?thesis using e(3) assms(3-5) by simp
next
  case (ws_fires c fx e)
  have c: "c = (wconn b)\<lparr>wtimer_armed := False\<rparr>" by (rule timer_keeps [OF ws_fires(4,5)])
  then show ?thesis using ws_timer_ok [OF ws_fires(4) assms(3)] assms(4,5) ws_fires(1,2) by (simp add: ws_silent_def)
qed

lemma acceptor_step:
  assumes "ws_link_step lib makes parse False b a b' a'" and "framing_ok makes parse" and "\<And>s. 13 \<notin> set (base64 lib s)"
    and "ws_linked lib makes parse a b"
  shows "ws_linked lib makes parse a' b'"
proof -
  have ok: "ws_ok (wconn a)" "ws_ok (wconn b)" using assms(4) by (simp_all add: ws_linked_def)
  have "ws_phase lib makes parse a b" using assms(4) by (simp add: ws_linked_def)
  then have "ws_ok (wconn b') \<and> wconn a' = wconn a \<and> ws_phase lib makes parse a' b'"
  proof cases
    case calling
    have none: "search (crlf @ crlf) (headers (wconn b)) = None" using calling(6) nothing_found by simp
    show ?thesis using server_waits [OF assms(1) ok(2) calling(5) none]
    proof (elim disjE exE conjE)
      assume "a' = a" "ws_ok (wconn b')" "waiting_server b'" "headers (wconn b') = headers (wconn b)"
      then show ?thesis using ws_phase.calling [where a = a and b = b'] calling by simp
    next
      fix piece rest h c fx
      assume read: "wwire a = piece @ rest" "ws_canRead h (HttpGot piece) [] (wconn b) = (c, fx, None)" "a' = a\<lparr>wwire := rest\<rparr>"
        and puts: "puts_out makes (b\<lparr>wconn := c, wgot := delivered fx\<rparr>) fx b'"
      have e: "piece = []" "rest = []" "a' = a" using read(1,3) calling(4) by simp_all
      have w: "wsstate (wconn b) = HTTP_SERVER" "ws_silent b" using calling(5) by (simp_all add: waiting_server_def)
      then have "c = wconn b" "fx = []" using reads_nothing [of "wconn b" h "[]"] read(2) none by (simp_all add: e(1))
      then have "b' = b" using puts_out_nothing [OF puts] w by (simp add: ws_silent_def)
      then show ?thesis using \<open>ws_phase lib makes parse a b\<close> ok e(3) by simp
    qed
  next
    case (asking local rnd)
    then show ?thesis using server_answers [OF assms(1,3) ok(2)] by blast
  next
    case (answered lost)
    then show ?thesis
      using server_silent [OF assms(1,2) ok(2)] ws_phase.answered [where a = a and b = b' and lib = lib and lost = lost] by simp
  next
    case talking
    then show ?thesis using ws_mode_step [OF assms(1,2) _ ok(2)] ws_phase.talking by metis
  qed
  then show ?thesis using ok(1) by (simp add: ws_linked_def)
qed

lemma ws_link_linked:
  "ws_link lib makes parse a b \<Longrightarrow> framing_ok makes parse \<Longrightarrow> (\<And>s. 13 \<notin> set (base64 lib s)) \<Longrightarrow> ws_linked lib makes parse a b"
proof (induction rule: ws_link.induct)
  case (ws_connect fd c)
  have c: "c = (ws_init HTTP_SERVER)\<lparr>wfd := fd, wread_active := True, wstate := ESTABLISHED\<rparr>"
    using ws_connect(2) by (simp add: ws_connectIncoming_def ws_accept_def ws_init_def ws_handler_simps Let_def)
  show ?case
    using ws_connect(1) unfolding ws_linked_def c
    by (auto intro!: calling simp: ws_ok_def ws_connectOutgoing_def ws_endpoint_init_def ws_init_def waiting_client_def
        waiting_server_def ws_silent_def)
qed (blast intro: opener_step acceptor_step)+

text \<open>What has arrived is a beginning of what was sent, and all of it when nothing is queued or on its way.\<close>

lemma ws_carries_messages:
  assumes "ws_carries makes parse a b" and "framing_ok makes parse"
  shows "prefix (wgot b) (wasked a) \<and> (wwire a = [] \<and> unwritten a = [] \<longrightarrow> wgot b = wasked a)"
  using assms no_frames by (fastforce simp: ws_carries_def)

lemma ws_messages:
  assumes "ws_link lib makes parse a b" and "framing_ok makes parse" and "\<And>s. 13 \<notin> set (base64 lib s)"
  shows "prefix (wgot b) (wasked a) \<and> prefix (wgot a) (wasked b) \<and>
    (wqueue (wconn a) = [] \<and> unwritten a = [] \<and> wwire a = [] \<longrightarrow> wgot b = wasked a) \<and>
    (wqueue (wconn b) = [] \<and> unwritten b = [] \<and> wwire b = [] \<longrightarrow> wgot a = wasked b)"
proof -
  have "ws_phase lib makes parse a b" using ws_link_linked [OF assms] by (simp add: ws_linked_def)
  then show ?thesis
  proof cases
    case talking
    then show ?thesis using ws_carries_messages [OF _ assms(2)] by blast
  qed (simp_all add: client_asked_def waiting_client_def waiting_server_def ws_silent_def)
qed

text \<open>C18. A WebSocket connection carries messages both ways. Whatever the order in which the handlers of both
  ends run and however the octets of the handshake and of the frames are cut up on the way, each ORB gets a prefix
  of the messages the other one has sent, whole and in order, those included that were sent before the
  handshake; and if nothing waits at the sender and nothing is on the way any more it has got all of them. (The
  rest of a frame may also wait at the sender until it sends again.) It is enough that
  the end which has accepted the connection sends nothing before it has got a message; then nothing can follow the
  reply of the handshake that would be thrown away with it. Of wslay it is asked that its frames are whole and
  can be told apart, of base64 that it makes no line ends.\<close>

theorem websocket_link_delivers:
  assumes "ws_link lib makes parse a b" and "framing_ok makes parse" and "\<And>s. 13 \<notin> set (base64 lib s)"
  shows "prefix (wgot b) (wasked a) \<and> prefix (wgot a) (wasked b) \<and>
    (wqueue (wconn a) = [] \<and> unwritten a = [] \<and> wwire a = [] \<longrightarrow> wgot b = wasked a) \<and>
    (wqueue (wconn b) = [] \<and> unwritten b = [] \<and> wwire b = [] \<longrightarrow> wgot a = wasked b)"
  by (rule ws_messages [OF assms])

section \<open>A message each way\<close>

text \<open>The handshake in two pieces, then a message and its answer.\<close>

lemma sample_texts: "length (http_request sample_listen sample_key) \<le> 8192" "length (http_reply sample_accept) \<le> 8192"
  by (simp_all add: http_request_def http_reply_def sample_listen_def sample_key_def sample_accept_def
      create_clientkey_def sample_handshake_def sample_base64_def crlf_def show_decimal.simps)

lemma sample_accepts: "create_acceptkey sample_handshake sample_key = sample_accept" "13 \<notin> set sample_accept"
  using sample_plain(3) [of sample_key] by (simp_all add: sample_plain(5))

definition sample_server :: ws where
  "sample_server = fst (ws_connectIncoming 8)"

lemma sample_server_simps: "ws_connectIncoming 8 = (sample_server, [], None)" "wread_active sample_server" "wfd sample_server = 8"
    "wsstate sample_server = HTTP_SERVER" "wqueue sample_server = []" "headers sample_server = []" "\<not> ctx sample_server"
    "wstate sample_server = ESTABLISHED"
  by (simp_all add: sample_server_def ws_connectIncoming_def ws_accept_def ws_init_def ws_handler_simps Let_def)

lemma puts_out_all:
  "list_all2 makes (handed fx) fs \<Longrightarrow> \<forall>m. Refused m \<notin> set fx \<Longrightarrow> unwritten a = [] \<Longrightarrow>
   puts_out makes a fx (a\<lparr>wwire := wwire a @ http_octets fx @ concat fs\<rparr>)"
  unfolding puts_out_def by (intro conjI exI [of _ fs] exI [of _ "concat fs"] exI [of _ "[]"]) simp_all

lemma takes_off_one: "framing_ok makes parse \<Longrightarrow> makes m f \<Longrightarrow> takes_off parse f [BinaryFrame m] []"
  using framing_laws(1) [of makes parse m f "[]"] framing_laws(3) [of makes parse]
  by (intro complete [where s' = "[]"] incomplete) simp_all

lemma ws_handshake_steps:
  assumes "framing_ok makes parse" and "makes m f"
  obtains a1 a2 a3 a b1 b where "ws_link_step sample_handshake makes parse True (ws_endpoint_init ws_connectOutgoing)
        (ws_endpoint_init sample_server) a1 (ws_endpoint_init sample_server)" "wasked a1 = [m]"
    and "ws_link_step sample_handshake makes parse True a1 (ws_endpoint_init sample_server) a2 (ws_endpoint_init sample_server)"
      "wasked a2 = [m]"
    and "ws_link_step sample_handshake makes parse False (ws_endpoint_init sample_server) a2 b1 a3" "wasked a3 = [m]" "wasked b1 = []"
    and "ws_link_step sample_handshake makes parse True a3 b1 a b" "wasked a = [m]" "wasked b = []" "wgot a = []" "wgot b = []"
      "wsstate (wconn a) = WS" "wsstate (wconn b) = WS" "wread_active (wconn a)" "wread_active (wconn b)"
      "unwritten a = []" "unused a = []" "unwritten b = []" "unused b = []" "wwire a = f" "wwire b = []"
proof -
  let ?lib = sample_handshake and ?key = sample_key
  let ?req = "http_request sample_listen ?key" and ?rep = "http_reply sample_accept"
  let ?c1 = "fst (ws_send 7 True (\<lambda>_. 0) 0 m (ws_init HTTP_CLIENT))"
  have c1: "ws_send 7 True (\<lambda>_. 0) 0 m (ws_init HTTP_CLIENT) = (?c1, [], None)" "wsstate ?c1 = HTTP_CLIENT" "wqueue ?c1 = [m]"
      "wwrite_active ?c1" "wread_active ?c1" "wfd ?c1 = 7" "headers ?c1 = []" "\<not> ctx ?c1" "wstate ?c1 = INPROGRESS"
    by (simp_all add: ws_send_def ws_up_def ws_init_def ws_handler_simps Let_def)
  define c1 where "c1 = ?c1"
  define a0 where "a0 = ws_endpoint_init ws_connectOutgoing"
  define b0 where "b0 = ws_endpoint_init sample_server"
  define a1 where "a1 = a0\<lparr>wconn := c1, wasked := [m]\<rparr>"
  define c2 where "c2 = (ws_stopWriteHandler (c1\<lparr>wstate := ESTABLISHED\<rparr>))\<lparr>client_key := ?key\<rparr>"
  define a2 where "a2 = a1\<lparr>wconn := c2, wwire := ?req\<rparr>"
  define d1 where "d1 = sample_server\<lparr>headers := [], wsstate := WS, ctx := True\<rparr>"
  define b1 where "b1 = b0\<lparr>wconn := d1, wwire := ?rep\<rparr>"
  define c3 where "c3 = c2\<lparr>ctx := True, headers := [], wsstate := WS, wqueue := []\<rparr>"
  define a3 where "a3 = a2\<lparr>wconn := c3, wwire := f\<rparr>"
  note defs = c1_def [symmetric]
  note a = a0_def a1_def a2_def a3_def ws_endpoint_init_def and b = b0_def b1_def ws_endpoint_init_def
  have "puts_out makes a1 [] a1" using puts_out_all [of makes "[]" "[]" a1] by (simp add: a)
  then have 1: "ws_link_step ?lib makes parse True a0 b0 a1 b0"
    using c1(1) unfolding defs
    by (intro ws_sends [where m = m and c = c1 and fx = "[]" and e = None and fd = 7 and in_progress = True and q = "\<lambda>_. 0" and r = 0])
       (simp_all add: a defined_def ws_connectOutgoing_def)
  have w: "ws_canWrite sample_listen ?key (int (length ?req)) 0 c1 = (c2, [HttpSent ?req], None)"
    using c1 unfolding defs c2_def by (simp add: ws_canWrite_def httpClientSend_def http_sent_def Let_def)
  have "puts_out makes (a1\<lparr>wconn := c2\<rparr>) [HttpSent ?req] a2"
    using puts_out_all [of makes "[HttpSent ?req]" "[]" "a1\<lparr>wconn := c2\<rparr>"] by (simp add: a)
  then have 2: "ws_link_step ?lib makes parse True a1 b0 a2 b0"
    using c1(4) w sample_plain(1) unfolding defs
    by (intro ws_writes [where c = c2 and local = sample_listen and key = ?key and n = "int (length ?req)" and r = 0]) (simp_all add: a sample_key_def)
  have sent: "reply_sent ?lib = int (length ?rep)" "context_made ?lib" "queue_answer ?lib = (\<lambda>_. 0)" "send_answer ?lib = 0"
    by (simp_all add: sample_handshake_def)
  have r: "ws_canRead ?lib (HttpGot ?req) [] sample_server = (d1, [HttpSent ?rep], None)"
    using server_completes [OF sample_plain(1,4) sample_server_simps(4,5) sample_texts(1), of ?lib] sent
    by (simp add: d1_def sample_server_simps sample_accepts http_sent_def)
  have "puts_out makes (b0\<lparr>wconn := d1, unused := [], wgot := []\<rparr>) [HttpSent ?rep] b1"
    using puts_out_all [of makes "[HttpSent ?rep]" "[]" "b0\<lparr>wconn := d1\<rparr>"] by (simp add: b)
  then have 3: "ws_link_step ?lib makes parse False b0 a2 b1 (a2\<lparr>wwire := []\<rparr>)"
    using r sample_texts(1) sent(2)
    by (intro ws_reads [where piece = ?req and rest = "[]" and h = ?lib and msgs = "[]" and part = "[]" and c = d1 and fx = "[HttpSent ?rep]"])
       (simp_all add: a b sample_server_simps)
  have c2: "wsstate c2 = HTTP_CLIENT" "headers c2 = []" "client_key c2 = ?key" "wqueue c2 = [m]" "wread_active c2" "wfd c2 = 7"
    using c1 unfolding defs c2_def by (simp_all add: ws_stopWriteHandler_def)
  have "ws_canRead ?lib (HttpGot ?rep) [] c2 = startWSMode (queue_answer ?lib) (send_answer ?lib) (c2\<lparr>ctx := True\<rparr>)"
    by (rule client_completes) (simp_all add: c2 sample_accepts sample_texts sent)
  then have r: "ws_canRead ?lib (HttpGot ?rep) [] c2 = (c3, [Queued m], None)"
    using flush_queues [of "c2\<lparr>ctx := True, headers := [], wsstate := WS\<rparr>" "\<lambda>_. 0" 0] by (simp add: startWSMode_def c3_def c2 sent)
  have "puts_out makes (a2\<lparr>wwire := [], wconn := c3, unused := [], wgot := []\<rparr>) [Queued m] a3"
    using puts_out_all [of makes "[Queued m]" "[f]" "a2\<lparr>wwire := [], wconn := c3\<rparr>"] assms(2) by (simp add: a)
  then have 4: "ws_link_step ?lib makes parse True (a2\<lparr>wwire := []\<rparr>) b1 a3 (b1\<lparr>wwire := []\<rparr>)"
    using r sample_texts(2) sent(2)
    by (intro ws_reads [where piece = ?rep and rest = "[]" and h = ?lib and msgs = "[]" and part = "[]" and c = c3 and fx = "[Queued m]"])
       (simp_all add: a b c2)
  have "wsstate c3 = WS" "wread_active c3" by (simp_all add: c3_def c2)
  moreover have "wsstate d1 = WS" "wread_active d1" by (simp_all add: d1_def sample_server_simps)
  ultimately show thesis
    by (intro that [OF 1 [unfolded a0_def b0_def] _ 2 [unfolded b0_def] _ 3 [unfolded b0_def] _ _ 4]) (simp_all add: a b)
qed


text \<open>An end in WebSocket mode reads a frame, or sends a message.\<close>

lemma ws_frame_read:
  assumes "framing_ok makes parse" and "makes m f" and "length f \<le> 8192" and "wsstate (wconn a) = WS" and "ws_ok (wconn a)"
    and "wread_active (wconn a)" and "unwritten a = []" and "unused a = []" and "wwire b = f"
  shows "ws_link_step sample_handshake makes parse opener a b (a\<lparr>wgot := wgot a @ [m]\<rparr>) (b\<lparr>wwire := []\<rparr>)"
proof -
  let ?a = "a\<lparr>unused := [], wgot := wgot a @ [m]\<rparr>"
  have "puts_out makes ?a [Delivered m] ?a" using puts_out_all [of makes "[Delivered m]" "[]" ?a] assms(7) by simp
  moreover have "ws_canRead sample_handshake (HttpGot f) [BinaryFrame m] (wconn a) = (wconn a, [Delivered m], None)"
    using assms(4) ws_mode [OF assms(5,4)] by (simp add: ws_canRead_def)
  ultimately have "ws_link_step sample_handshake makes parse opener a b ?a (b\<lparr>wwire := []\<rparr>)"
    using assms(3,4,6,8,9) ws_mode [OF assms(5,4)] takes_off_one [OF assms(1,2)]
    by (intro ws_reads [where piece = f and rest = "[]" and h = sample_handshake and msgs = "[BinaryFrame m]" and part = "[]" and
        c = "wconn a" and fx = "[Delivered m]"]) (simp_all add: sample_handshake_def)
  moreover have "?a = a\<lparr>wgot := wgot a @ [m]\<rparr>" using assms(8) by simp
  ultimately show ?thesis by (simp only:)
qed

lemma ws_message_sent:
  assumes "makes m f" and "opener \<or> wgot a \<noteq> []" and "wsstate (wconn a) = WS" and "ws_ok (wconn a)" and "unwritten a = []"
  shows "ws_link_step sample_handshake makes parse opener a b (a\<lparr>wasked := wasked a @ [m], wwire := wwire a @ f\<rparr>) b"
proof -
  have "ws_send 0 False (\<lambda>_. 0) 0 m (wconn a) = (wconn a, [Queued m], None)"
    using ws_mode [OF assms(4,3)] flush_queues [of "(wconn a)\<lparr>wqueue := [m]\<rparr>" "\<lambda>_. 0" 0] by (simp add: ws_send_def)
  moreover have "puts_out makes (a\<lparr>wasked := wasked a @ [m]\<rparr>) [Queued m] (a\<lparr>wasked := wasked a @ [m], wwire := wwire a @ f\<rparr>)"
    using puts_out_all [of makes "[Queued m]" "[f]" "a\<lparr>wasked := wasked a @ [m]\<rparr>"] assms(1,5) by simp
  ultimately show ?thesis using assms(2)
    by (intro ws_sends [where m = m and c = "wconn a" and fx = "[Queued m]" and e = None and fd = 0]) (simp_all add: defined_def)
qed

lemma ws_messages_arrive:
  assumes "framing_ok makes parse" and "makes m f" and "length f \<le> 8192" and "makes m' f'" and "length f' \<le> 8192"
  shows "\<exists>a b. ws_link sample_handshake makes parse a b \<and> wasked a = [m] \<and> wasked b = [m'] \<and>
    wqueue (wconn a) = [] \<and> unwritten a = [] \<and> wwire a = [] \<and> wqueue (wconn b) = [] \<and> unwritten b = [] \<and> wwire b = []"
proof -
  have 0: "ws_link sample_handshake makes parse (ws_endpoint_init ws_connectOutgoing) (ws_endpoint_init sample_server)"
    by (rule ws_connect [of 8]) (simp_all add: sample_server_simps)
  obtain a b where l: "ws_link sample_handshake makes parse a b" "wasked a = [m]" "wasked b = []" "wgot a = []" "wgot b = []"
    "wsstate (wconn a) = WS" "wsstate (wconn b) = WS" "wread_active (wconn a)" "wread_active (wconn b)"
    "unwritten a = []" "unused a = []" "unwritten b = []" "unused b = []" "wwire a = f" "wwire b = []"
    by (rule ws_handshake_steps [OF assms(1,2)])
       (rule that [OF ws_this_end [OF ws_other_end [OF ws_this_end [OF ws_this_end [OF 0]]]]], assumption+)
  have ok: "ws_ok (wconn a)" "ws_ok (wconn b)" using ws_link_linked [OF l(1) assms(1) sample_plain(2)] by (simp_all add: ws_linked_def)
  let ?a1 = "a\<lparr>wwire := []\<rparr>" and ?b1 = "b\<lparr>wgot := [m]\<rparr>" and ?b2 = "b\<lparr>wgot := [m], wasked := [m'], wwire := f'\<rparr>"
  have "ws_link_step sample_handshake makes parse False b a ?b1 ?a1"
    using ws_frame_read [OF assms(1-3) l(7) ok(2) l(9,12,13,14), of False] l(5) by simp
  note 1 = ws_other_end [OF l(1) this]
  have "ws_link_step sample_handshake makes parse False ?b1 ?a1 ?b2 ?a1"
    using ws_message_sent [where makes = makes and m = m' and f = f' and opener = False and a = ?b1 and b = ?a1 and parse = parse]
      assms(4) l ok by simp
  note 2 = ws_other_end [OF 1 this]
  have "ws_link_step sample_handshake makes parse True ?a1 ?b2 (?a1\<lparr>wgot := [m']\<rparr>) (?b2\<lparr>wwire := []\<rparr>)"
    using ws_frame_read [OF assms(1,4,5), of ?a1 ?b2 True] l ok by simp
  note 3 = ws_this_end [OF 2 this]
  show ?thesis
    using 3 l ws_mode [OF ok(1) l(6)] ws_mode [OF ok(2) l(7)]
    by (intro exI [of _ "?a1\<lparr>wgot := [m']\<rparr>"] exI [of _ "?b2\<lparr>wwire := []\<rparr>"]) simp
qed

text \<open>Frames as wslay makes them with a length of two octets and without a mask.\<close>

definition sample_makes :: "bytes \<Rightarrow> bytes \<Rightarrow> bool" where
  "sample_makes m f \<longleftrightarrow> length m < 65536 \<and> f = 0x82 # 126 # of_nat (length m div 256) # of_nat (length m mod 256) # m"

fun sample_parse :: "bytes \<Rightarrow> (ws_message \<times> bytes) option" where
  "sample_parse (opcode # kind # hi # lo # s) =
     (let n = unat hi * 256 + unat lo
      in if opcode = 0x82 \<and> kind = 126 \<and> n \<le> length s then Some (BinaryFrame (take n s), drop n s) else None)"
| "sample_parse _ = None"

lemma sample_size: "n < 65536 \<Longrightarrow> unat (of_nat (n div 256) :: byte) * 256 + unat (of_nat (n mod 256) :: byte) = n"
  using unat_of_nat_mod_256 [of "n div 256"] unat_of_nat_mod_256 [of "n mod 256"] less_mult_imp_div_less [of n 256 256] by simp

lemma sample_framing_ok: "framing_ok sample_makes sample_parse"
  unfolding framing_ok_def
proof (intro conjI allI impI)
  show "sample_parse (f @ s) = Some (BinaryFrame m, s)" if "sample_makes m f" for m f s
    using that sample_size [of "length m"] by (simp add: sample_makes_def)
  show "sample_parse p = None" if "sample_makes m (p @ x # s)" for m p x s
  proof (cases "length p < 4")
    case True
    then show ?thesis by (cases p rule: sample_parse.cases) simp_all
  next
    case False
    then obtain opcode kind hi lo q where p: "p = opcode # kind # hi # lo # q" by (cases p rule: sample_parse.cases) simp_all
    have "unat hi * 256 + unat lo = length m" using sample_size [of "length m"] that p by (auto simp: sample_makes_def)
    moreover have "length q < length m" using that p by (auto simp: sample_makes_def)
    ultimately show ?thesis using p by simp
  qed
qed simp

lemma websocket_link_delivers_witness:
  "\<exists>a b. ws_link sample_handshake sample_makes sample_parse a b \<and> wasked a = [[1, 2]] \<and> wgot b = [[1, 2]] \<and>
    wasked b = [[3]] \<and> wgot a = [[3]]"
proof -
  obtain a b where l: "ws_link sample_handshake sample_makes sample_parse a b" "wasked a = [[1, 2]]" "wasked b = [[3]]"
    "wqueue (wconn a) = []" "unwritten a = []" "wwire a = []" "wqueue (wconn b) = []" "unwritten b = []" "wwire b = []"
    using ws_messages_arrive [OF sample_framing_ok, of "[1, 2]" "[0x82, 126, 0, 2, 1, 2]" "[3]" "[0x82, 126, 0, 1, 3]"]
    by (auto simp: sample_makes_def)
  from websocket_link_delivers [OF l(1) sample_framing_ok sample_plain(2)] l show ?thesis
    by (intro exI [of _ a] exI [of _ b]) simp
qed

end
