(* ===== verification/End_to_End.thy ===== *)
theory End_to_End
  imports ORB_Properties TCP_Link WS_Link
begin

text \<open>
  A call through everything that is modelled: the stub and the ORB of the client, its
  connection, the octets on their way, the connection, the ORB and the servant of the server,
  and back. What a call needs of the connections is the contract \<open>transport\<close>; TCP and WebSockets
  both keep it.
\<close>

lemma octets_framed:
  "callable st c operation \<Longrightarrow> short args \<Longrightarrow> framed h (request_octets_of cl st c operation args)"
  "length (results 24) < 2 ^ 30 \<Longrightarrow> framed h (reply_octets_of sv c status results)"
proof -
  show "callable st c operation \<Longrightarrow> short args \<Longrightarrow> framed h (request_octets_of cl st c operation args)"
    using length_request_octets_of [of st c operation args cl] unfolding request_octets_of_def
    by (intro framed_request) simp_all
  show "length (results 24) < 2 ^ 30 \<Longrightarrow> framed h (reply_octets_of sv c status results)"
    unfolding reply_octets_of_def by (intro framed_reply reply_fits) simp_all
qed

section \<open>What a call needs of a transport\<close>

text \<open>
  Two joined ends that exchange GIOP messages: what one gets is a prefix of what the other has said, and all
  of it once that has drained. \<open>a\<close> opens the connection.
\<close>

locale transport =
  fixes joined :: "'e \<Rightarrow> 'e \<Rightarrow> bool" and said gets :: "'e \<Rightarrow> bytes list" and drained :: "'e \<Rightarrow> bool"
  assumes arrives_there: "joined a b \<Longrightarrow> (\<And>h m. m \<in> set (said a) \<Longrightarrow> framed h m) \<Longrightarrow>
      prefix (gets b) (said a) \<and> (drained a \<longrightarrow> gets b = said a)"
    and arrives_back: "joined a b \<Longrightarrow> (\<And>h m. m \<in> set (said b) \<Longrightarrow> framed h m) \<Longrightarrow>
      prefix (gets a) (said b) \<and> (drained b \<longrightarrow> gets a = said b)"
begin

lemma call_returns:
  assumes call: "callable st c operation" "operation \<noteq> lit ''_is_a''"
      "gemits (\<lambda>_. True) encode (\<lambda>e. e) args" "short args"
    and servant: "servants (norb sv) (stub_key st) = Some s" "contexts (norb sv) s = None"
      "gparses (\<lambda>_. True) (native (nhost cl)) rd v (\<lambda>g. g) args"
      "gemits (\<lambda>_. True) wr (\<lambda>e. e) results" "short results"
      "\<And>g e g' e'. rd g = Inr (v, g') \<Longrightarrow> wr e = Inr e' \<Longrightarrow>
        dispatch (nenv sv) s operation g e us = (Finished e', us')"
    and decode: "gparses (\<lambda>_. True) (native (nhost sv)) decode w (\<lambda>g. g) results"
    and sent: "twowayCall (nhost cl) st operation encode = Inr (rid, msg, cc)"
    and joined: "joined a b"
    and there: "said a = [msg]" "drained a"
    and served: "receive sv (\<lambda>_. False) sc (hd (gets b)) us = Inr (sc', fx, us'')"
    and returned: "said b = answers (Inr (sc', fx, us''))" "drained b"
    and resumed: "receive cl (\<lambda>r. r = rid) (the cc) (hd (gets a)) uc = Inr (cc', fx', uc')"
  shows "gets b = [msg] \<and> us'' = us' \<and> length (gets a) = 1 \<and>
    (\<exists>d. fx' = [Resume rid d] \<and> twoway_value (nhost cl) (the cc') decode d = Inr (Inr w))"
proof -
  let ?msg = "request_octets_of cl st c operation args" and ?reply = "reply_octets_of sv c NO_EXCEPTION results"
  have msg: "msg = ?msg" "rid = requestId c" "cc = Some (told (next_call c))"
    using sent request_sent [OF call(1,3), of cl] by simp_all
  have got_b: "gets b = [?msg]"
    using arrives_there [OF joined] octets_framed(1) [where cl = cl, OF call(1,4)] there msg(1) by simp
  have "handle_request (nhost sv) (nenv sv) (norb sv) (request_of st c operation) g us = Inr ([Send ?reply], us')"
    if "stands_at g (native (nhost cl)) 2 (heard (Some c) sc) args" for g
    using servant_answers [OF call(2) servant(1-4,6) that] by (simp add: reply_octets_of_def)
  from request_answered [OF call(1,4) this]
  have "receive sv (\<lambda>_. False) sc ?msg us = Inr (heard (Some c) sc, [Send ?reply], us')" .
  then have fx: "fx = [Send ?reply]" "us'' = us'" using served got_b by simp_all
  have short: "length (results 24) < 2 ^ 30" using servant(5) by (simp add: short_def)
  have got_a: "gets a = [?reply]"
    using arrives_back [OF joined] returned fx(1)
      octets_framed(2) [where sv = sv and c = c and status = NO_EXCEPTION and results = results, OF short]
    by (simp add: answers_def)
  obtain d where d: "replied d (native (nhost sv)) NO_EXCEPTION results"
    "receive cl (\<lambda>r. r = requestId c) (told (next_call c)) ?reply uc = Inr (Some (told (next_call c)), [Resume (requestId c) d], uc)"
    by (rule reply_resumes [where results = results and status = NO_EXCEPTION and sv = sv and cl = cl and c = c and uc = uc, OF short])
       (simp_all add: reply_status_cast_def)
  then have "fx' = [Resume rid d]" using resumed got_a msg(2,3) by simp
  then show ?thesis using got_b got_a fx(2) msg(1) value_returned [OF d(1) decode] by simp
qed

end

section \<open>TCP and WebSockets\<close>

definition tcp_drained :: "endpoint \<Rightarrow> bool" where
  "tcp_drained a \<longleftrightarrow> wire a = [] \<and> unsent (conn a) = []"

definition ws_drained :: "ws_endpoint \<Rightarrow> bool" where
  "ws_drained a \<longleftrightarrow> wqueue (wconn a) = [] \<and> unwritten a = [] \<and> wwire a = []"

definition ws_joined :: "handshake \<Rightarrow> (bytes \<Rightarrow> bytes \<Rightarrow> bool) \<Rightarrow> (bytes \<Rightarrow> (ws_message \<times> bytes) option) \<Rightarrow>
    ws_endpoint \<Rightarrow> ws_endpoint \<Rightarrow> bool" where
  "ws_joined lib makes parse a b \<longleftrightarrow> ws_link lib makes parse a b \<and> framing_ok makes parse \<and> (\<forall>s. 13 \<notin> set (base64 lib s))"

interpretation tcp: transport "link ha hb rbs" asked got tcp_drained for ha hb rbs
  by unfold_locales (use link_carries carries_messages in \<open>fastforce simp: tcp_drained_def\<close>)+

interpretation websocket: transport "ws_joined lib makes parse" wasked wgot ws_drained for lib makes parse
  by unfold_locales (use ws_messages in \<open>force simp: ws_joined_def ws_drained_def\<close>)+

text \<open>C6. A remote call over a TCP connection returns what the servant returns. The stub's request is given
  to the client's connection, whatever arrives at the server's is given to the server's ORB, what that sends is
  given to its connection, and what arrives at the client's is given to the client's ORB.
  Whatever the order of the handlers at both ends and whatever the pieces the octets travel in:
  once nothing waits in the queues and on the wire any more, the server's ORB has got that one request and
  called the servant once, the client's ORB has got one reply, and it resumes this call with the
  servant's value. That the queues do empty is not claimed (TCP_Properties has runs in which they do
  not), and the connection is not lost meanwhile.\<close>

theorem call_over_tcp:
  assumes call: "callable st c operation" "operation \<noteq> lit ''_is_a''"
      "gemits (\<lambda>_. True) encode (\<lambda>e. e) args" "short args"
    and servant: "servants (norb sv) (stub_key st) = Some s" "contexts (norb sv) s = None"
      "gparses (\<lambda>_. True) (native (nhost cl)) rd v (\<lambda>g. g) args"
      "gemits (\<lambda>_. True) wr (\<lambda>e. e) results" "short results"
      "\<And>g e g' e'. rd g = Inr (v, g') \<Longrightarrow> wr e = Inr e' \<Longrightarrow>
        dispatch (nenv sv) s operation g e us = (Finished e', us')"
    and decode: "gparses (\<lambda>_. True) (native (nhost sv)) decode w (\<lambda>g. g) results"
    and sent: "twowayCall (nhost cl) st operation encode = Inr (rid, msg, cc)"
    and link: "link (nhost cl) (nhost sv) rbs a b"
    and there: "asked a = [msg]" "wire a = []" "unsent (conn a) = []"
    and served: "receive sv (\<lambda>_. False) sc (hd (got b)) us = Inr (sc', fx, us'')"
    and returned: "asked b = answers (Inr (sc', fx, us''))" "wire b = []" "unsent (conn b) = []"
    and resumed: "receive cl (\<lambda>r. r = rid) (the cc) (hd (got a)) uc = Inr (cc', fx', uc')"
  shows "got b = [msg] \<and> us'' = us' \<and> length (got a) = 1 \<and>
    (\<exists>d. fx' = [Resume rid d] \<and> twoway_value (nhost cl) (the cc') decode d = Inr (Inr w))"
  by (rule tcp.call_returns [OF call servant decode sent link there(1) _ served returned(1) _ resumed])
     (use there returned in \<open>simp_all add: tcp_drained_def\<close>)

text \<open>The same over a WebSocket connection, from before the handshake: the request waits until the handshake
  is over, travels as a frame of wslay to the ORB of the server, and the reply to the ORB of the
  client, whatever the order of the handlers and the pieces; the call returns what the servant returns.\<close>

theorem call_over_websocket:
  assumes call: "callable st c operation" "operation \<noteq> lit ''_is_a''"
      "gemits (\<lambda>_. True) encode (\<lambda>e. e) args" "short args"
    and servant: "servants (norb sv) (stub_key st) = Some s" "contexts (norb sv) s = None"
      "gparses (\<lambda>_. True) (native (nhost cl)) rd v (\<lambda>g. g) args"
      "gemits (\<lambda>_. True) wr (\<lambda>e. e) results" "short results"
      "\<And>g e g' e'. rd g = Inr (v, g') \<Longrightarrow> wr e = Inr e' \<Longrightarrow>
        dispatch (nenv sv) s operation g e us = (Finished e', us')"
    and decode: "gparses (\<lambda>_. True) (native (nhost sv)) decode w (\<lambda>g. g) results"
    and sent: "twowayCall (nhost cl) st operation encode = Inr (rid, msg, cc)"
    and link: "ws_link lib makes parse a b" "framing_ok makes parse" "\<And>s. 13 \<notin> set (base64 lib s)"
    and there: "wasked a = [msg]" "wqueue (wconn a) = []" "unwritten a = []" "wwire a = []"
    and served: "receive sv (\<lambda>_. False) sc (hd (wgot b)) us = Inr (sc', fx, us'')"
    and returned: "wasked b = answers (Inr (sc', fx, us''))" "wqueue (wconn b) = []" "unwritten b = []" "wwire b = []"
    and resumed: "receive cl (\<lambda>r. r = rid) (the cc) (hd (wgot a)) uc = Inr (cc', fx', uc')"
  shows "wgot b = [msg] \<and> us'' = us' \<and> length (wgot a) = 1 \<and>
    (\<exists>d. fx' = [Resume rid d] \<and> twoway_value (nhost cl) (the cc') decode d = Inr (Inr w))"
  by (rule websocket.call_returns [where lib = lib and makes = makes and parse = parse, OF call servant decode sent _ there(1) _ served returned(1) _ resumed])
     (use link there returned in \<open>simp_all add: ws_joined_def ws_drained_def\<close>)

section \<open>Witnesses\<close>

text \<open>A call of \<open>next\<close> with 41, and what both ORBs do.\<close>

definition asking_next :: "giop_encoder writer" where
  "asking_next = wr_ok (on_buf (writeUlong LE 41))"

definition sample_request :: bytes where
  "sample_request = request_octets_of (sample_node LE) (sample_stub (lit ''OID:1'')) sample_connection (lit ''next'') (cdr_ulong (native LE) 41)"

definition sample_reply :: bytes where
  "sample_reply = reply_octets_of (sample_node BE) sample_connection NO_EXCEPTION (cdr_ulong (native BE) 42)"

lemma next_facts:
  "callable (sample_stub (lit ''OID:1'')) sample_connection (lit ''next'')" "lit ''next'' \<noteq> lit ''_is_a''"
  "gemits (\<lambda>_. True) asking_next (\<lambda>e. e) (cdr_ulong (native LE) 41)" "short (cdr_ulong (native LE) 41)"
  "servants (norb (sample_node BE)) (stub_key (sample_stub (lit ''OID:1''))) = Some 1" "contexts (norb (sample_node BE)) 1 = None"
  "gparses (\<lambda>_. True) (native (nhost (sample_node LE))) (cdr (readUlong BE)) 41 (\<lambda>g. g) (cdr_ulong (native LE) 41)"
  "gemits (\<lambda>_. True) (wr_ok (on_buf (writeUlong BE 42)) :: giop_encoder writer) (\<lambda>e. e) (cdr_ulong (native BE) 42)"
  "short (cdr_ulong (native BE) 42)"
  "\<And>g e g' e'. cdr (readUlong BE) g = Inr (41, g') \<Longrightarrow> wr_ok (on_buf (writeUlong BE 42)) e = Inr e' \<Longrightarrow>
     dispatch (nenv (sample_node BE)) 1 (lit ''next'') g e 7 = (Finished e', 8)"
  "gparses (\<lambda>_. True) (native (nhost (sample_node BE))) (cdr (readUlong LE)) 42 (\<lambda>g. g) (cdr_ulong (native BE) 42)"
  using sample_callable [of "lit ''OID:1''" "lit ''next''"]
  by (auto simp: asking_next_def sample_simps sample_args short_ulong gparses_ulong simp del: native.simps)

lemma next_asked: "twowayCall (nhost (sample_node LE)) (sample_stub (lit ''OID:1'')) (lit ''next'') asking_next =
  Inr (requestId sample_connection, sample_request, Some (told (next_call sample_connection)))"
  unfolding sample_request_def by (rule request_sent [OF next_facts(1,3)])

lemma next_served: "receive (sample_node BE) (\<lambda>_. False) sample_connection sample_request 7 =
  Inr (heard (Some sample_connection) sample_connection, [Send sample_reply], 8)"
proof -
  have "handle_request (nhost (sample_node BE)) (nenv (sample_node BE)) (norb (sample_node BE))
      (request_of (sample_stub (lit ''OID:1'')) sample_connection (lit ''next'')) g 7 =
      Inr ([Send (reply_octets_of (sample_node BE) sample_connection NO_EXCEPTION (cdr_ulong (native BE) 42))], 8)"
    if "stands_at g (native (nhost (sample_node LE))) 2 (heard (Some sample_connection) sample_connection) (cdr_ulong (native LE) 41)" for g
    using servant_answers [OF next_facts(2,5-8,10) that] by (simp add: reply_octets_of_def)
  from request_answered [OF next_facts(1,4) this] show ?thesis by (simp only: sample_request_def sample_reply_def)
qed

lemma next_resumed:
  obtains d where "receive (sample_node LE) (\<lambda>r. r = requestId sample_connection) (told (next_call sample_connection)) sample_reply 0 =
    Inr (Some (told (next_call sample_connection)), [Resume (requestId sample_connection) d], 0)"
proof -
  have "length (cdr_ulong (native BE) 42 24) < 2 ^ 30" using short_ulong by (simp add: short_def)
  from reply_resumes [where results = "cdr_ulong (native BE) 42" and status = NO_EXCEPTION and sv = "sample_node BE" and
      cl = "sample_node LE" and c = sample_connection and uc = 0, OF this] that show thesis
    by (auto simp: reply_status_cast_def sample_reply_def)
qed

lemma next_framed: "framed h sample_request" "framed h sample_reply" "sample_request \<noteq> []" "sample_reply \<noteq> []"
proof -
  have "length (cdr_ulong (native BE) 42 24) < 2 ^ 30" using short_ulong by (simp add: short_def)
  then show "framed h sample_reply" unfolding sample_reply_def by (rule octets_framed(2))
  show "framed h sample_request" unfolding sample_request_def by (rule octets_framed(1) [OF next_facts(1,4)])
  show "sample_request \<noteq> []" "sample_reply \<noteq> []"
    by (simp_all add: sample_request_def sample_reply_def request_octets_of_def reply_octets_of_def request_layout_def
        reply_layout_def giop_header_def Let_def)
qed

lemma call_over_tcp_witness:
  "\<exists>rbs a b d. link (nhost (sample_node LE)) (nhost (sample_node BE)) rbs a b \<and> length (got a) = 1 \<and>
    twoway_value (nhost (sample_node LE)) (told (next_call sample_connection)) (cdr (readUlong LE)) d = Inr (Inr 42)"
proof -
  let ?cl = "sample_node LE" and ?sv = "sample_node BE" and ?rbs = "length sample_request + length sample_reply"
  obtain a b where l: "link (nhost ?cl) (nhost ?sv) ?rbs a b" "asked a = [sample_request]" "asked b = [sample_reply]" "wire a = []"
      "unsent (conn a) = []" "wire b = []" "unsent (conn b) = []"
    using two_messages_arrive [OF next_framed(3,1) le_add1 next_framed(4) le_add2] by blast
  have drained: "tcp_drained a" "tcp_drained b" using l by (simp_all add: tcp_drained_def)
  have g: "got b = [sample_request]" "got a = [sample_reply]"
    using tcp.arrives_there [OF l(1)] tcp.arrives_back [OF l(1)] l(2,3) drained next_framed(1,2) by simp_all
  obtain d where d: "receive ?cl (\<lambda>r. r = requestId sample_connection) (told (next_call sample_connection)) sample_reply 0 =
      Inr (Some (told (next_call sample_connection)), [Resume (requestId sample_connection) d], 0)" by (rule next_resumed)
  have served: "receive ?sv (\<lambda>_. False) sample_connection (hd (got b)) 7 =
      Inr (heard (Some sample_connection) sample_connection, [Send sample_reply], 8)" using next_served by (simp add: g)
  have resumed: "receive ?cl (\<lambda>r. r = requestId sample_connection) (the (Some (told (next_call sample_connection)))) (hd (got a)) 0 =
      Inr (Some (told (next_call sample_connection)), [Resume (requestId sample_connection) d], 0)" using d by (simp add: g)
  have answers: "asked b = answers (Inr (heard (Some sample_connection) sample_connection, [Send sample_reply], 8 :: nat))"
    by (simp add: answers_def l(3))
  from call_over_tcp [OF next_facts next_asked l(1,2,4,5) served answers l(6,7) resumed]
  show ?thesis using l(1) by (intro exI [of _ ?rbs] exI [of _ a] exI [of _ b] exI [of _ d]) simp
qed

lemma next_short: "length sample_request \<le> 1000" "length sample_reply \<le> 1000"
proof -
  have args: "length (cdr_ulong en v p) \<le> 7" for en v p using length_layouts(1) [of en v p] by simp
  let ?req = "cdr_request (native LE) (v1_0_or_1 1 2) (Some sample_connection) (lit ''OID:1'') (lit ''next'') (requestId sample_connection) True"
  have "length (?req 12) \<le> 200"
    using length_request_bound [of "native LE" "v1_0_or_1 1 2" "Some sample_connection" "lit ''OID:1''" "lit ''next''" "requestId sample_connection" True 12]
    by (simp add: listen_host_def sample_connection_def conn_init_def)
  then show "length sample_request \<le> 1000" using args [of "native LE" 41 "12 + length (?req 12)"]
    by (simp add: sample_request_def request_octets_of_def request_layout_def sample_stub_def sample_node_def Let_def del: lit_simps native.simps)
  show "length sample_reply \<le> 1000" using args [of "native BE" 42 24]
    by (simp add: sample_reply_def reply_octets_of_def reply_layout_def sample_node_def del: native.simps)
qed

lemma call_over_websocket_witness:
  "\<exists>a b d. ws_link sample_handshake sample_makes sample_parse a b \<and> length (wgot a) = 1 \<and>
    twoway_value (nhost (sample_node LE)) (told (next_call sample_connection)) (cdr (readUlong LE)) d = Inr (Inr 42)"
proof -
  let ?cl = "sample_node LE" and ?sv = "sample_node BE"
  let ?f = "\<lambda>m :: bytes. 0x82 # 126 # of_nat (length m div 256) # of_nat (length m mod 256) # m"
  have makes: "sample_makes m (?f m)" "length (?f m) \<le> 8192" if "length m \<le> 1000" for m using that by (simp_all add: sample_makes_def)
  obtain a b where l: "ws_link sample_handshake sample_makes sample_parse a b" "wasked a = [sample_request]" "wasked b = [sample_reply]"
      "wqueue (wconn a) = []" "unwritten a = []" "wwire a = []" "wqueue (wconn b) = []" "unwritten b = []" "wwire b = []"
    using ws_messages_arrive [OF sample_framing_ok makes [OF next_short(1)] makes [OF next_short(2)]] by blast
  have drained: "ws_joined sample_handshake sample_makes sample_parse a b" "ws_drained a" "ws_drained b"
    using l sample_framing_ok sample_plain(2) by (simp_all add: ws_joined_def ws_drained_def)
  have g: "wgot b = [sample_request]" "wgot a = [sample_reply]"
    using websocket.arrives_there [OF drained(1)] websocket.arrives_back [OF drained(1)] l(2,3) drained(2,3) next_framed(1,2)
    by simp_all
  obtain d where d: "receive ?cl (\<lambda>r. r = requestId sample_connection) (told (next_call sample_connection)) sample_reply 0 =
      Inr (Some (told (next_call sample_connection)), [Resume (requestId sample_connection) d], 0)" by (rule next_resumed)
  have served: "receive ?sv (\<lambda>_. False) sample_connection (hd (wgot b)) 7 =
      Inr (heard (Some sample_connection) sample_connection, [Send sample_reply], 8)" using next_served by (simp add: g)
  have resumed: "receive ?cl (\<lambda>r. r = requestId sample_connection) (the (Some (told (next_call sample_connection)))) (hd (wgot a)) 0 =
      Inr (Some (told (next_call sample_connection)), [Resume (requestId sample_connection) d], 0)" using d by (simp add: g)
  have answers: "wasked b = answers (Inr (heard (Some sample_connection) sample_connection, [Send sample_reply], 8 :: nat))"
    by (simp add: answers_def l(3))
  from call_over_websocket [OF next_facts next_asked l(1) sample_framing_ok sample_plain(2) l(2,4-6) served answers l(7-9) resumed]
  show ?thesis using l(1) by (intro exI [of _ a] exI [of _ b] exI [of _ d]) simp
qed

end
