(* ===== verification/Transports.thy ===== *)
theory Transports
  imports Sessions End_to_End
begin

text \<open>
  Many calls at a time over connections as they are: the messages of Sessions travel as octets, over
  TCP or over WebSockets. The two ORBs with their connections refine the exchange in which a
  message is under way as a whole, so what holds of calls there holds of calls here.
\<close>

section \<open>Connections that carry a session\<close>

text \<open>
  \<open>moves True a b a' b'\<close>: the end \<open>a\<close>, which has opened the connection, sends a message or runs a handler;
  \<open>moves False b a b' a'\<close>: the other one does. The order of events is that of the steps.
\<close>

locale carrier = transport joined said gets drained
  for joined :: "'e \<Rightarrow> 'e \<Rightarrow> bool" and said gets :: "'e \<Rightarrow> bytes list" and drained :: "'e \<Rightarrow> bool" +
  fixes moves :: "bool \<Rightarrow> 'e \<Rightarrow> 'e \<Rightarrow> 'e \<Rightarrow> 'e \<Rightarrow> bool"
  assumes moves_here: "joined a b \<Longrightarrow> moves True a b a' b' \<Longrightarrow> joined a' b'"
    and moves_there: "joined a b \<Longrightarrow> moves False b a b' a' \<Longrightarrow> joined a' b'"
    and moves_other: "moves opener a b a' b' \<Longrightarrow> said b' = said b"

definition tcp_moves :: "host \<Rightarrow> host \<Rightarrow> bool \<Rightarrow> endpoint \<Rightarrow> endpoint \<Rightarrow> endpoint \<Rightarrow> endpoint \<Rightarrow> bool" where
  "tcp_moves ha hb opener = link_step (if opener then ha else hb)"

interpretation tcp_carrier: carrier "link ha hb rbs" asked got tcp_drained "tcp_moves ha hb" for ha hb rbs
  by unfold_locales (auto simp: tcp_moves_def intro: this_end other_end elim: link_step.cases)

interpretation ws_carrier: carrier "ws_joined lib makes parse" wasked wgot ws_drained "ws_link_step lib makes parse"
  for lib makes parse
  by unfold_locales (auto simp: ws_joined_def intro: ws_this_end ws_other_end elim: ws_link_step.cases)

section \<open>A session\<close>

text \<open>
  The ends of the connection, how many of the messages that have reached it each ORB has taken, and
  the calls as in Sessions, whose messages under way are left out: they are those of the connection.
\<close>

record ('e, 'c, 's, 'w) session =
  here :: 'e
  there :: 'e
  taken_here :: nat
  taken_there :: nat
  core :: "('c, 's, 'w) exchange"

text \<open>An ORB sends messages one after the other.\<close>

inductive says :: "(bool \<Rightarrow> 'e \<Rightarrow> 'e \<Rightarrow> 'e \<Rightarrow> 'e \<Rightarrow> bool) \<Rightarrow> ('e \<Rightarrow> bytes list) \<Rightarrow> bool \<Rightarrow> bytes list \<Rightarrow>
    'e \<Rightarrow> 'e \<Rightarrow> 'e \<Rightarrow> 'e \<Rightarrow> bool" for moves said opener where
  says_nothing: "says moves said opener [] a b a b"
| says_one: "moves opener a b a1 b1 \<Longrightarrow> said a1 = said a @ [m] \<Longrightarrow> says moves said opener ms a1 b1 a' b' \<Longrightarrow>
    says moves said opener (m # ms) a b a' b'"

lemma says_single: "moves opener a b a' b' \<Longrightarrow> said a' = said a @ [m] \<Longrightarrow> says moves said opener [m] a b a' b'"
  by (rule says_one, assumption, assumption, rule says_nothing)

fun posted :: "effect list \<Rightarrow> bytes list" where
  "posted [] = []"
| "posted (Send m # fx) = m # posted fx"
| "posted (_ # fx) = posted fx"

lemma mset_posted: "mset (posted fx) = sent fx"
  by (induction fx rule: posted.induct) simp_all

text \<open>
  A handler runs at one of the ends; the client makes the next call and its request is given to the connection; the ORB of
  the server takes the next message that has reached it and its answers are given to the
  connection; a servant goes on; the ORB of the client takes the next message.
\<close>

inductive session_step ::
    "(bool \<Rightarrow> 'e \<Rightarrow> 'e \<Rightarrow> 'e \<Rightarrow> 'e \<Rightarrow> bool) \<Rightarrow> ('e \<Rightarrow> bytes list) \<Rightarrow> ('e \<Rightarrow> bytes list) \<Rightarrow>
     'c node \<Rightarrow> 's node \<Rightarrow> (u32 \<Rightarrow> giop_encoder writer) \<Rightarrow> (nat \<Rightarrow> ('v, 'w) remote_call) \<Rightarrow>
     ('e, 'c, 's, 'w) session \<Rightarrow> ('e, 'c, 's, 'w) session \<Rightarrow> bool"
  for moves said gets cl sv later calls where
  handler_here: "moves True (here s) (there s) a b \<Longrightarrow> said a = said (here s) \<Longrightarrow>
    session_step moves said gets cl sv later calls s (s\<lparr>here := a, there := b\<rparr>)"
| handler_there: "moves False (there s) (here s) b a \<Longrightarrow> said b = said (there s) \<Longrightarrow>
    session_step moves said gets cl sv later calls s (s\<lparr>here := a, there := b\<rparr>)"
| client_calls_next: "x = core s \<Longrightarrow>
    twowayCall (nhost cl) (stub_of (calls (made x)) (asking x)) (roperation (calls (made x))) (rencode (calls (made x))) =
      Inr (rid, m, c) \<Longrightarrow>
    says moves said True [m] (here s) (there s) a b \<Longrightarrow>
    session_step moves said gets cl sv later calls s
      (s\<lparr>here := a, there := b,
         core := x\<lparr>asking := the c, made := Suc (made x), suspended := (suspended x)(rid \<mapsto> made x)\<rparr>\<rparr>)"
| server_takes: "x = core s \<Longrightarrow> taken_there s < length (gets (there s)) \<Longrightarrow>
    receive sv (\<lambda>_. False) (answering x) (gets (there s) ! taken_there s) (ansstate x) = Inr (c, fx, us) \<Longrightarrow>
    says moves said False (posted fx) (there s) (here s) b a \<Longrightarrow>
    session_step moves said gets cl sv later calls s
      (s\<lparr>here := a, there := b, taken_there := Suc (taken_there s),
         core := x\<lparr>answering := the c, ansstate := us, busy := busy x + continuations c fx\<rparr>\<rparr>)"
| servant_goes_on: "x = core s \<Longrightarrow> (rid, re, e) \<in># busy x \<Longrightarrow> later rid e = Inr e' \<Longrightarrow>
    resumed_returned (nhost sv) re rid e' = Inr fx \<Longrightarrow>
    says moves said False (posted fx) (there s) (here s) b a \<Longrightarrow>
    session_step moves said gets cl sv later calls s (s\<lparr>here := a, there := b, core := x\<lparr>busy := busy x - {#(rid, re, e)#}\<rparr>\<rparr>)"
| client_takes: "x = core s \<Longrightarrow> taken_here s < length (gets (here s)) \<Longrightarrow>
    receive cl (\<lambda>r. suspended x r \<noteq> None) (asking x) (gets (here s) ! taken_here s) (askstate x) = Inr (c, fx, uc) \<Longrightarrow>
    says moves said True (posted fx) (here s) (there s) a b \<Longrightarrow>
    session_step moves said gets cl sv later calls s
      (s\<lparr>here := a, there := b, taken_here := Suc (taken_here s),
         core := continue (nhost cl) calls c fx (x\<lparr>asking := the c, askstate := uc\<rparr>)\<rparr>)"

definition session_init :: "'e \<Rightarrow> 'e \<Rightarrow> connection \<Rightarrow> connection \<Rightarrow> 'c \<Rightarrow> 's \<Rightarrow> ('e, 'c, 's, 'w) session" where
  "session_init a b c sc uc us = \<lparr>here = a, there = b, taken_here = 0, taken_there = 0, core = exchange_init c sc uc us\<rparr>"

text \<open>The exchange that is seen when the connection is left out: what has been said and not been taken is under way.\<close>

definition exchange_of :: "('e \<Rightarrow> bytes list) \<Rightarrow> ('e, 'c, 's, 'w) session \<Rightarrow> ('c, 's, 'w) exchange" where
  "exchange_of said s = (core s)\<lparr>requests := mset (drop (taken_there s) (said (here s))),
     replies := mset (drop (taken_here s) (said (there s)))\<rparr>"

lemma exchange_of_init:
  "said a = [] \<Longrightarrow> said b = [] \<Longrightarrow> exchange_of said (session_init a b c sc uc us) = exchange_init c sc uc us"
  by (simp add: exchange_of_def session_init_def exchange_init_def)

section \<open>Sessions refine exchanges\<close>

lemma remove_next: "n < length l \<Longrightarrow> mset (drop n l) - {#l ! n#} = mset (drop (Suc n) l)"
  by (simp add: Cons_nth_drop_Suc [symmetric])

lemma next_under_way: "n < length l \<Longrightarrow> l ! n \<in># mset (drop n l)"
  by (simp add: Cons_nth_drop_Suc [symmetric])

lemma under_way_last:
  "x\<lparr>requests := r, replies := p, suspended := u, returned := v\<rparr> = x\<lparr>suspended := u, returned := v, requests := r, replies := p\<rparr>"
  "x\<lparr>requests := r, replies := p, asking := cc, askstate := w\<rparr> = x\<lparr>asking := cc, askstate := w, requests := r, replies := p\<rparr>"
  by (cases x; simp)+

lemma continue_under_way:
  "continue h calls c fx (x\<lparr>requests := r, replies := p\<rparr>) = (continue h calls c fx x)\<lparr>requests := r, replies := p\<rparr>"
  by (induction h calls c fx x rule: continue.induct) (simp_all add: under_way_last split: option.split)

lemma reply_posts_nothing:
  assumes "accounted True R u0 cl sv calls c hist x q b p" and m: "\<And>i. matched cl sv c (calls i)" and "msg \<in># replies x"
    and "receive cl waiting cc msg uc = Inr (c', fx, uc')"
  shows "posted fx = []"
proof -
  obtain i where "msg = reply_at sv calls c i" using assms(1,3) by (auto simp: accounted_parts)
  moreover obtain d where "receive cl waiting cc (reply_at sv calls c i) uc =
      Inr (Some cc, if waiting (requestId (conn_at c i)) then [Resume (requestId (conn_at c i)) d] else [], uc)"
    by (rule arrive_outcome [where calls = calls and i = i and waiting = waiting and cc = cc and uc = uc, OF m])
  ultimately show ?thesis using assms(4) by auto
qed

lemma framed_under_way:
  assumes "accounted True R u0 cl sv calls c hist x q b p" and m: "\<And>i. matched cl sv c (calls i)" and "msg \<in># requests x + replies x"
  shows "framed h msg"
proof -
  consider i where "msg = request_at cl calls c i" | i where "msg = reply_at sv calls c i" using assms(1,3) by (auto simp: accounted_parts)
  then show ?thesis
  proof cases
    case 1
    then show ?thesis unfolding 1 request_at_def
      by (intro octets_framed(1) callable_conn_at matched_parts(1) [OF m] matched_parts(4) [OF m])
  next
    case 2
    show ?thesis unfolding 2 reply_at_def by (intro octets_framed(2) reply_short [where cl = cl and c = c] m)
  qed
qed

context carrier
begin

lemma says_here: "says moves said True ms a b a' b' \<Longrightarrow> joined a b \<Longrightarrow> joined a' b' \<and> said a' = said a @ ms \<and> said b' = said b"
  by (induction rule: says.induct) (use moves_here moves_other in fastforce)+

lemma says_there: "says moves said False ms b a b' a' \<Longrightarrow> joined a b \<Longrightarrow> joined a' b' \<and> said b' = said b @ ms \<and> said a' = said a"
  by (induction rule: says.induct) (use moves_there moves_other in fastforce)+

definition session_ok :: "('e, 'c, 's, 'w) session \<Rightarrow> bool" where
  "session_ok s \<longleftrightarrow> joined (here s) (there s) \<and> taken_there s \<le> length (said (here s)) \<and> taken_here s \<le> length (said (there s)) \<and>
     (\<forall>h. \<forall>m \<in> set (said (here s)) \<union> set (said (there s)). framed h m)"

lemma taken_next:
  assumes "session_ok s"
  shows "taken_there s < length (gets (there s)) \<Longrightarrow>
      gets (there s) ! taken_there s = said (here s) ! taken_there s \<and> taken_there s < length (said (here s))"
    and "taken_here s < length (gets (here s)) \<Longrightarrow>
      gets (here s) ! taken_here s = said (there s) ! taken_here s \<and> taken_here s < length (said (there s))"
proof -
  have "prefix (gets (there s)) (said (here s))" "prefix (gets (here s)) (said (there s))"
    using assms arrives_there arrives_back by (auto simp: session_ok_def)
  then show "taken_there s < length (gets (there s)) \<Longrightarrow>
      gets (there s) ! taken_there s = said (here s) ! taken_there s \<and> taken_there s < length (said (here s))"
    and "taken_here s < length (gets (here s)) \<Longrightarrow>
      gets (here s) ! taken_here s = said (there s) ! taken_here s \<and> taken_here s < length (said (there s))"
    by (auto simp: prefix_def nth_append)
qed

text \<open>A step of the session is a step of the exchange or is not seen there.\<close>

lemma session_simulated:
  assumes "session_step moves said gets cl sv later calls s s'" and "session_ok s"
    and a: "accounted True R u0 cl sv calls c0 hist (exchange_of said s) q b0 p" and m: "\<And>i. matched cl sv c0 (calls i)"
  shows "joined (here s') (there s') \<and> taken_there s' \<le> length (said (here s')) \<and> taken_here s' \<le> length (said (there s')) \<and>
    (\<exists>ms ms'. said (here s') = said (here s) @ ms \<and> said (there s') = said (there s) @ ms' \<and>
      (exchange_of said s' = exchange_of said s \<and> ms = [] \<and> ms' = [] \<or>
       exchange_step cl sv later calls (exchange_of said s) (exchange_of said s') \<and>
       set ms \<union> set ms' \<subseteq> set_mset (requests (exchange_of said s') + replies (exchange_of said s'))))"
  using assms(1)
proof cases
  case (handler_here a b)
  have "joined a b" "said b = said (there s)" using moves_here moves_other handler_here(2) assms(2) by (auto simp: session_ok_def)
  then show ?thesis using handler_here(1,3) assms(2) by (simp add: session_ok_def exchange_of_def)
next
  case (handler_there b a)
  have "joined a b" "said a = said (here s)" using moves_there moves_other handler_there(2) assms(2) by (auto simp: session_ok_def)
  then show ?thesis using handler_there(1,3) assms(2) by (simp add: session_ok_def exchange_of_def)
next
  case (client_calls_next x rid msg c a b)
  let ?e = "exchange_of said s"
  have says: "joined a b" "said a = said (here s) @ [msg]" "said b = said (there s)"
    using says_here [OF client_calls_next(4)] assms(2) by (simp_all add: session_ok_def)
  have x: "asking ?e = asking x" "made ?e = made x" "suspended ?e = suspended x" by (simp_all add: exchange_of_def client_calls_next(2))
  have "exchange_of said s' = ?e\<lparr>asking := the c, made := Suc (made ?e), suspended := (suspended ?e)(rid \<mapsto> made ?e),
      requests := add_mset msg (requests ?e)\<rparr>"
    using assms(2) says client_calls_next(2) by (simp add: client_calls_next(1) exchange_of_def session_ok_def)
  note eq = this
  have step: "exchange_step cl sv later calls ?e (exchange_of said s')" unfolding eq
    using exchange_step.call [where cl = cl and calls = calls and x = ?e and sv = sv and later = later] client_calls_next(3) x by simp
  have posts: "set [msg] \<subseteq> set_mset (requests (exchange_of said s'))" by (simp add: eq)
  have "joined (here s') (there s')" "said (here s') = said (here s) @ [msg]" "said (there s') = said (there s)"
    "taken_there s' = taken_there s" "taken_here s' = taken_here s" using says client_calls_next(1) by simp_all
  then show ?thesis using assms(2) step posts by (intro conjI exI [of _ "[msg]"] exI [of _ "[]"]) (auto simp: session_ok_def)
next
  case (server_takes x c fx us b a)
  let ?e = "exchange_of said s" and ?m = "gets (there s) ! taken_there s"
  have says: "joined a b" "said b = said (there s) @ posted fx" "said a = said (here s)"
    using says_there [OF server_takes(5)] assms(2) by (simp_all add: session_ok_def)
  note next_one = taken_next(1) [OF assms(2) server_takes(3)]
  have x: "answering ?e = answering x" "ansstate ?e = ansstate x" "busy ?e = busy x"
    "requests ?e = mset (drop (taken_there s) (said (here s)))" by (simp_all add: exchange_of_def server_takes(2))
  have m: "?m \<in># requests ?e" using next_one next_under_way [of "taken_there s" "said (here s)"] by (simp add: x(4))
  have "exchange_of said s' = ?e\<lparr>requests := requests ?e - {#?m#}, answering := the c, ansstate := us,
      busy := busy ?e + continuations c fx, replies := replies ?e + sent fx\<rparr>"
    using assms(2) says server_takes(2) next_one remove_next [of "taken_there s" "said (here s)"]
    by (simp add: server_takes(1) exchange_of_def session_ok_def mset_posted)
  note eq = this
  have step: "exchange_step cl sv later calls ?e (exchange_of said s')" unfolding eq
    using exchange_step.serve [where cl = cl and calls = calls and x = ?e and sv = sv and later = later, OF m] server_takes(4) x by simp
  have posts: "set (posted fx) \<subseteq> set_mset (replies (exchange_of said s'))" by (simp add: eq mset_posted [symmetric])
  have "joined (here s') (there s')" "said (here s') = said (here s)" "said (there s') = said (there s) @ posted fx"
    "taken_there s' = Suc (taken_there s)" "taken_here s' = taken_here s" using says server_takes(1) by simp_all
  then show ?thesis using assms(2) step posts next_one
    by (intro conjI exI [of _ "[]"] exI [of _ "posted fx"]) (auto simp: session_ok_def)
next
  case (servant_goes_on x rid re e e' fx b a)
  let ?e = "exchange_of said s"
  have says: "joined a b" "said b = said (there s) @ posted fx" "said a = said (here s)"
    using says_there [OF servant_goes_on(6)] assms(2) by (simp_all add: session_ok_def)
  have x: "busy ?e = busy x" by (simp add: exchange_of_def servant_goes_on(2))
  have "exchange_of said s' = ?e\<lparr>busy := busy ?e - {#(rid, re, e)#}, replies := replies ?e + sent fx\<rparr>"
    using assms(2) says servant_goes_on(2) by (simp add: servant_goes_on(1) exchange_of_def session_ok_def mset_posted)
  note eq = this
  have step: "exchange_step cl sv later calls ?e (exchange_of said s')" unfolding eq
    using exchange_step.finish [where cl = cl and calls = calls and x = ?e and sv = sv and later = later] servant_goes_on(3-5) x by simp
  have posts: "set (posted fx) \<subseteq> set_mset (replies (exchange_of said s'))" by (simp add: eq mset_posted [symmetric])
  have "joined (here s') (there s')" "said (here s') = said (here s)" "said (there s') = said (there s) @ posted fx"
    "taken_there s' = taken_there s" "taken_here s' = taken_here s" using says servant_goes_on(1) by simp_all
  then show ?thesis using assms(2) step posts
    by (intro conjI exI [of _ "[]"] exI [of _ "posted fx"]) (auto simp: session_ok_def)
next
  case (client_takes x c fx uc a b)
  let ?e = "exchange_of said s" and ?m = "gets (here s) ! taken_here s"
  note next_one = taken_next(2) [OF assms(2) client_takes(3)]
  have x: "suspended ?e = suspended x" "asking ?e = asking x" "askstate ?e = askstate x"
    "replies ?e = mset (drop (taken_here s) (said (there s)))" by (simp_all add: exchange_of_def client_takes(2))
  have m: "?m \<in># replies ?e" using next_one next_under_way [of "taken_here s" "said (there s)"] by (simp add: x(4))
  have none: "posted fx = []" by (rule reply_posts_nothing [OF a assms(4) m client_takes(4)])
  have says: "joined a b" "said a = said (here s)" "said b = said (there s)"
    using says_here [OF client_takes(5)] assms(2) none by (simp_all add: session_ok_def)
  have "exchange_of said s' = continue (nhost cl) calls c fx (?e\<lparr>replies := replies ?e - {#?m#}, asking := the c, askstate := uc\<rparr>)"
    using says client_takes(2) next_one remove_next [of "taken_here s" "said (there s)"]
    by (simp add: client_takes(1) exchange_of_def under_way_last continue_under_way)
  note eq = this
  have step: "exchange_step cl sv later calls ?e (exchange_of said s')" unfolding eq
    using exchange_step.arrive [where cl = cl and calls = calls and x = ?e and sv = sv and later = later, OF m] client_takes(4) x by simp
  have "joined (here s') (there s')" "said (here s') = said (here s)" "said (there s') = said (there s)"
    "taken_there s' = taken_there s" "taken_here s' = Suc (taken_here s)" using says client_takes(1) by simp_all
  then show ?thesis using assms(2) step next_one by (intro conjI exI [of _ "[]"]) (auto simp: session_ok_def)
qed

lemma session_step_ok:
  assumes "session_step moves said gets cl sv later calls s s'" and "session_ok s"
    and a: "accounted True R u0 cl sv calls c hist (exchange_of said s) q b p" and m: "\<And>i. matched cl sv c (calls i)"
    and R: "\<And>i. R i (Inr (at_client c (rends (calls i))))"
    and later: "goes_on later c calls (made (core s'))" and le: "made (core s') \<le> 2 ^ 31"
  shows "session_ok s' \<and> (\<exists>hist q b p. accounted True R u0 cl sv calls c hist (exchange_of said s') q b p)"
proof -
  obtain ms ms' where s': "joined (here s') (there s')" "taken_there s' \<le> length (said (here s'))" "taken_here s' \<le> length (said (there s'))"
      "said (here s') = said (here s) @ ms" "said (there s') = said (there s) @ ms'"
    and seen: "exchange_of said s' = exchange_of said s \<and> ms = [] \<and> ms' = [] \<or>
      exchange_step cl sv later calls (exchange_of said s) (exchange_of said s') \<and>
      set ms \<union> set ms' \<subseteq> set_mset (requests (exchange_of said s') + replies (exchange_of said s'))"
    using session_simulated [OF assms(1-4)] by blast
  have made: "made (exchange_of said s') = made (core s')" by (simp add: exchange_of_def)
  have acc: "\<exists>hist q b p. accounted True R u0 cl sv calls c hist (exchange_of said s') q b p"
    using seen
  proof
    assume "exchange_of said s' = exchange_of said s \<and> ms = [] \<and> ms' = []"
    then show ?thesis using a by (intro exI) simp
  next
    assume "exchange_step cl sv later calls (exchange_of said s) (exchange_of said s') \<and>
      set ms \<union> set ms' \<subseteq> set_mset (requests (exchange_of said s') + replies (exchange_of said s'))"
    then have "exchange_step cl sv later calls (exchange_of said s) (exchange_of said s')" ..
    from step_accounted [OF this a m R] later le show ?thesis by (simp only: made)
  qed
  then have "framed h msg" if "msg \<in># requests (exchange_of said s') + replies (exchange_of said s')" for h msg
    using framed_under_way [where calls = calls, OF _ m that] by blast
  then have "framed h msg" if "msg \<in> set ms \<union> set ms'" for h msg using seen that by auto
  then have "session_ok s'" using assms(2) s' by (auto simp: session_ok_def)
  then show ?thesis using acc by blast
qed

lemma session_made: "session_step moves said gets cl sv later calls s s' \<Longrightarrow> made (core s) \<le> made (core s')"
  by (erule session_step.cases) (auto simp: continue_frame)

lemma session_run_ok:
  assumes "rtranclp (session_step moves said gets cl sv later calls) (session_init a b c sc uc us) s"
    and "joined a b" and "said a = []" and "said b = []" and m: "\<And>i. matched cl sv c (calls i)"
    and R: "\<And>i. R i (Inr (at_client c (rends (calls i))))"
    and "goes_on later c calls (made (core s))" and "made (core s) \<le> 2 ^ 31"
  shows "session_ok s \<and> (\<exists>hist q b p. accounted True R us cl sv calls c hist (exchange_of said s) q b p)"
  using assms(1,7,8)
proof (induction rule: rtranclp_induct)
  case base
  show ?case unfolding exchange_of_init [where said = said, OF assms(3,4)]
    by (intro conjI exI, use assms(2-4) in \<open>simp add: session_ok_def session_init_def\<close>, rule accounted_init)
next
  case (step s s')
  have le: "made (core s) \<le> made (core s')" by (rule session_made [OF step.hyps(2)])
  then have "session_ok s" "\<exists>hist q b p. accounted True R us cl sv calls c hist (exchange_of said s) q b p"
    using step.IH goes_on_le [OF step.prems(1)] step.prems(2) by (meson le_trans)+
  then show ?case using session_step_ok [where calls = calls and R = R, OF step.hyps(2) _ _ m R step.prems] by blast
qed

text \<open>Nothing is under way: both ends are drained, the ORBs have taken all messages and no servant is suspended.\<close>

lemma session_values:
  assumes "rtranclp (session_step moves said gets cl sv later calls) (session_init a b c sc uc us) s"
    and "joined a b" and "said a = []" and "said b = []" and m: "\<And>i. matched cl sv c (calls i)"
    and "goes_on later c calls (made (core s))" and "made (core s) \<le> 2 ^ 31"
  shows "distinct (map fst (returned (core s))) \<and>
    (\<forall>(i, r) \<in> set (returned (core s)). i < made (core s) \<and> r = Inr (at_client c (rends (calls i)))) \<and>
    (drained (here s) \<and> drained (there s) \<and> taken_here s = length (gets (here s)) \<and> taken_there s = length (gets (there s)) \<and>
       busy (core s) = {#} \<longrightarrow> set (map fst (returned (core s))) = {..<made (core s)})"
proof -
  have "session_ok s \<and> (\<exists>hist q b p. accounted True (its_end c calls) us cl sv calls c hist (exchange_of said s) q b p)"
    by (rule session_run_ok [where calls = calls and R = "its_end c calls", OF assms(1-4) m its_end]) (use assms(6,7) in simp_all)
  then obtain hist q b p where s: "session_ok s" and a: "accounted True (its_end c calls) us cl sv calls c hist (exchange_of said s) q b p"
    by blast
  have core: "returned (exchange_of said s) = returned (core s)" "made (exchange_of said s) = made (core s)"
    "busy (exchange_of said s) = busy (core s)" by (simp_all add: exchange_of_def)
  have "set (map fst (returned (core s))) = {..<made (core s)}"
    if "drained (here s)" "drained (there s)" "taken_here s = length (gets (here s))" "taken_there s = length (gets (there s))"
      "busy (core s) = {#}"
  proof -
    have "gets (there s) = said (here s)" "gets (here s) = said (there s)"
      using s that arrives_there arrives_back by (simp_all add: session_ok_def)
    then have "under_way (exchange_of said s) = 0" using that by (simp add: under_way_def exchange_of_def)
    from all_returned(1) [OF a this] show ?thesis by (simp only: core)
  qed
  moreover have "distinct (map fst (returned (core s))) \<and>
      (\<forall>(i, r) \<in> set (returned (core s)). i < made (core s) \<and> r = Inr (at_client c (rends (calls i))))"
    using a unfolding accounted_parts its_end_def core by blast
  ultimately show ?thesis by blast
qed

end

section \<open>Over TCP and over WebSockets\<close>

text \<open>C1. Many calls over TCP: however many calls a client has under way over a TCP connection, whatever the order in
  which the handlers of both ends run, the pieces the octets travel in and the time each servant takes,
  every call ends at most once, with the value its own servant has written or the exception it has
  thrown; and once nothing
  is queued, on the wire, not yet taken by an ORB or with a servant, all of them have
  returned. The system of both ORBs and both connections refines the exchange of whole messages.\<close>

theorem calls_over_tcp:
  assumes "rtranclp (session_step (tcp_moves (nhost cl) (nhost sv)) asked got cl sv later calls)
      (session_init (endpoint_init (tcp_init rbs)) (endpoint_init accepted) c sc uc us) s"
    and "tcp_accept fd (tcp_init rbs) = (accepted, None)" and "\<And>i. matched cl sv c (calls i)"
    and "goes_on later c calls (made (core s))" and "made (core s) \<le> 2 ^ 31"
  shows "distinct (map fst (returned (core s))) \<and>
    (\<forall>(i, r) \<in> set (returned (core s)). i < made (core s) \<and> r = Inr (at_client c (rends (calls i)))) \<and>
    (tcp_drained (here s) \<and> tcp_drained (there s) \<and> taken_here s = length (got (here s)) \<and> taken_there s = length (got (there s)) \<and>
       busy (core s) = {#} \<longrightarrow> set (map fst (returned (core s))) = {..<made (core s)})"
  by (rule tcp_carrier.session_values [OF assms(1) connect [OF assms(2)] _ _ assms(3-5)]) (simp_all add: endpoint_init_def)

text \<open>C4. Many calls over WebSockets, from before the handshake: the same, with the frames of wslay between. The server
  sends only what answers a request, so nothing of it is lost behind the reply of the handshake.\<close>

theorem calls_over_websockets:
  assumes "rtranclp (session_step (ws_link_step lib makes parse) wasked wgot cl sv later calls)
      (session_init (ws_endpoint_init ws_connectOutgoing) (ws_endpoint_init accepted) c sc uc us) s"
    and "0 \<le> fd" and "ws_connectIncoming fd = (accepted, [], None)" and "framing_ok makes parse" and "\<And>s. 13 \<notin> set (base64 lib s)"
    and "\<And>i. matched cl sv c (calls i)"
    and "goes_on later c calls (made (core s))" and "made (core s) \<le> 2 ^ 31"
  shows "distinct (map fst (returned (core s))) \<and>
    (\<forall>(i, r) \<in> set (returned (core s)). i < made (core s) \<and> r = Inr (at_client c (rends (calls i)))) \<and>
    (ws_drained (here s) \<and> ws_drained (there s) \<and> taken_here s = length (wgot (here s)) \<and> taken_there s = length (wgot (there s)) \<and>
       busy (core s) = {#} \<longrightarrow> set (map fst (returned (core s))) = {..<made (core s)})"
proof (rule ws_carrier.session_values [OF assms(1) _ _ _ assms(6-8)])
  show "ws_joined lib makes parse (ws_endpoint_init ws_connectOutgoing) (ws_endpoint_init accepted)"
    using ws_connect [OF assms(2,3)] assms(4,5) by (simp add: ws_joined_def)
qed (simp_all add: ws_endpoint_init_def)


section \<open>Witnesses\<close>

text \<open>Every call is the one of \<open>next\<close> with 41.\<close>

definition calls_next :: "nat \<Rightarrow> (u32, u32) remote_call" where
  "calls_next i = \<lparr>rkey = lit ''OID:1'', roperation = lit ''next'', rencode = asking_next,
     rdecode = cdr (readUlong LE), rread = cdr (readUlong BE), rwrite = wr_ok (on_buf (writeUlong BE 42)),
     rargs = cdr_ulong (native LE) 41, rargument = 41, rresults = cdr_ulong (native BE) 42, rends = Returns 42\<rparr>"

lemma calls_next_matched: "matched (sample_node LE) (sample_node BE) sample_connection (calls_next i)"
  using next_facts(1)
  by (auto simp: matched_def served_def dispatch_servant_def dispatched_as_def wr_ok_def calls_next_def asking_next_def stub_of_def sample_simps sample_args short_ulong gparses_ulong
      simp del: native.simps)

lemma calls_next_octets: "request_at (sample_node LE) calls_next sample_connection 0 = sample_request"
    "reply_at (sample_node BE) calls_next sample_connection 0 = sample_reply"
  by (simp_all add: request_at_def reply_at_def conn_at_def calls_next_def stub_of_def sample_request_def sample_reply_def sample_stub_def)

type_synonym 'e sample_session = "('e, nat, nat, u32) session"

definition sample_goes_on :: "u32 \<Rightarrow> giop_encoder writer" where
  "sample_goes_on rid = wr_ok (on_buf (writeUlong BE 42))"

definition at_ends :: "'e \<Rightarrow> 'e \<Rightarrow> nat \<Rightarrow> nat \<Rightarrow> (nat, nat, u32) exchange \<Rightarrow> 'e sample_session" where
  "at_ends a b n k x = \<lparr>here = a, there = b, taken_here = n, taken_there = k, core = x\<rparr>"

abbreviation sample_session_step ::
    "(bool \<Rightarrow> 'e \<Rightarrow> 'e \<Rightarrow> 'e \<Rightarrow> 'e \<Rightarrow> bool) \<Rightarrow> ('e \<Rightarrow> bytes list) \<Rightarrow> ('e \<Rightarrow> bytes list) \<Rightarrow>
     'e sample_session \<Rightarrow> 'e sample_session \<Rightarrow> bool" where
  "sample_session_step moves said gets \<equiv> session_step moves said gets (sample_node LE) (sample_node BE) sample_goes_on calls_next"

lemma handlers_at_ends:
  "moves True a b a' b' \<Longrightarrow> said a' = said a \<Longrightarrow> sample_session_step moves said gets (at_ends a b n k x) (at_ends a' b' n k x)"
  "moves False b a b' a' \<Longrightarrow> said b' = said b \<Longrightarrow> sample_session_step moves said gets (at_ends a b n k x) (at_ends a' b' n k x)"
  using session_step.handler_here [of moves "at_ends a b n k x" a' b' said] session_step.handler_there [of moves "at_ends a b n k x" b' a' said]
  by (simp_all add: at_ends_def)

lemma two_handlers:
  "moves True a b a1 b1 \<Longrightarrow> said a1 = said a \<Longrightarrow> moves False b1 a1 b2 a2 \<Longrightarrow> said b2 = said b1 \<Longrightarrow>
    rtranclp (sample_session_step moves said gets) (at_ends a b n k x) (at_ends a2 b2 n k x)"
  "moves False b a b1 a1 \<Longrightarrow> said b1 = said b \<Longrightarrow> moves True a1 b1 a2 b2 \<Longrightarrow> said a2 = said a1 \<Longrightarrow>
    rtranclp (sample_session_step moves said gets) (at_ends a b n k x) (at_ends a2 b2 n k x)"
  by (rule converse_rtranclp_into_rtranclp [where r = "sample_session_step moves said gets", OF handlers_at_ends(1) r_into_rtranclp],
      assumption, assumption, rule handlers_at_ends(2), assumption, assumption)
     (rule converse_rtranclp_into_rtranclp [where r = "sample_session_step moves said gets", OF handlers_at_ends(2) r_into_rtranclp],
      assumption, assumption, rule handlers_at_ends(1), assumption, assumption)

lemma one_call_session:
  assumes call: "moves True a0 b0 a1 b0" "said a0 = []" "said a1 = [sample_request]"
    and go: "\<And>x. rtranclp (sample_session_step moves said gets) (at_ends a1 b0 0 0 x) (at_ends a b 0 0 x)" "gets b = [sample_request]"
    and answer: "moves False b a b1 a" "said b = []" "said b1 = [sample_reply]"
    and return: "\<And>x. rtranclp (sample_session_step moves said gets) (at_ends a b1 0 1 x) (at_ends a' b' 0 1 x)" "gets a' = [sample_reply]"
  shows "\<exists>s. rtranclp (sample_session_step moves said gets) (session_init a0 b0 sample_connection sample_connection 0 7) s \<and>
    here s = a' \<and> there s = b' \<and> taken_here s = 1 \<and> taken_there s = 1 \<and> busy (core s) = {#} \<and> made (core s) = 1"
proof -
  let ?c = sample_connection and ?step = "sample_session_step moves said gets" and ?rid = "requestId sample_connection"
  let ?x0 = "exchange_init ?c ?c 0 7 :: (nat, nat, u32) exchange"
  let ?x1 = "?x0\<lparr>asking := conn_at ?c 1, made := 1, suspended := [?rid \<mapsto> 0]\<rparr>"
  let ?x2 = "?x1\<lparr>answering := the (heard (Some ?c) ?c), ansstate := 8\<rparr>"
  have "twowayCall (nhost (sample_node LE)) (stub_of (calls_next (made ?x0)) (asking ?x0)) (roperation (calls_next (made ?x0)))
      (rencode (calls_next (made ?x0))) = Inr (?rid, sample_request, Some (conn_at ?c 1))"
    using call_outcome [where calls = calls_next and i = 0, OF calls_next_matched]
    by (simp add: calls_next_octets exchange_init_def conn_at_def)
  moreover have "says moves said True [sample_request] a0 b0 a1 b0"
    using says_single [where moves = moves and said = said and m = sample_request, OF call(1)] call(2,3) by simp
  ultimately have 1: "?step (at_ends a0 b0 0 0 ?x0) (at_ends a1 b0 0 0 ?x1)"
    using client_calls_next [of ?x0 "at_ends a0 b0 0 0 ?x0" "sample_node LE" calls_next ?rid sample_request "Some (conn_at ?c 1)" moves said a1 b0]
    by (simp add: at_ends_def exchange_init_def)
  have "says moves said False [sample_reply] b a b1 a"
    using says_single [where moves = moves and said = said and m = sample_reply, OF answer(1)] answer(2,3) by simp
  then have 2: "?step (at_ends a b 0 0 ?x1) (at_ends a b1 0 1 ?x2)"
    using server_takes [of ?x1 "at_ends a b 0 0 ?x1" gets "sample_node BE" "heard (Some ?c) ?c" "[Send sample_reply]" 8 moves said b1 a]
      next_served go(2) by (simp add: at_ends_def exchange_init_def)
  obtain d where d: "receive (sample_node LE) (\<lambda>r. suspended ?x2 r \<noteq> None) (asking ?x2) sample_reply 0 =
      Inr (Some (asking ?x2), if suspended ?x2 (requestId (conn_at ?c 0)) \<noteq> None then [Resume (requestId (conn_at ?c 0)) d] else [], 0)"
    by (rule arrive_outcome [where calls = calls_next and i = 0 and waiting = "\<lambda>r. suspended ?x2 r \<noteq> None" and cc = "asking ?x2" and uc = 0,
          OF calls_next_matched, unfolded calls_next_octets])
  have "says moves said True [] a' b' a' b'" by (rule says_nothing)
  let ?s = "at_ends a' b' 1 1 (continue (nhost (sample_node LE)) calls_next (Some (asking ?x2))
      [Resume ?rid d] (?x2\<lparr>asking := asking ?x2, askstate := 0\<rparr>))"
  have "says moves said True [] a' b' a' b'" by (rule says_nothing)
  then have 3: "?step (at_ends a' b' 0 1 ?x2) ?s"
    using client_takes [of ?x2 "at_ends a' b' 0 1 ?x2" gets "sample_node LE" "Some (asking ?x2)" "[Resume ?rid d]" 0 moves said a' b']
      d return(2) by (simp add: at_ends_def exchange_init_def)
  have "rtranclp ?step (at_ends a0 b0 0 0 ?x0) (at_ends a b 0 0 ?x1)"
    by (rule converse_rtranclp_into_rtranclp [where r = ?step, OF 1 go(1)])
  moreover have "rtranclp ?step (at_ends a b 0 0 ?x1) (at_ends a' b' 0 1 ?x2)"
    by (rule converse_rtranclp_into_rtranclp [where r = ?step, OF 2 return(1)])
  ultimately have "rtranclp ?step (at_ends a0 b0 0 0 ?x0) (at_ends a' b' 0 1 ?x2)" by (rule rtranclp_trans)
  then have run: "rtranclp ?step (at_ends a0 b0 0 0 ?x0) ?s" by (rule rtranclp.rtrancl_into_rtrancl [where r = ?step, OF _ 3])
  show ?thesis
  proof (intro exI conjI)
    show "rtranclp ?step (session_init a0 b0 ?c ?c 0 7) ?s" using run by (simp only: session_init_def at_ends_def)
  qed (simp_all only: at_ends_def session.simps continue_frame, simp_all add: exchange_init_def)
qed


text \<open>When all is taken, the one call that has been made has returned 42.\<close>

lemma one_call_returned:
  assumes "distinct (map fst xs) \<and> (\<forall>(i, r) \<in> set xs. i < n \<and> r = Inr (at_client sample_connection (rends (calls_next i)))) \<and>
    (True \<longrightarrow> set (map fst xs) = {..<n})" and "n = 1"
  shows "xs = [(0, Inr (Inr 42))]"
proof -
  have "set (map fst xs) = {0}" "distinct (map fst xs)" using assms by auto
  then obtain r where "xs = [(0, r)]" by (cases xs; cases "tl xs") auto
  then show ?thesis using assms by (simp add: calls_next_def)
qed

lemma calls_over_tcp_witness:
  "\<exists>s :: endpoint sample_session. rtranclp (sample_session_step (tcp_moves (nhost (sample_node LE)) (nhost (sample_node BE))) asked got)
      (session_init (endpoint_init (tcp_init 1000)) (endpoint_init (fst (tcp_accept 7 (tcp_init 1000)))) sample_connection sample_connection 0 7) s \<and>
    returned (core s) = [(0, Inr (Inr 42))]"
proof -
  let ?ha = "nhost (sample_node LE)" and ?hb = "nhost (sample_node BE)"
  let ?a0 = "endpoint_init (tcp_init 1000)" and ?b0 = "endpoint_init (fst (tcp_accept 7 (tcp_init 1000)))"
  let ?moves = "tcp_moves ?ha ?hb" and ?step = "sample_session_step (tcp_moves ?ha ?hb) asked got"
  have moves: "?moves True = link_step ?ha" "?moves False = link_step ?hb" by (simp_all add: tcp_moves_def)
  have fits: "length sample_request \<le> 1000" "length sample_reply \<le> 1000" using next_short by simp_all
  obtain a1 a2 a b where s: "link_step ?ha ?a0 ?b0 a1 ?b0" "asked a1 = [sample_request]" "link_step ?ha a1 ?b0 a2 ?b0"
      "asked a2 = [sample_request]" "link_step ?hb ?b0 a2 b a" "asked a = [sample_request]" "asked b = []" "wire a = []"
      "unsent (conn a) = []" "wire b = []" "failure a = None" "read_active (conn a)" "tstream (conn a) = s2p_init 1000"
      "tstate (conn b) = ESTABLISHED" "sendBuffer (conn b) = []" "bytesSend (conn b) = 0"
    by (rule one_message_steps [where ha = ?ha and hb = ?hb, OF next_framed(3,1) fits(1)])
  obtain b1 b2 a' b' where t: "link_step ?hb b a b1 a" "asked b1 = [sample_reply]" "link_step ?hb b1 a b2 a" "asked b2 = [sample_reply]"
      "link_step ?ha a b2 a' b'" "asked a' = asked a" "asked b' = [sample_reply]" "wire a' = []" "unsent (conn a') = unsent (conn a)"
      "wire b' = []" "unsent (conn b') = []"
    by (rule answer_steps [where ha = ?ha and hb = ?hb, OF next_framed(4) fits(2) s(8,7,10-16)])
  have l: "link ?ha ?hb 1000 a b"
    by (rule other_end [OF this_end [OF this_end [OF connect [OF tcp_accepted] s(1)] s(3)] s(5)])
  then have l': "link ?ha ?hb 1000 a' b'" by (intro this_end [OF other_end [OF other_end [OF _ t(1)] t(3)] t(5)])
  have drained: "tcp_drained a" "tcp_drained a'" "tcp_drained b'" using s t by (simp_all add: tcp_drained_def)
  have g: "got b = [sample_request]" "got a' = [sample_reply]" "got b' = [sample_request]"
    using tcp.arrives_there [OF l] tcp.arrives_there [OF l'] tcp.arrives_back [OF l'] s(6) t(6,7) drained next_framed(1,2) by simp_all
  have none: "asked ?a0 = []" "asked ?b0 = []" by (simp_all add: endpoint_init_def)
  have go: "rtranclp ?step (at_ends a1 ?b0 0 0 x) (at_ends a b 0 0 x)" for x
    by (rule two_handlers(1) [where moves = ?moves and said = asked, unfolded moves, OF s(3) _ s(5)]) (simp_all only: s none)
  have return: "rtranclp ?step (at_ends a b1 0 1 x) (at_ends a' b' 0 1 x)" for x
    by (rule two_handlers(2) [where moves = ?moves and said = asked, unfolded moves, OF t(3) _ t(5)]) (simp_all add: t)
  from one_call_session [where moves = ?moves and said = asked and gets = got, unfolded moves,
      OF s(1) none(1) s(2) go g(1) t(1) s(7) t(2) return g(2)]
  obtain z :: "endpoint sample_session" where z: "rtranclp ?step (session_init ?a0 ?b0 sample_connection sample_connection 0 7) z"
      "here z = a'" "there z = b'" "taken_here z = 1" "taken_there z = 1" "busy (core z) = {#}" "made (core z) = 1" by blast
  have later: "goes_on sample_goes_on sample_connection calls_next n" for n
    by (simp add: goes_on_def sample_goes_on_def calls_next_def)
  have "made (core z) \<le> 2 ^ 31" using z(7) by simp
  from calls_over_tcp [OF z(1) tcp_accepted calls_next_matched later this]
  have "returned (core z) = [(0, Inr (Inr 42))]"
    by (intro one_call_returned [OF _ z(7)]) (use z drained g in simp)
  with z(1) show ?thesis by blast
qed


lemma calls_over_websockets_witness:
  "\<exists>s :: ws_endpoint sample_session. rtranclp (sample_session_step (ws_link_step sample_handshake sample_makes sample_parse) wasked wgot)
      (session_init (ws_endpoint_init ws_connectOutgoing) (ws_endpoint_init sample_server) sample_connection sample_connection 0 7) s \<and>
    returned (core s) = [(0, Inr (Inr 42))]"
proof -
  let ?f = "\<lambda>m :: bytes. 0x82 # 126 # of_nat (length m div 256) # of_nat (length m mod 256) # m"
  let ?a0 = "ws_endpoint_init ws_connectOutgoing" and ?b0 = "ws_endpoint_init sample_server"
  let ?moves = "ws_link_step sample_handshake sample_makes sample_parse"
  let ?step = "sample_session_step (ws_link_step sample_handshake sample_makes sample_parse) wasked wgot"
  have makes: "sample_makes m (?f m)" "length (?f m) \<le> 8192" if "length m \<le> 1000" for m using that by (simp_all add: sample_makes_def)
  note request = makes [OF next_short(1)] and reply = makes [OF next_short(2)]
  obtain a1 a2 a3 a b1 b where s: "?moves True ?a0 ?b0 a1 ?b0" "wasked a1 = [sample_request]" "?moves True a1 ?b0 a2 ?b0"
      "wasked a2 = [sample_request]" "?moves False ?b0 a2 b1 a3" "wasked a3 = [sample_request]" "wasked b1 = []" "?moves True a3 b1 a b"
      "wasked a = [sample_request]" "wasked b = []" "wgot a = []" "wgot b = []" "wsstate (wconn a) = WS" "wsstate (wconn b) = WS"
      "wread_active (wconn a)" "wread_active (wconn b)" "unwritten a = []" "unused a = []" "unwritten b = []" "unused b = []"
      "wwire a = ?f sample_request" "wwire b = []"
    by (rule ws_handshake_steps [OF sample_framing_ok request(1)])
  have "ws_link sample_handshake sample_makes sample_parse ?a0 ?b0" by (rule ws_connect [of 8]) (simp_all add: sample_server_simps)
  from ws_this_end [OF ws_other_end [OF ws_this_end [OF ws_this_end [OF this s(1)] s(3)] s(5)] s(8)]
  have "ws_linked sample_handshake sample_makes sample_parse a b" by (rule ws_link_linked [OF _ sample_framing_ok sample_plain(2)])
  then have ok: "ws_ok (wconn a)" "ws_ok (wconn b)" by (simp_all add: ws_linked_def)
  let ?b2 = "b\<lparr>wgot := [sample_request]\<rparr>" and ?a2 = "a\<lparr>wwire := []\<rparr>"
  let ?b3 = "?b2\<lparr>wasked := [sample_reply], wwire := ?f sample_reply\<rparr>"
  let ?a' = "?a2\<lparr>wgot := [sample_reply]\<rparr>" and ?b' = "?b3\<lparr>wwire := []\<rparr>"
  have arrive: "?moves False b a ?b2 ?a2"
    using ws_frame_read [OF sample_framing_ok request s(14) ok(2) s(16,19,20,21), of False] s(12) by simp
  have answer: "?moves False ?b2 ?a2 ?b3 ?a2"
    using ws_message_sent [where makes = sample_makes and m = sample_reply and f = "?f sample_reply" and opener = False and a = ?b2 and
        b = ?a2 and parse = sample_parse, OF reply(1)] s ok by simp
  have return: "?moves True ?a2 ?b3 ?a' ?b'"
    using ws_frame_read [OF sample_framing_ok reply, of ?a2 ?b3 True] s ok by simp
  have none: "wasked ?a0 = []" "wasked ?b0 = []" by (simp_all add: ws_endpoint_init_def)
  have "rtranclp ?step (at_ends a1 ?b0 0 0 x) (at_ends a3 b1 0 0 x)" for x
    by (rule two_handlers(1) [where moves = ?moves and said = wasked, OF s(3) _ s(5)]) (simp_all only: s none)
  moreover have "rtranclp ?step (at_ends a3 b1 0 0 x) (at_ends ?a2 ?b2 0 0 x)" for x
    by (rule two_handlers(1) [where moves = ?moves and said = wasked, OF s(8) _ arrive]) (simp_all add: s)
  ultimately have go: "rtranclp ?step (at_ends a1 ?b0 0 0 x) (at_ends ?a2 ?b2 0 0 x)" for x by (rule rtranclp_trans)
  have returning: "rtranclp ?step (at_ends ?a2 ?b3 0 1 x) (at_ends ?a' ?b' 0 1 x)" for x
    by (rule r_into_rtranclp [where r = ?step, OF handlers_at_ends(1) [where moves = ?moves and said = wasked, OF return]]) simp
  have g: "wgot ?b2 = [sample_request]" "wasked ?b2 = []" "wasked ?b3 = [sample_reply]" "wgot ?a' = [sample_reply]" by (simp_all add: s)
  from one_call_session [where moves = ?moves and said = wasked and gets = wgot, OF s(1) none(1) s(2) go g(1) answer g(2,3) returning g(4)]
  obtain z :: "ws_endpoint sample_session" where z: "rtranclp ?step (session_init ?a0 ?b0 sample_connection sample_connection 0 7) z"
      "here z = ?a'" "there z = ?b'" "taken_here z = 1" "taken_there z = 1" "busy (core z) = {#}" "made (core z) = 1" by blast
  have later: "goes_on sample_goes_on sample_connection calls_next n" for n
    by (simp add: goes_on_def sample_goes_on_def calls_next_def)
  have "made (core z) \<le> 2 ^ 31" using z(7) by simp
  from calls_over_websockets [OF z(1) _ sample_server_simps(1) sample_framing_ok sample_plain(2) calls_next_matched later this]
  have "returned (core z) = [(0, Inr (Inr 42))]"
    by (intro one_call_returned [OF _ z(7)]) (use z s ok ws_mode in \<open>simp add: ws_drained_def\<close>)
  with z(1) show ?thesis by blast
qed

end
