(* ===== verification/URL_Properties.thy ===== *)
theory URL_Properties
  imports URL
begin

text \<open>
  Properties of object URLs: the parser never reads outside its text, what is printed is
  parsed back, and where it is not.
\<close>

section \<open>The parser reads inside its text\<close>

definition no_bad_read :: "'a url_reader \<Rightarrow> bool" where
  "no_bad_read m \<longleftrightarrow> (\<forall>l. upos l \<le> length (udata l) \<longrightarrow> m l \<noteq> Inl BadRead)"

lemma nbr_bind:
  assumes "no_bad_read m" and "moves m" and "\<And>v. no_bad_read (k v)"
  shows "no_bad_read (rd_bind m k)"
  unfolding no_bad_read_def
proof (intro allI impI notI)
  fix l :: url_lexer
  assume l: "upos l \<le> length (udata l)" and bad: "rd_bind m k l = Inl BadRead"
  show False
  proof (cases "m l")
    case (Inl err)
    then show False using assms(1) l bad by (simp add: no_bad_read_def rd_bind_def)
  next
    case (Inr p)
    obtain v l' where p: "m l = Inr (v, l')" using Inr by (cases p) simp
    then have "k v l' = Inl BadRead" using bad by (simp add: rd_bind_def)
    moreover have "upos l' \<le> length (udata l')" using movesD [OF assms(2) p] l by simp
    ultimately show False using assms(3) [of v] by (simp add: no_bad_read_def)
  qed
qed

text \<open>Where the position has been set, what follows does not read.\<close>

definition never_bad :: "'a url_reader \<Rightarrow> bool" where
  "never_bad m \<longleftrightarrow> (\<forall>l. m l \<noteq> Inl BadRead)"

lemma nbr_simple [simp]:
  "no_bad_read (rd_return v)" "no_bad_read (rd_get f)" "err \<noteq> BadRead \<Longrightarrow> no_bad_read (rd_throw err)"
  "no_bad_read (match s)" "never_bad (rd_return v)" "err \<noteq> BadRead \<Longrightarrow> never_bad (rd_throw err)"
  by (auto simp: no_bad_read_def never_bad_def match_def)

lemma nbr_upd: "never_bad k \<Longrightarrow> no_bad_read (rd_bind (rd_upd f) (\<lambda>_. k))"
  by (simp add: no_bad_read_def never_bad_def rd_bind_def)

lemma match_total: "\<exists>b l'. match s l = Inr (b, l')"
  by (auto simp: match_def)

lemma is_alnum_nonzero: "is_alnum c \<Longrightarrow> c \<noteq> 0"
  by (auto simp: is_alnum_def is_digit_def)

lemma nbr_number: "no_bad_read number"
  by (auto simp: no_bad_read_def number_eq)

lemma nbr_label: "no_bad_read label"
proof -
  have *: "no_bad_read (rd_bind (get_while p) (\<lambda>_. rd_upd ungetc))" for p
    unfolding no_bad_read_def
    using scan_span [where k = "\<lambda>_. rd_return ()" and p = p] get_while_total [of _ p]
    by (fastforce simp: rd_bind_def)
  show ?thesis
    unfolding no_bad_read_def
  proof (intro allI impI)
    fix l :: url_lexer
    assume l: "upos l \<le> length (udata l)"
    then obtain c where g: "getc l = Inr (c, l\<lparr>upos := upos l + 1\<rparr>)"
      by (cases "upos l < length (udata l)") (auto simp: getc_def)
    have "is_alnum c \<Longrightarrow> upos l + 1 \<le> length (udata l)"
      using getc_less [OF g] is_alnum_nonzero by fastforce
    then show "label l \<noteq> Inl BadRead"
      using g *[of "\<lambda>c. is_alnum c \<or> c = 0x2d"] by (auto simp: label_def rd_bind_def no_bad_read_def)
  qed
qed

lemma nbr_labels: "no_bad_read labels"
  unfolding no_bad_read_def
proof (intro allI impI)
  fix l :: url_lexer
  assume "upos l \<le> length (udata l)"
  then show "labels l \<noteq> Inl BadRead"
  proof (induction l rule: labels.induct)
    case (1 l)
    show ?case
    proof (cases "label l")
      case (Inl err)
      then show ?thesis using nbr_label "1.prems" by (auto simp: labels.simps [of l] no_bad_read_def)
    next
      case (Inr p)
      then obtain l1 where l1: "label l = Inr ((), l1)" by (cases p) simp
      obtain b l2 where l2: "match (lit ''.'') l1 = Inr (b, l2)" using match_total by blast
      note m = movesD [OF moves_label l1] movesD [OF moves_match l2]
      show ?thesis
        using "1.IH" [OF l1 refl l2 refl] m "1.prems" l1 l2 by (simp add: labels.simps [of l])
    qed
  qed
qed

lemma nbr_cases:
  "(b \<Longrightarrow> no_bad_read m) \<Longrightarrow> (\<not> b \<Longrightarrow> no_bad_read k) \<Longrightarrow> no_bad_read (if b then m else k)"
  "no_bad_read m \<Longrightarrow> (\<And>x. no_bad_read (f x)) \<Longrightarrow> no_bad_read (case v of None \<Rightarrow> m | Some x \<Rightarrow> f x)"
  "(\<And>x y. no_bad_read (g x y)) \<Longrightarrow> no_bad_read (case q of (x, y) \<Rightarrow> g x y)"
  by (simp_all split: option.split prod.split)

lemmas nbr_intros = nbr_upd nbr_bind nbr_cases nbr_simple nbr_number nbr_labels
  moves_simple moves_match moves_number moves_labels

lemma nbr_host: "no_bad_read (parse_host a)"
  unfolding parse_host_def by (intro nbr_intros) simp_all

lemma nbr_version: "no_bad_read (parse_version a)"
  unfolding parse_version_def by (intro nbr_intros)

lemma nbr_obj_addr: "no_bad_read (obj_addr a)"
  unfolding obj_addr_def prot_addr_def rir_prot_addr_def iiop_prot_addr_def iiop_id_def iiop_addr_def
    parse_port_def
  by (intro nbr_intros nbr_host nbr_version moves_host moves_version moves_bind moves_cases) simp_all

lemma moves_nbr_addr_list: "moves (obj_addr_list as) \<and> no_bad_read (obj_addr_list as)"
proof -
  have "udata l' = udata l \<and> upos l \<le> upos l' \<and> (upos l \<le> length (udata l) \<longrightarrow> upos l' \<le> length (udata l))"
    if "obj_addr_list as l = Inr (v, l')" for l v l' as
    using that
  proof (induction as l arbitrary: v l' rule: obj_addr_list.induct)
    case (1 as l)
    obtain a l1 b l2 where 2: "obj_addr address_init l = Inr ((True, a), l1)" "match (lit '','') l1 = Inr (b, l2)"
      and 3: "(if b then obj_addr_list (as @ [a]) l2 else Inr (as @ [a], l2)) = Inr (v, l')"
      using "1.prems" by (subst (asm) obj_addr_list.simps) (auto split: sum.splits if_splits)
    note m = movesD [OF moves_obj_addr 2(1)] movesD [OF moves_match 2(2)]
    show ?case
    proof (cases b)
      case True
      then have "obj_addr_list (as @ [a]) l2 = Inr (v, l')" using 3 by simp
      from "1.IH" [OF 2(1) refl refl _ 2(2) refl True this] m show ?thesis by simp
    next
      case False
      then show ?thesis using 3 m by simp
    qed
  qed
  then have "moves (obj_addr_list as)" by (simp add: moves_def)
  moreover have "obj_addr_list as l \<noteq> Inl BadRead" if "upos l \<le> length (udata l)" for as l
    using that
  proof (induction as l rule: obj_addr_list.induct)
    case (1 as l)
    show ?case
    proof (cases "obj_addr address_init l")
      case (Inl err)
      then show ?thesis
        using nbr_obj_addr "1.prems" by (auto simp: obj_addr_list.simps [of as l] no_bad_read_def)
    next
      case (Inr p)
      then obtain ok a l1 where l1: "obj_addr address_init l = Inr ((ok, a), l1)" by (cases p) auto
      obtain b l2 where l2: "match (lit '','') l1 = Inr (b, l2)" using match_total by blast
      note m = movesD [OF moves_obj_addr l1] movesD [OF moves_match l2]
      show ?thesis
        using "1.IH" [OF l1 refl refl _ l2 refl] m "1.prems" l1 l2
        by (simp add: obj_addr_list.simps [of as l])
    qed
  qed
  ultimately show ?thesis by (simp add: no_bad_read_def)
qed

lemma uri_loop_moves:
  "udata (uri_loop l) = udata l \<and> upos l \<le> upos (uri_loop l) \<and>
   (upos l \<le> length (udata l) \<longrightarrow> upos (uri_loop l) \<le> length (udata l))"
proof (induction l rule: uri_loop.induct)
  case (1 l)
  show ?case
  proof (cases "eof l \<or> \<not> uri_char (udata l ! upos l)")
    case True
    then show ?thesis by (auto simp: uri_loop.simps [of l] Let_def ungetc_def)
  next
    case False
    then show ?thesis using "1.IH" [OF _ refl refl] by (simp add: uri_loop.simps [of l] Let_def eof_def)
  qed
qed

lemma decode_escapes_error: "decode_escapes ii cs = Inl err \<Longrightarrow> err = Uninitialised"
  by (induction ii cs arbitrary: err rule: decode_escapes.induct)
     (auto simp: Let_def split: if_splits option.splits sum.splits)

lemma moves_nbr_uri: "moves uri" "no_bad_read uri"
  using uri_loop_moves decode_escapes_error
  by (fastforce simp: moves_def no_bad_read_def uri_def Let_def split: if_splits sum.splits)+

text \<open>C36. Whatever text is parsed as \<open>corbaloc:\<close> or \<open>corbaname:\<close>, the lexer looks at no character
  behind the terminator, backtracking and one-character lookahead included, and ends inside
  the text.\<close>

theorem url_parser_in_bounds:
  assumes "upos l \<le> length (udata l)"
  shows "corbaloc loc l \<noteq> Inl BadRead \<and> corbaname name l \<noteq> Inl BadRead \<and>
    (\<forall>v l'. corbaloc loc l = Inr (v, l') \<longrightarrow> upos l' \<le> length (udata l)) \<and>
    (\<forall>v l'. corbaname name l = Inr (v, l') \<longrightarrow> upos l' \<le> length (udata l))"
proof -
  have loc: "moves (corbaloc loc) \<and> no_bad_read (corbaloc loc)" for loc :: "('a) CorbaLocation_scheme"
    unfolding corbaloc_def key_string_def
    using moves_nbr_addr_list moves_nbr_uri
    by (intro conjI moves_bind moves_cases moves_match moves_simple nbr_bind nbr_cases nbr_simple) blast+
  have loc': "moves (corbaloc loc) \<and> no_bad_read (corbaloc loc)" for loc :: CorbaName
    unfolding corbaloc_def key_string_def
    using moves_nbr_addr_list moves_nbr_uri
    by (intro conjI moves_bind moves_cases moves_match moves_simple nbr_bind nbr_cases nbr_simple) blast+
  have "moves (corbaname name) \<and> no_bad_read (corbaname name)"
    unfolding corbaname_def
    using loc' moves_nbr_uri
    by (intro conjI moves_bind moves_cases moves_match moves_simple nbr_bind nbr_cases nbr_simple) blast+
  then show ?thesis using loc [of loc] assms by (auto simp: no_bad_read_def moves_def)
qed

theorem url_parser_in_bounds_witness:
  "corbaloc location_init \<lparr>udata = lit '':h'', upos = 0\<rparr> \<noteq> Inl BadRead"
  using url_parser_in_bounds [of "\<lparr>udata = lit '':h'', upos = 0\<rparr>" location_init] by simp

section \<open>Reading a known text\<close>

definition at_text :: "url_lexer \<Rightarrow> bytes \<Rightarrow> bool" where
  "at_text l s \<longleftrightarrow> upos l \<le> length (udata l) \<and> drop (upos l) (udata l) = s"

definition step :: "nat \<Rightarrow> url_lexer \<Rightarrow> url_lexer" where
  "step n l = l\<lparr>upos := upos l + n\<rparr>"

lemma step_simps [simp]: "step m (step n l) = step (n + m) l" "step 0 l = l" "upos (step n l) = upos l + n"
  "udata (step n l) = udata l"
  by (simp_all add: step_def add.assoc)

lemma at_textD: "at_text l s \<Longrightarrow> upos l \<le> length (udata l)" "at_text l s \<Longrightarrow> drop (upos l) (udata l) = s"
  by (simp_all add: at_text_def)

lemma at_text_step:
  assumes "at_text l (s @ r)"
  shows "at_text (step (length s) l) r"
proof -
  have d: "drop (upos l) (udata l) = s @ r" and le: "upos l \<le> length (udata l)" using assms by (simp_all add: at_text_def)
  have "length (udata l) - upos l = length s + length r" using arg_cong [OF d, of length] by simp
  moreover have "drop (upos l + length s) (udata l) = r"
    using arg_cong [OF d, of "drop (length s)"] by (simp add: add.commute)
  ultimately show ?thesis using le by (simp add: at_text_def)
qed

lemma match_at: "at_text l (s @ r) \<Longrightarrow> match s l = Inr (True, step (length s) l)"
  using at_text_step [of l s r] by (simp add: match_def at_text_def step_def)

lemma no_match_at:
  assumes "at_text l r" and "take (length s) r \<noteq> s"
  shows "match s l = Inr (False, l)"
  using assms by (auto simp: match_def at_text_def)

lemma span_digits: "at_text l s \<Longrightarrow> span is_digit l = takeWhile is_digit s"
proof -
  have *: "(\<lambda>c. c \<noteq> 0 \<and> is_digit c) = is_digit" by (auto simp: is_digit_def)
  show "at_text l s \<Longrightarrow> span is_digit l = takeWhile is_digit s" unfolding span_def * by (simp add: at_text_def)
qed

lemma number_at:
  assumes "at_text l s" and "ds = takeWhile is_digit s"
  shows "number l = (if ds = [] then Inr (None, l)
    else if read_decimal ds < 2 ^ 32 then Inr (Some (read_decimal ds), step (length ds) l)
    else Inl Uninitialised)"
  using assms by (simp add: number_eq [OF at_textD(1)] span_digits step_def)

definition stops :: "(byte \<Rightarrow> bool) \<Rightarrow> bytes \<Rightarrow> bool" where
  "stops p r \<longleftrightarrow> r = [] \<or> \<not> p (hd r)"

lemma takeWhile_stops: "\<forall>c\<in>set s. p c \<Longrightarrow> stops p r \<Longrightarrow> takeWhile p (s @ r) = s"
  by (cases r) (auto simp: stops_def takeWhile_append)

lemma number_shown:
  assumes "at_text l (show_decimal n @ r)" and "stops is_digit r" and "n < 2 ^ 32"
  shows "number l = Inr (Some n, step (length (show_decimal n)) l)"
proof -
  have "takeWhile is_digit (show_decimal n @ r) = show_decimal n"
    using assms(2) show_decimal_digits by (intro takeWhile_stops) blast+
  then show ?thesis using number_at [OF assms(1), of "show_decimal n"] assms(3) by simp
qed

section \<open>Hosts\<close>

definition label_char :: "byte \<Rightarrow> bool" where
  "label_char c \<longleftrightarrow> is_alnum c \<or> c = 0x2d"

definition label_ok :: "bytes \<Rightarrow> bool" where
  "label_ok s \<longleftrightarrow> s = [] \<or> (is_alnum (hd s) \<and> (\<forall>c\<in>set s. label_char c))"

fun join_dots :: "bytes list \<Rightarrow> bytes" where
  "join_dots [] = []"
| "join_dots [s] = s"
| "join_dots (s # t # ss) = s @ lit ''.'' @ join_dots (t # ss)"

text \<open>A name or dotted address, or an address in brackets.\<close>

definition host_ok :: "bytes \<Rightarrow> bool" where
  "host_ok s \<longleftrightarrow> (\<exists>ss. ss \<noteq> [] \<and> (\<forall>t\<in>set ss. label_ok t) \<and> s = join_dots ss) \<or>
     (\<exists>t. 0x5d \<notin> set t \<and> s = lit ''['' @ t @ lit '']'')"

lemma label_at:
  assumes t: "at_text l (s @ r)" and s: "label_ok s" and r: "stops label_char r"
  shows "label l = Inr ((), step (length s) l)"
proof (cases s)
  case Nil
  have "getc l = Inr (if r = [] then 0 else hd r, step 1 l)"
  proof (cases r)
    case Nil
    then show ?thesis using t \<open>s = []\<close> by (auto simp: getc_def at_text_def step_def)
  next
    case (Cons c cs)
    then have "drop (upos l) (udata l) = c # cs" using t \<open>s = []\<close> by (simp add: at_text_def)
    then have "udata l ! upos l = c" "upos l < length (udata l)"
      by (metis hd_drop_conv_nth list.sel(1) length_drop list.size(4) not_less drop_all list.distinct(1))+
    then show ?thesis using Cons by (simp add: getc_def step_def)
  qed
  moreover have "\<not> is_alnum (if r = [] then 0 else hd r)"
    using r by (auto simp: stops_def label_char_def is_alnum_def is_digit_def)
  ultimately show ?thesis using Nil by (simp add: label_def rd_bind_def ungetc_def step_def)
next
  case (Cons c cs)
  then have c: "is_alnum c" "\<forall>x\<in>set cs. label_char x" using s by (simp_all add: label_ok_def)
  have d: "drop (upos l) (udata l) = c # cs @ r" using t Cons by (simp add: at_text_def)
  then have n: "udata l ! upos l = c" "upos l < length (udata l)"
    by (metis hd_drop_conv_nth list.sel(1) length_drop list.size(4) not_less drop_all list.distinct(1))+
  have g: "getc l = Inr (c, step 1 l)" using n by (simp add: getc_def step_def)
  have t1: "at_text (step 1 l) (cs @ r)" using at_text_step [of l "[c]" "cs @ r"] t Cons by simp
  have p: "(\<lambda>x. x \<noteq> 0 \<and> (is_alnum x \<or> x = 0x2d)) = label_char"
    by (rule ext) (auto simp: label_char_def dest: is_alnum_nonzero)
  have "span (\<lambda>x. is_alnum x \<or> x = 0x2d) (step 1 l) = cs"
    using takeWhile_stops [of cs label_char r] c(2) r at_textD(2) [OF t1] unfolding span_def p by simp
  then show ?thesis
    using g c(1) Cons scan_span [OF at_textD(1) [OF t1], of "\<lambda>x. is_alnum x \<or> x = 0x2d" "\<lambda>_. rd_return ()"]
    by (auto simp: label_def rd_bind_def step_def split: sum.splits prod.splits)
qed

lemma labels_at:
  "at_text l (join_dots ss @ r) \<Longrightarrow> ss \<noteq> [] \<Longrightarrow> \<forall>t\<in>set ss. label_ok t \<Longrightarrow>
   stops (\<lambda>c. label_char c \<or> c = 0x2e) r \<Longrightarrow> labels l = Inr ((), step (length (join_dots ss)) l)"
proof (induction ss arbitrary: l rule: join_dots.induct)
  case 1
  then show ?case by simp
next
  case (2 s)
  have "stops label_char r" using "2.prems"(4) by (auto simp: stops_def)
  then have "label l = Inr ((), step (length s) l)" using "2.prems" by (intro label_at) simp_all
  moreover have "match (lit ''.'') (step (length s) l) = Inr (False, step (length s) l)"
    using at_text_step [of l s r] "2.prems"(1,4)
    by (intro no_match_at [of _ r]) (cases r; simp add: stops_def)+
  ultimately show ?case by (simp add: labels.simps [of l])
next
  case (3 s t ss)
  let ?rest = "join_dots (t # ss) @ r"
  have a: "at_text l (s @ lit ''.'' @ ?rest)" using "3.prems"(1) by simp
  have "stops label_char (lit ''.'' @ ?rest)"
    by (simp add: stops_def label_char_def is_alnum_def is_digit_def)
  then have l1: "label l = Inr ((), step (length s) l)" using a "3.prems"(3) by (intro label_at) simp_all
  note a1 = at_text_step [OF a]
  note l2 = match_at [OF a1] and a2 = at_text_step [OF a1]
  have "labels (step (length (lit ''.'')) (step (length s) l)) =
      Inr ((), step (length (join_dots (t # ss))) (step (length (lit ''.'')) (step (length s) l)))"
    using "3.prems" by (intro "3.IH" [OF a2]) simp_all
  then show ?case using l1 l2 by (simp add: labels.simps [of l])
qed

lemma take_at: "at_text l (s @ r) \<Longrightarrow> take (length s) (drop (upos l) (udata l)) = s"
  by (simp add: at_text_def)

text \<open>What follows a host in an address: a colon.\<close>

lemma host_at:
  assumes t: "at_text l (s @ 0x3a # r)" and s: "host_ok s" and a: "ahost a = []"
  shows "parse_host a l = Inr (a\<lparr>ahost := s\<rparr>, step (length s) l)"
proof (cases "\<exists>x. 0x5d \<notin> set x \<and> s = lit ''['' @ x @ lit '']''")
  case True
  then obtain x where x: "0x5d \<notin> set x" "s = lit ''['' @ x @ lit '']''" by blast
  have "at_text l (lit ''['' @ x @ lit '']'' @ 0x3a # r)" using t x(2) by simp
  note m = match_at [OF this]
  have d: "drop (upos l) (udata l) = lit ''['' @ x @ lit '']'' @ 0x3a # r" using t x(2) by (simp add: at_text_def)
  have "takeWhile (\<lambda>y. y \<noteq> 0x5d) (lit ''['' @ x @ lit '']'' @ 0x3a # r) = lit ''['' @ x"
    using x(1) by (auto simp: takeWhile_append)
  moreover have "upos l + length (lit ''['' @ x @ lit '']'' @ 0x3a # r) \<le> length (udata l)"
    using arg_cong [OF d, of length] at_textD(1) [OF t] by simp
  ultimately have "find_char 0x5d (upos l) (udata l) = Some (upos l + length x + 1)"
    using d by (simp add: find_char_def Let_def)
  then show ?thesis
    using m take_at [OF t] x(2) by (simp add: parse_host_def rd_bind_def set_pos_def step_def add.commute)
next
  case False
  with s obtain ss where ss: "ss \<noteq> []" "\<forall>t\<in>set ss. label_ok t" "s = join_dots ss"
    by (auto simp: host_ok_def)
  have "set (join_dots ss) \<subseteq> {c. label_char c \<or> c = 0x2e}"
    using ss(2) by (induction ss rule: join_dots.induct) (auto simp: label_ok_def)
  then have nb: "take 1 (s @ 0x3a # r) \<noteq> lit ''[''"
    using ss(3) by (cases "join_dots ss") (auto simp: label_char_def is_alnum_def is_digit_def)
  have "stops (\<lambda>c. label_char c \<or> c = 0x2e) (0x3a # r)"
    by (simp add: stops_def label_char_def is_alnum_def is_digit_def)
  then have "labels l = Inr ((), step (length s) l)" using labels_at ss t by simp
  moreover have "match (lit ''['') l = Inr (False, l)" using no_match_at [OF t] nb by simp
  ultimately show ?thesis
    using take_at [OF t] a by (auto simp: parse_host_def rd_bind_def)
qed

lemma version_at:
  assumes "at_text l (show_decimal (unat mj) @ lit ''.'' @ show_decimal (unat mn) @ lit ''@'' @ r)"
  shows "parse_version a l = Inr (a\<lparr>amajor := mj, aminor := mn\<rparr>,
    step (length (show_decimal (unat mj) @ lit ''.'' @ show_decimal (unat mn) @ lit ''@'')) l)"
proof -
  have "unat mj < 256" "unat mn < 256" using unsigned_less [of mj] unsigned_less [of mn] by simp_all
  then have b: "unat mj < 2 ^ 32" "unat mn < 2 ^ 32" by simp_all
  have stop: "stops is_digit (lit ''.'' @ x)" "stops is_digit (lit ''@'' @ x)" for x
    by (simp_all add: stops_def is_digit_def)
  note 1 = number_shown [OF assms stop(1) b(1)] and t1 = at_text_step [OF assms]
  note 2 = match_at [OF t1] and t2 = at_text_step [OF t1]
  note 3 = number_shown [OF t2 stop(2) b(2)] and t3 = at_text_step [OF t2]
  note 4 = match_at [OF t3]
  show ?thesis
    using 1 2 3 4 by (simp add: parse_version_def rd_bind_def add.assoc)
qed

lemma port_at:
  assumes "at_text l (show_decimal (unat p) @ r)" and "stops is_digit r"
  shows "parse_port a l = Inr ((True, a\<lparr>aport := p\<rparr>), step (length (show_decimal (unat p))) l)"
proof -
  have "unat p < 65536" using unsigned_less [of p] by simp
  then have "unat p < 2 ^ 32" by simp
  from number_shown [OF assms this] show ?thesis by (simp add: parse_port_def rd_bind_def)
qed

definition address_ok :: "ObjectAddress \<Rightarrow> bool" where
  "address_ok a \<longleftrightarrow> (proto a = lit ''iiop'' \<and> host_ok (ahost a)) \<or> a = address_init\<lparr>proto := lit ''rir''\<rparr>"

lemma address_at:
  assumes t: "at_text l (address_str a @ r)" and a: "address_ok a" and r: "stops is_digit r"
  shows "obj_addr address_init l = Inr ((True, a), step (length (address_str a)) l)"
proof (cases "proto a = lit ''iiop''")
  case False
  then have a': "a = address_init\<lparr>proto := lit ''rir''\<rparr>" using a by (auto simp: address_ok_def)
  then have "at_text l (lit ''rir:'' @ r)" using t by (simp add: address_str_def address_init_def)
  from match_at [OF this] show ?thesis
    by (simp add: a' obj_addr_def prot_addr_def rir_prot_addr_def rd_bind_def address_str_def address_init_def)
next
  case True
  then have host: "host_ok (ahost a)" using a by (auto simp: address_ok_def address_init_def)
  let ?v = "show_decimal (unat (amajor a)) @ lit ''.'' @ show_decimal (unat (aminor a)) @ lit ''@''"
  let ?p = "show_decimal (unat (aport a))"
  have str: "address_str a = lit ''iiop:'' @ ?v @ ahost a @ lit '':'' @ ?p" using True by (simp add: address_str_def)
  have t0: "at_text l (lit ''iiop:'' @ ?v @ ahost a @ lit '':'' @ ?p @ r)" using t by (simp add: str)
  have rir: "match (lit ''rir:'') l = Inr (False, l)" using t0 by (rule no_match_at) simp
  note id = match_at [OF t0] and t1 = at_text_step [OF t0]
  have "at_text (step (length (lit ''iiop:'')) l) (show_decimal (unat (amajor a)) @ lit ''.'' @
      show_decimal (unat (aminor a)) @ lit ''@'' @ ahost a @ lit '':'' @ ?p @ r)"
    using t1 by simp
  note v = version_at [OF this, of address_init] and t2 = at_text_step [OF t1]
  have "at_text (step (length ?v) (step (length (lit ''iiop:'')) l)) (ahost a @ 0x3a # ?p @ r)" using t2 by simp
  note h = host_at [OF this host, of "address_init\<lparr>amajor := amajor a, aminor := aminor a\<rparr>"]
    and t3 = at_text_step [OF t2]
  note c = match_at [OF t3] and t4 = at_text_step [OF t3]
  note p = port_at [OF t4 r, of "address_init\<lparr>amajor := amajor a, aminor := aminor a, ahost := ahost a\<rparr>"]
  have eq: "address_init\<lparr>amajor := amajor a, aminor := aminor a, ahost := ahost a, aport := aport a\<rparr> = a"
    using True by (simp add: address_init_def)
  have "iiop_addr address_init (step (length (lit ''iiop:'')) l) =
      Inr ((True, a), step (length (?v @ ahost a @ lit '':'' @ ?p)) (step (length (lit ''iiop:'')) l))"
    unfolding iiop_addr_def
    using v h c p eq by (simp add: rd_bind_def address_init_def add.assoc)
  then show ?thesis
    using rir id
    by (simp add: obj_addr_def prot_addr_def rir_prot_addr_def iiop_prot_addr_def iiop_id_def rd_bind_def str)
qed

section \<open>Address lists and keys\<close>

definition more_addresses :: "ObjectAddress list \<Rightarrow> bytes" where
  "more_addresses as = concat (map (\<lambda>a. lit '','' @ address_str a) as)"

lemma address_str_nonempty: "address_ok a \<Longrightarrow> address_str a \<noteq> []"
  by (auto simp: address_ok_def address_str_def address_init_def)

lemma addresses_str_eq:
  assumes "address_ok a"
  shows "addresses_str (a # as) = address_str a @ more_addresses as"
proof -
  have "foldl (\<lambda>txt a. (if length txt \<noteq> 0 then txt @ lit '','' else txt) @ address_str a) t as = t @ more_addresses as"
    if "t \<noteq> []" for t
    using that
  proof (induction as arbitrary: t)
    case (Cons b as)
    from Cons.IH [of "t @ lit '','' @ address_str b"] Cons.prems show ?case
      by (simp add: more_addresses_def)
  qed (simp add: more_addresses_def)
  then show ?thesis using address_str_nonempty [OF assms] by (simp add: addresses_str_def)
qed

definition ends_list :: "bytes \<Rightarrow> bool" where
  "ends_list r \<longleftrightarrow> stops is_digit r \<and> take 1 r \<noteq> lit '',''"

lemma address_list_at:
  "at_text l (address_str a @ more_addresses as @ r) \<Longrightarrow> \<forall>x\<in>set (a # as). address_ok x \<Longrightarrow> ends_list r \<Longrightarrow>
   obj_addr_list acc l = Inr (acc @ a # as, step (length (address_str a @ more_addresses as)) l)"
proof (induction as arbitrary: a acc l)
  case Nil
  then have t: "at_text l (address_str a @ r)" and r: "stops is_digit r" "take 1 r \<noteq> lit '',''"
    by (simp_all add: more_addresses_def ends_list_def)
  note o = address_at [OF t _ r(1)]
  have "match (lit '','') (step (length (address_str a)) l) = Inr (False, step (length (address_str a)) l)"
    using no_match_at [OF at_text_step [OF t]] r(2) by simp
  then show ?case using o Nil.prems(2) by (simp add: obj_addr_list.simps [of acc l] more_addresses_def)
next
  case (Cons b as)
  have t: "at_text l (address_str a @ lit '','' @ address_str b @ more_addresses as @ r)"
    using Cons.prems(1) by (simp add: more_addresses_def)
  have "stops is_digit (lit '','' @ x)" for x by (simp add: stops_def is_digit_def)
  note o = address_at [OF t _ this] and t1 = at_text_step [OF t]
  note m = match_at [OF t1] and t2 = at_text_step [OF t1]
  have "obj_addr_list (acc @ [a]) (step (length (lit '','')) (step (length (address_str a)) l)) =
      Inr ((acc @ [a]) @ b # as, step (length (address_str b @ more_addresses as))
        (step (length (lit '','')) (step (length (address_str a)) l)))"
    using Cons.prems(2,3) by (intro Cons.IH [OF t2]) simp_all
  then show ?case
    using o m Cons.prems(2) by (simp add: obj_addr_list.simps [of acc l] more_addresses_def)
qed

lemma decode_plain: "0x25 \<notin> set s \<Longrightarrow> decode_escapes ii s = Inr s"
  by (induction s arbitrary: ii) auto

lemma uri_loop_at:
  "at_text l (k @ r) \<Longrightarrow> \<forall>c\<in>set k. uri_char c \<Longrightarrow> stops uri_char r \<Longrightarrow> uri_loop l = step (length k) l"
proof (induction k arbitrary: l)
  case Nil
  show ?case
  proof (cases r)
    case Nil
    then show ?thesis using \<open>at_text l ([] @ r)\<close> by (simp add: uri_loop.simps [of l] eof_def at_text_def)
  next
    case (Cons c cs)
    then have "drop (upos l) (udata l) = c # cs" using \<open>at_text l ([] @ r)\<close> by (simp add: at_text_def)
    then have "udata l ! upos l = c" "upos l < length (udata l)"
      by (metis hd_drop_conv_nth list.sel(1) length_drop list.size(4) not_less drop_all list.distinct(1))+
    then show ?thesis
      using \<open>stops uri_char r\<close> Cons
      by (simp add: uri_loop.simps [of l] eof_def stops_def ungetc_def Let_def)
  qed
next
  case (Cons c k)
  have "drop (upos l) (udata l) = c # k @ r" using Cons.prems(1) by (simp add: at_text_def)
  then have "udata l ! upos l = c" "upos l < length (udata l)"
    by (metis hd_drop_conv_nth list.sel(1) length_drop list.size(4) not_less drop_all list.distinct(1))+
  then have "uri_loop l = uri_loop (step 1 l)"
    using Cons.prems(2) by (simp add: uri_loop.simps [of l] eof_def step_def Let_def)
  moreover have "at_text (step 1 l) (k @ r)" using at_text_step [of l "[c]" "k @ r"] Cons.prems(1) by simp
  ultimately show ?case using Cons.IH [of "step 1 l"] Cons.prems(2,3) by simp
qed

text \<open>The key takes with it as many characters behind it as there are in front of it.\<close>

lemma uri_at:
  assumes "at_text l (k @ r)" and "\<forall>c\<in>set k. uri_char c" and "stops uri_char r" and "k \<noteq> []"
    and "0x25 \<notin> set k" and "0x25 \<notin> set r"
  shows "uri l = Inr (Some (k @ take (upos l) r), step (length k) l)"
proof -
  have "take (upos l + length k) (drop (upos l) (udata l)) = k @ take (upos l) r"
    using assms(1) by (simp add: at_text_def)
  moreover have "0x25 \<notin> set (k @ take (upos l) r)" using assms(5,6) by (auto dest: in_set_takeD)
  ultimately show ?thesis
    using uri_loop_at [OF assms(1-3)] assms(4) decode_plain [of "k @ take (upos l) r" None]
    by (simp add: uri_def Let_def)
qed

lemma key_ends: "ends_list (key_str key @ r)" if "key = [] \<Longrightarrow> ends_list r"
  using that by (auto simp: key_str_def ends_list_def stops_def is_digit_def)

definition key_ok :: "bytes \<Rightarrow> bool" where
  "key_ok key \<longleftrightarrow> (\<forall>c\<in>set key. uri_char c \<and> c \<noteq> 0x25)"

lemma slash_stops: "stops uri_char []" "ends_list []" "ends_list (lit ''#'' @ x)" "stops uri_char (lit ''#'' @ x)"
  by (simp_all add: stops_def ends_list_def is_digit_def uri_char_def is_alnum_def uri_punctuation_def)

lemma corbaloc_at:
  assumes t: "at_text l (location_str loc @ r)" and as: "addr loc \<noteq> []" "\<forall>a\<in>set (addr loc). address_ok a"
    and key: "key_ok (locKey loc)" and r: "stops uri_char r" "0x25 \<notin> set r" "ends_list r"
    and init: "addr loc0 = []" "locKey loc = [] \<Longrightarrow> locKey loc0 = [] \<and> take 1 r \<noteq> lit ''/''"
  shows "\<exists>n. corbaloc loc0 l = Inr (loc0\<lparr>addr := addr loc, locKey := (if locKey loc = [] then [] else locKey loc @ take n r)\<rparr>,
      step (length (location_str loc)) l) \<and> 0 < n"
proof -
  obtain a bs where ab: "addr loc = a # bs" using as(1) by (cases "addr loc") auto
  have str: "location_str loc = address_str a @ more_addresses bs @ key_str (locKey loc)"
    using as(2) ab by (simp add: location_str_def addresses_str_eq)
  have t0: "at_text l (address_str a @ more_addresses bs @ key_str (locKey loc) @ r)" using t by (simp add: str)
  have "obj_addr_list [] l = Inr ([] @ a # bs, step (length (address_str a @ more_addresses bs)) l)"
    using as(2) ab r(3) by (intro address_list_at [OF t0]) (auto intro!: key_ends)
  then have list: "obj_addr_list (addr loc0) l = Inr (addr loc, step (length (address_str a @ more_addresses bs)) l)"
    by (simp add: init(1) ab)
  let ?l1 = "step (length (address_str a @ more_addresses bs)) l"
  have t1: "at_text ?l1 (key_str (locKey loc) @ r)" using at_text_step [of l "address_str a @ more_addresses bs"] t0 by simp
  show ?thesis
  proof (cases "locKey loc = []")
    case True
    have "match (lit ''/'') ?l1 = Inr (False, ?l1)"
      using no_match_at [of ?l1 r] t1 True init(2) by (simp add: key_str_def)
    then show ?thesis
      using list True init(2) by (intro exI [of _ 1]) (simp add: corbaloc_def rd_bind_def str key_str_def)
  next
    case False
    have t2: "at_text ?l1 (lit ''/'' @ locKey loc @ r)" using t1 False by (simp add: key_str_def)
    note m = match_at [OF t2] and t3 = at_text_step [OF t2]
    have "uri (step (length (lit ''/'')) ?l1) = Inr (Some (locKey loc @ take (upos (step (length (lit ''/'')) ?l1)) r),
        step (length (locKey loc)) (step (length (lit ''/'')) ?l1))"
      using key False r by (intro uri_at [OF t3]) (auto simp: key_ok_def)
    then show ?thesis
      using list m False
      by (intro exI [of _ "upos (step (length (lit ''/'')) ?l1)"])
         (simp add: corbaloc_def key_string_def rd_bind_def str key_str_def)
  qed
qed

section \<open>Printing and parsing\<close>

lemma at_text_start: "at_text \<lparr>udata = s, upos = 0\<rparr> s"
  by (simp add: at_text_def)

lemma step_start: "step n \<lparr>udata = s, upos = 0\<rparr> = \<lparr>udata = s, upos = n\<rparr>"
  by (simp add: step_def)

text \<open>C35. Every \<open>corbaloc:\<close> URL the library prints, for any list of addresses (host names, dotted and
  bracketed addresses, the local \<open>rir:\<close>) and any object key of URL characters other than \<open>%\<close>,
  is parsed back to the same addresses, versions, ports and key. Other keys are printed as they are and
  need not come back (\<open>percent_key_misread\<close>).\<close>

theorem corbaloc_roundtrip:
  assumes "addr loc \<noteq> []" and "\<forall>a\<in>set (addr loc). address_ok a" and "key_ok (locKey loc)"
  shows "decodeURI h (CorbaLocation_str loc) = Inr (UriLocation loc)"
proof -
  let ?s = "CorbaLocation_str loc"
  let ?l = "\<lparr>udata = ?s, upos = 0\<rparr>"
  have t: "at_text ?l (lit ''corbaloc:'' @ location_str loc @ [])"
    using at_text_start [of ?s] by (simp add: CorbaLocation_str_def)
  have ior: "match (lit ''IOR:'') ?l = Inr (False, ?l)" by (rule no_match_at [OF t]) simp
  note m = match_at [OF t] and t1 = at_text_step [OF t]
  obtain l' where "corbaloc location_init (step (length (lit ''corbaloc:'')) ?l) = Inr (loc, l')"
    using corbaloc_at [OF t1 assms slash_stops(1) _ slash_stops(2), of location_init]
    by (auto simp: location_init_def split: if_splits)
  then show ?thesis using ior m by (simp add: decodeURI_def parse_uri_def rd_bind_def)
qed

lemma sample_host_ok: "host_ok (lit ''127.0.0.1'')" "host_ok (lit ''[::1]'')"
proof -
  have "lit ''127.0.0.1'' = join_dots [lit ''127'', lit ''0'', lit ''0'', lit ''1'']" by simp
  moreover have "\<forall>t\<in>set [lit ''127'', lit ''0'', lit ''0'', lit ''1'']. label_ok t"
    by (simp add: label_ok_def label_char_def is_alnum_def is_digit_def)
  ultimately show "host_ok (lit ''127.0.0.1'')" unfolding host_ok_def by blast
  have "lit ''[::1]'' = lit ''['' @ lit ''::1'' @ lit '']''" "0x5d \<notin> set (lit ''::1'')" by simp_all
  then show "host_ok (lit ''[::1]'')" unfolding host_ok_def by blast
qed

theorem corbaloc_roundtrip_witness:
  "decodeURI LE (CorbaLocation_str \<lparr>addr = [\<lparr>proto = lit ''iiop'', amajor = 1, aminor = 2,
     ahost = lit ''[::1]'', aport = 9003\<rparr>, address_init\<lparr>proto := lit ''rir''\<rparr>], locKey = lit ''Dev/A1''\<rparr>) =
   Inr (UriLocation \<lparr>addr = [\<lparr>proto = lit ''iiop'', amajor = 1, aminor = 2,
     ahost = lit ''[::1]'', aport = 9003\<rparr>, address_init\<lparr>proto := lit ''rir''\<rparr>], locKey = lit ''Dev/A1''\<rparr>)"
proof (rule corbaloc_roundtrip)
  show "\<forall>a\<in>set (addr \<lparr>addr = [\<lparr>proto = lit ''iiop'', amajor = 1, aminor = 2, ahost = lit ''[::1]'', aport = 9003\<rparr>,
      address_init\<lparr>proto := lit ''rir''\<rparr>], locKey = lit ''Dev/A1''\<rparr>). address_ok a"
    using sample_host_ok by (simp add: address_ok_def)
qed (simp_all add: key_ok_def uri_char_def is_alnum_def is_digit_def uri_punctuation_def)

text \<open>A key or name at the end of the text is read whole, and a list of one address is read to its end.\<close>

lemma uri_end:
  assumes "at_text l name" and "key_ok name" and "name \<noteq> []"
  shows "uri l = Inr (Some name, step (length name) l)"
proof -
  have "0x25 \<notin> set name" "\<forall>c\<in>set name. uri_char c" using assms(2) by (auto simp: key_ok_def)
  then show ?thesis using uri_at [of l name "[]"] assms(1,3) slash_stops(1) by simp
qed

lemma one_address:
  assumes "obj_addr address_init l = Inr ((True, a), l1)" and "match (lit '','') l1 = Inr (False, l1)"
  shows "obj_addr_list as l = Inr (as @ [a], l1)"
  unfolding obj_addr_list.simps [of as l] assms(1) using assms(2) by simp

text \<open>The fragment leaks into the key: a \<open>corbaname:\<close> URL printed with a key and a name is parsed
  back with the right name, but with a key that goes on with the hash and the start of the name,
  because \<open>substr\<close> is given the position instead of the length.\<close>

theorem corbaname_key_takes_fragment:
  assumes "addr n \<noteq> []" and "\<forall>a\<in>set (addr n). address_ok a" and "key_ok (locKey n)"
    and "locKey n \<noteq> []" and "key_ok (nname n)" and "nname n \<noteq> []"
  shows "\<exists>n'. decodeURI h (CorbaName_str n) = Inr (UriName n') \<and> nname n' = nname n \<and>
    prefix (locKey n @ lit ''#'') (locKey n')"
proof -
  let ?s = "CorbaName_str n"
  let ?l = "\<lparr>udata = ?s, upos = 0\<rparr>"
  let ?r = "lit ''#'' @ nname n"
  have t: "at_text ?l (lit ''corbaname:'' @ location_str n @ ?r)"
    using at_text_start [of ?s] assms(6) by (simp add: CorbaName_str_def)
  have ior: "match (lit ''IOR:'') ?l = Inr (False, ?l)" by (rule no_match_at [OF t]) simp
  have loc: "match (lit ''corbaloc:'') ?l = Inr (False, ?l)" by (rule no_match_at [OF t]) simp
  note m = match_at [OF t] and t1 = at_text_step [OF t]
  let ?l1 = "step (length (lit ''corbaname:'')) ?l"
  have "0x25 \<notin> set ?r" using assms(5) by (auto simp: key_ok_def)
  from corbaloc_at [OF t1 assms(1-3) slash_stops(4) this slash_stops(3), of name_init] assms(4)
  obtain k where k: "corbaloc name_init ?l1 = Inr (name_init\<lparr>addr := addr n, locKey := locKey n @ take k ?r\<rparr>,
      step (length (location_str n)) ?l1)" "0 < k"
    by (auto simp: name_init_def)
  note t2 = at_text_step [OF t1]
  note h = match_at [OF t2] and t3 = at_text_step [OF t2]
  note u = uri_end [OF t3 assms(5,6)]
  let ?n' = "name_init\<lparr>addr := addr n, locKey := locKey n @ take k ?r, nname := nname n\<rparr>"
  have "decodeURI h ?s = Inr (UriName ?n')"
    using ior loc m k(1) h u by (simp add: decodeURI_def parse_uri_def rd_bind_def corbaname_def)
  moreover have "prefix (locKey n @ lit ''#'') (locKey n @ take k ?r)" using k(2) by (cases k) simp_all
  ultimately show ?thesis by (intro exI [of _ ?n']) simp
qed

theorem corbaname_key_takes_fragment_witness:
  "\<exists>n'. decodeURI LE (CorbaName_str \<lparr>addr = [address_init\<lparr>proto := lit ''rir''\<rparr>], locKey = lit ''NameService'',
      nname = lit ''Backend''\<rparr>) = Inr (UriName n') \<and> nname n' = lit ''Backend'' \<and>
    prefix (lit ''NameService'' @ lit ''#'') (locKey n')"
  using corbaname_key_takes_fragment [of "\<lparr>addr = [address_init\<lparr>proto := lit ''rir''\<rparr>],
      locKey = lit ''NameService'', nname = lit ''Backend''\<rparr>" LE]
  by (simp add: address_ok_def key_ok_def uri_char_def is_alnum_def is_digit_def uri_punctuation_def)

text \<open>A host that cannot be mistaken for a version: at most two numbers are tried on it.\<close>

definition version_free :: "bytes \<Rightarrow> bool" where
  "version_free s \<longleftrightarrow>
     (let ds = takeWhile is_digit s; s1 = drop (length ds) s;
          es = takeWhile is_digit (drop 1 s1); s2 = drop (length es) (drop 1 s1)
      in ds = [] \<or> read_decimal ds < 2 ^ 32 \<and>
         (take 1 s1 \<noteq> lit ''.'' \<or> es = [] \<or> read_decimal es < 2 ^ 32 \<and> take 1 s2 \<noteq> lit ''@''))"

lemma takeWhile_drop: "xs = takeWhile p xs @ drop (length (takeWhile p xs)) xs"
  by (simp flip: dropWhile_eq_drop)

lemma version_skipped:
  assumes t: "at_text l s" and "version_free s"
  shows "parse_version a l = Inr (a, l)"
proof -
  define ds s1 es s2 where "ds = takeWhile is_digit s" and "s1 = drop (length ds) s"
    and "es = takeWhile is_digit (drop 1 s1)" and "s2 = drop (length es) (drop 1 s1)"
  have vf: "ds = [] \<or> read_decimal ds < 2 ^ 32 \<and>
      (take 1 s1 \<noteq> lit ''.'' \<or> es = [] \<or> read_decimal es < 2 ^ 32 \<and> take 1 s2 \<noteq> lit ''@'')"
    using assms(2) by (simp add: version_free_def Let_def ds_def s1_def es_def s2_def)
  have set: "set_pos (upos l) (step n l) = l" for n by (simp add: set_pos_def step_def)
  have s: "s = ds @ s1" unfolding s1_def ds_def by (rule takeWhile_drop)
  note n1 = number_at [OF t ds_def]
  have t1: "at_text (step (length ds) l) s1" using at_text_step [of l ds s1] t s by metis
  show ?thesis
  proof (cases "ds = []")
    case True
    then show ?thesis using n1 by (simp add: parse_version_def rd_bind_def)
  next
    case False
    then have d: "number l = Inr (Some (read_decimal ds), step (length ds) l)" using n1 vf by simp
    show ?thesis
    proof (cases "take 1 s1 = lit ''.''")
      case dot: False
      then have "match (lit ''.'') (step (length ds) l) = Inr (False, step (length ds) l)"
        using no_match_at [OF t1] by simp
      then show ?thesis using d by (simp add: parse_version_def rd_bind_def set)
    next
      case True
      then have s1: "s1 = lit ''.'' @ drop 1 s1" by (metis append_take_drop_id)
      then have t1': "at_text (step (length ds) l) (lit ''.'' @ drop 1 s1)" using t1 by metis
      note m = match_at [OF t1'] and t2 = at_text_step [OF t1']
      note n2 = number_at [OF t2 es_def]
      show ?thesis
      proof (cases "es = []")
        case True
        then show ?thesis using d m n2 by (simp add: parse_version_def rd_bind_def set)
      next
        case es: False
        then have e: "read_decimal es < 2 ^ 32" "take 1 s2 \<noteq> lit ''@''" using vf False True by auto
        have "drop 1 s1 = es @ s2" unfolding s2_def es_def by (rule takeWhile_drop)
        then have "at_text (step (length (lit ''.'')) (step (length ds) l)) (es @ s2)" using t2 by simp
        from no_match_at [OF at_text_step [OF this], of "lit ''@''"] e(2)
        have "match (lit ''@'') (step (length es) (step (length (lit ''.'')) (step (length ds) l))) =
            Inr (False, step (length es) (step (length (lit ''.'')) (step (length ds) l)))" by simp
        then show ?thesis using d m n2 es e(1) by (simp add: parse_version_def rd_bind_def set)
      qed
    qed
  qed
qed

text \<open>The URL of the documentation, \<open>corbaname::host:port#name\<close>, is decoded to that host and port,
  GIOP 1.0, the default key \<open>NameService\<close> and that name; the optional version is looked for and
  not found, also where the host is a dotted address that starts like one.\<close>

theorem corbaname_decoded:
  assumes "host_ok hst" and "key_ok name" and "name \<noteq> []"
    and "version_free (hst @ lit '':'' @ show_decimal (unat (p :: u16)) @ lit ''#'' @ name)"
  shows "decodeURI h (lit ''corbaname::'' @ hst @ lit '':'' @ show_decimal (unat p) @ lit ''#'' @ name) =
    Inr (UriName \<lparr>addr = [\<lparr>proto = lit ''iiop'', amajor = 1, aminor = 0, ahost = hst, aport = p\<rparr>],
                 locKey = lit ''NameService'', nname = name\<rparr>)"
proof -
  let ?a = "\<lparr>proto = lit ''iiop'', amajor = 1, aminor = 0, ahost = hst, aport = p\<rparr>"
  let ?p = "show_decimal (unat p)"
  let ?s = "lit ''corbaname:'' @ lit '':'' @ hst @ lit '':'' @ ?p @ lit ''#'' @ name"
  define l where "l = \<lparr>udata = ?s, upos = 0\<rparr>"
  have t: "at_text l ?s" by (simp add: l_def at_text_def)
  have no: "match (lit ''IOR:'') l = Inr (False, l)" "match (lit ''corbaloc:'') l = Inr (False, l)"
    by (rule no_match_at [OF t]; simp)+
  note m = match_at [OF t] and t1 = at_text_step [OF t]
  let ?l1 = "step (length (lit ''corbaname:'')) l"
  have no1: "match (lit ''rir:'') ?l1 = Inr (False, ?l1)" "match (lit ''iiop:'') ?l1 = Inr (False, ?l1)"
    by (rule no_match_at [OF t1]; simp)+
  note c = match_at [OF t1] and t2 = at_text_step [OF t1]
  note v = version_skipped [OF t2 assms(4), of address_init]
  let ?l2 = "step (length (lit '':'')) ?l1"
  have "at_text ?l2 (hst @ 0x3a # ?p @ lit ''#'' @ name)" using t2 by simp
  note hh = host_at [OF this assms(1), of address_init] and t3 = at_text_step [OF t2]
  note c2 = match_at [OF t3] and t4 = at_text_step [OF t3]
  have "stops is_digit (lit ''#'' @ name)" by (simp add: stops_def is_digit_def)
  note pp = port_at [OF t4 this, of "address_init\<lparr>ahost := hst\<rparr>"] and t5 = at_text_step [OF t4]
  let ?l5 = "step (length ?p) (step (length (lit '':'')) (step (length hst) ?l2))"
  have eq: "address_init\<lparr>ahost := hst, aport := p\<rparr> = ?a" by (simp add: address_init_def)
  have obj: "obj_addr address_init ?l1 = Inr ((True, ?a), ?l5)"
    using no1 c v hh c2 pp eq
    by (simp add: obj_addr_def prot_addr_def rir_prot_addr_def iiop_prot_addr_def iiop_id_def iiop_addr_def
        rd_bind_def address_init_def)
  have no5: "match (lit '','') ?l5 = Inr (False, ?l5)" "match (lit ''/'') ?l5 = Inr (False, ?l5)"
    by (rule no_match_at [OF t5]; simp)+
  have list: "obj_addr_list [] ?l1 = Inr ([?a], ?l5)"
    using one_address [OF obj no5(1)] by simp
  note hash = match_at [OF t5] and t6 = at_text_step [OF t5]
  note u = uri_end [OF t6 assms(2,3)]
  have "parse_uri h l = Inr (UriName \<lparr>addr = [?a], locKey = lit ''NameService'', nname = name\<rparr>,
      step (length name) (step (length (lit ''#'')) ?l5))"
    using no m list no5(2) hash u
    by (simp add: parse_uri_def corbaname_def corbaloc_def name_init_def rd_bind_def)
  then show ?thesis by (simp add: decodeURI_def l_def)
qed

theorem corbaname_decoded_witness:
  "decodeURI LE (lit ''corbaname::'' @ lit ''127.0.0.1'' @ lit '':'' @ show_decimal (unat (9003 :: u16)) @
      lit ''#'' @ lit ''Backend'') =
    Inr (UriName \<lparr>addr = [\<lparr>proto = lit ''iiop'', amajor = 1, aminor = 0, ahost = lit ''127.0.0.1'', aport = 9003\<rparr>],
                 locKey = lit ''NameService'', nname = lit ''Backend''\<rparr>)"
proof (rule corbaname_decoded [OF sample_host_ok(1)])
  show "version_free (lit ''127.0.0.1'' @ lit '':'' @ show_decimal (unat (9003 :: u16)) @ lit ''#'' @ lit ''Backend'')"
    by (simp add: version_free_def is_digit_def read_decimal_def)
qed (simp_all add: key_ok_def uri_char_def is_alnum_def is_digit_def uri_punctuation_def)

text \<open>The keys that are excluded above: \<open>str\<close> does not escape, so what looks like an escape is read as one.\<close>

lemma percent_key_misread:
  "\<exists>loc. CorbaLocation_str loc = lit ''corbaloc:rir:/%41'' \<and> locKey loc = lit ''%41'' \<and>
    decodeURI LE (CorbaLocation_str loc) = Inr (UriLocation (loc\<lparr>locKey := lit ''A''\<rparr>))"
proof -
  let ?loc = "\<lparr>addr = [address_init\<lparr>proto := lit ''rir''\<rparr>], locKey = lit ''%41''\<rparr>"
  have "CorbaLocation_str ?loc = lit ''corbaloc:rir:/%41''" by code_simp
  moreover have "decodeURI LE (lit ''corbaloc:rir:/%41'') = Inr (UriLocation (?loc\<lparr>locKey := lit ''A''\<rparr>))" by code_simp
  ultimately show ?thesis by (intro exI [of _ ?loc]) simp
qed

end
