(* ===== verification/Connections_Properties.thy ===== *)
theory Connections_Properties
  imports Connections ORB_Properties URL_Properties
begin

text \<open>
  Properties of the pool and of the connections of an ORB: the contract of the pool as a locale,
  which connection is found, callbacks over the connection the client opened, and objects
  behind URLs.
\<close>

section \<open>The contract of the pool\<close>

text \<open>
  A pool of objects, some of which have a property. \<open>find\<close> takes the property; which of several
  objects it finds is not promised.
\<close>

locale object_pool =
  fixes members :: "'p \<Rightarrow> 'c set"
    and ins del :: "'c \<Rightarrow> 'p \<Rightarrow> 'p"
    and find :: "('c \<Rightarrow> bool) \<Rightarrow> 'p \<Rightarrow> 'c option"
    and ok :: "'p \<Rightarrow> bool"
  assumes members_ins: "members (ins c p) = insert c (members p)"
    and members_del: "members (del c p) = members p - {c}"
    and ok_ins: "ok p \<Longrightarrow> ok (ins c p)"
    and ok_del: "ok p \<Longrightarrow> ok (del c p)"
    and find_some: "find P p = Some c \<Longrightarrow> c \<in> members p \<and> P c"
    and find_none: "find P p = None \<Longrightarrow> \<forall>c\<in>members p. \<not> P c"
begin

lemma find_member:
  assumes "c \<in> members p" and "P c"
  obtains c' where "find P p = Some c'" and "c' \<in> members p" and "P c'"
  using assms find_some find_none by (cases "find P p") blast+

lemma find_only:
  assumes "c \<in> members p" and "P c" and "\<And>c'. c' \<in> members p \<Longrightarrow> P c' \<Longrightarrow> c' = c"
  shows "find P p = Some c"
  using find_member [of c p P] assms by metis

text \<open>What is looked for in vain and then inserted is what is found afterwards.\<close>

lemma find_inserted:
  assumes "\<forall>x\<in>members p. x \<noteq> c \<longrightarrow> \<not> P x" and "P c"
  shows "find P (ins c p) = Some c"
  by (rule find_only) (use assms in \<open>auto simp: members_ins\<close>)

lemma find_after_del: "find P (del c p) = Some c' \<Longrightarrow> c' \<noteq> c \<and> c' \<in> members p \<and> P c'"
  using find_some [of P "del c p" c'] by (auto simp: members_del)

lemma ins_del: "ok p \<Longrightarrow> members (del c (ins c p)) = members p - {c}"
  by (simp add: members_ins members_del)

end

definition is_remote :: "network \<Rightarrow> HostAndPort \<Rightarrow> cref \<Rightarrow> bool" where
  "is_remote n a c \<longleftrightarrow> host (remote (conn_at n c)) = host a \<and> port (remote (conn_at n c)) = port a"

lemma is_remote_eq: "is_remote n a c \<longleftrightarrow> remote (conn_at n c) = a"
  by (auto simp: is_remote_def)

lemma find_remote_eq: "find_remote n a cs = List.find (is_remote n a) cs"
  by (induction cs) (simp_all add: is_remote_def)

interpretation pool: object_pool set pool_insert pool_erase List.find "\<lambda>p. sorted p \<and> distinct p"
proof
  show "List.find P p = Some c \<Longrightarrow> c \<in> set p \<and> P c" for P c and p :: "cref list"
    by (auto simp: find_Some_iff)
  show "List.find P p = None \<Longrightarrow> \<forall>c\<in>set p. \<not> P c" for P and p :: "cref list"
    by (auto simp: find_None_iff)
qed (auto simp: pool_insert_def pool_erase_def set_insort_key sorted_insort distinct_insort sorted_filter [where f = "\<lambda>x. x", simplified])

lemma findByRemote_eq: "findByRemote n hst prt = List.find (is_remote n \<lparr>host = c_str hst, port = prt\<rparr>) (pool n)"
  by (simp add: findByRemote_def find_remote_eq)

section \<open>Outgoing connections\<close>

lemma gotten_connection:
  assumes "getConnection uuid fresh hst prt n = Inr (c, n')"
  shows "findByRemote n' hst prt = Some c" and "remote (conn_at n' c) = \<lparr>host = c_str hst, port = prt\<rparr>"
    and "c \<in> set (pool n')"
proof -
  let ?a = "\<lparr>host = c_str hst, port = prt\<rparr>"
  show found: "findByRemote n' hst prt = Some c"
  proof (cases "findByRemote n hst prt")
    case (Some c')
    then show ?thesis using assms by (simp add: getConnection_def)
  next
    case None
    then have n': "c = fresh" "pool n' = pool_insert fresh (pool n)"
        "conn_at n' = (conn_at n)(fresh := conn_init None \<lparr>host = c_str hst, port = prt\<rparr>)"
      using assms by (auto simp: getConnection_def connectOutgoing_def Let_def split: list.splits)
    have "\<forall>x\<in>set (pool n). \<not> is_remote n ?a x" using pool.find_none None by (simp add: findByRemote_eq)
    then have "\<forall>x\<in>set (pool n). x \<noteq> fresh \<longrightarrow> \<not> is_remote n' ?a x" "is_remote n' ?a fresh"
      by (auto simp: is_remote_def n'(3) conn_init_def)
    then show ?thesis unfolding findByRemote_eq n'(1,2) by (rule pool.find_inserted)
  qed
  then show "remote (conn_at n' c) = ?a" "c \<in> set (pool n')"
    by (auto simp: findByRemote_eq is_remote_eq dest: pool.find_some)
qed

text \<open>\<open>getConnection\<close> gives a connection to that host and port, which is in the pool; asked again for
  the same host and port it gives the same connection, whatever the address and random number
  a new one would have got, and leaves the pool as it is.\<close>

theorem connection_reused:
  assumes "getConnection uuid fresh hst prt n = Inr (c, n')"
  shows "remote (conn_at n' c) = \<lparr>host = c_str hst, port = prt\<rparr> \<and> c \<in> set (pool n') \<and>
    getConnection uuid' fresh' hst prt n' = Inr (c, n')"
  using gotten_connection [OF assms] by (simp add: getConnection_def)

section \<open>Callbacks\<close>


text \<open>The connection of the server after the client's first request has come in.\<close>

lemma heard_first:
  "\<not> didSendBiDirIIOP c \<Longrightarrow> protocol_local c = Some l \<Longrightarrow> heard (Some c) rc = Some (renamed l rc)"
  by (simp add: heard_def)

lemma first_request_renames:
  assumes "callable st cc operation" and "\<not> didSendBiDirIIOP cc" and "protocol_local cc = Some l"
    and "gemits (\<lambda>_. True) encode (\<lambda>e. e) args" and "short args"
    and "twowayCall (nhost cl) st operation encode = Inr (rid, msg, cc')"
    and "receive sv waiting sc msg us = Inr (sc', fx, us')"
  shows "sc' = Some (renamed l sc)"
proof -
  let ?msg = "request_layout (native (nhost cl)) 1 2 (Some cc) (stub_key st) operation (requestId cc) True args"
  have st: "stub_conn st = Some cc" "sendable (Some cc) (stub_key st) operation" using assms(1) by (simp_all add: callable_def)
  have len: "length ?msg < 2 ^ 32" using assms(1,5) by (intro request_fits) (simp_all add: callable_def short_def)
  have two: "(2 :: u32) < 256" by simp
  have msg: "msg = ?msg" using call_request_layout [OF st assms(4)] assms(6) by (auto simp: twowayCall_def)
  obtain g where "receive sv waiting sc ?msg us =
      (case handle_request (nhost sv) (nenv sv) (norb sv) (request_of st cc operation) g us of
         Inl err \<Rightarrow> Inl err | Inr (fx, u') \<Rightarrow> Inr (heard (Some cc) sc, fx, u'))"
    unfolding receive_def request_of_def by (rule request_received [OF two st(2) native_not_0 len])
  then show ?thesis using assms(7) heard_first [OF assms(2,3)] by (simp add: msg split: sum.splits prod.splits)
qed

text \<open>C26. A server calls the client back over the connection the client opened: after the client's first
  request on it, the server asks for a connection to the address the client listens at, and gets the one
  the request came over, although that was accepted from another host and port. This holds exactly if the
  address differs from the one the connection was accepted from in host and in port, or in neither: if
  only one of them differs, a new connection is made.\<close>

theorem callback_reuses_connection:
  assumes "callable st cc operation" and "\<not> didSendBiDirIIOP cc" and "protocol_local cc = Some l"
    and "gemits (\<lambda>_. True) encode (\<lambda>e. e) args" and "short args"
    and "twowayCall (nhost cl) st operation encode = Inr (rid, msg, cc')"
    and "receive sv waiting (connection_of n c) msg us = Inr (Some sc', fx, us')"
    and "c \<in> set (pool n)" and "\<forall>x\<in>set (pool n). x \<noteq> c \<longrightarrow> remote (conn_at n x) \<noteq> l"
    and "0 \<notin> set (host l)" and "n' = n\<lparr>conn_at := (conn_at n)(c := sc')\<rparr>"
  shows "if (host l \<noteq> host (remote (conn_at n c))) = (port l \<noteq> port (remote (conn_at n c)))
    then getConnection uuid fresh (host l) (port l) n' = Inr (c, n')
    else \<forall>c2 n2. getConnection uuid fresh (host l) (port l) n' = Inr (c2, n2) \<longrightarrow> c2 = fresh"
proof -
  have sc': "sc' = renamed l (connection_of n c)" using first_request_renames [OF assms(1-7)] by simp
  let ?r = "remote (conn_at n c)"
  have r: "remote sc' = (if host l \<noteq> host ?r \<and> port l \<noteq> port ?r then l else ?r)"
    by (simp add: sc' renamed_def connection_of_def)
  have l: "\<lparr>host = c_str (host l), port = port l\<rparr> = l"
    using assms(10) takeWhile_eq_all_conv [of "\<lambda>x. x \<noteq> 0" "host l"] by (metis c_str_def HostAndPort.surjective old.unit.exhaust)
  have remote_of: "remote (conn_at n' x) = (if x = c then remote sc' else remote (conn_at n x))" "pool n' = pool n" for x
    using assms(11) by simp_all
  show ?thesis
  proof (cases "(host l \<noteq> host ?r) = (port l \<noteq> port ?r)")
    case True
    then have "remote sc' = l" using r by (cases "host l = host ?r") (auto intro: HostAndPort.equality)
    with l have "findByRemote n' (host l) (port l) = Some c"
      unfolding findByRemote_eq using assms(8,9) by (intro pool.find_only) (auto simp: is_remote_eq remote_of split: if_splits)
    then show ?thesis using True by (simp add: getConnection_def)
  next
    case False
    then have "remote sc' \<noteq> l" using r by auto
    with l have "findByRemote n' (host l) (port l) = None"
      unfolding findByRemote_eq using assms(9) by (auto simp: is_remote_eq remote_of find_None_iff)
    then show ?thesis using False by (auto simp: getConnection_def Let_def split: list.splits)
  qed
qed

section \<open>Objects behind URLs\<close>

lemma decodeURI_IOR:
  "decodeURI h (lit ''IOR:'' @ s) =
     (case ior_of_string h (lit ''IOR:'' @ s) of Inl err \<Rightarrow> Inl err | Inr ref \<Rightarrow> Inr (UriIOR ref))"
proof -
  let ?l = "\<lparr>udata = lit ''IOR:'' @ s, upos = 0\<rparr>"
  have "at_text ?l (lit ''IOR:'' @ s)" by (simp add: at_text_def)
  from match_at [OF this] have "match (lit ''IOR:'') ?l = Inr (True, step 4 ?l)" by simp
  then show ?thesis
    by (simp add: decodeURI_def parse_uri_def rd_bind_def step_def split: sum.split del: lit_simps)
qed

text \<open>C31. A stringified reference names the object it was made of: \<open>stringToObject\<close> gives back the
  repository id, the address and the object key a server has marshalled, on a host of either byte
  order, and opens no connection.\<close>

theorem string_to_reference:
  assumes "reach stub c = Some a" and "referable className a key"
  shows "\<exists>e. writeReference h className key stub (on_buf (writeEndian h) (giop_enc_init (Some c))) = Inr e \<and>
    stringToObject h' uuid fresh (lit ''IOR:'' @ show_blob (edata (reserve_all (ebuf e)))) n =
      Inr (Reference \<lparr>oid = className, ior_host = host a, ior_port = port a, objectKey = key\<rparr>, n)"
proof -
  from ior_string_roundtrip [OF assms, of "[]" "[]" h h']
  obtain e where e: "writeReference h className key stub (on_buf (writeEndian h) (giop_enc_init (Some c))) = Inr e"
    "ior_of_string h' (lit ''IOR:'' @ show_blob (edata (reserve_all (ebuf e)))) =
      Inr \<lparr>oid = className, ior_host = host a, ior_port = port a, objectKey = key\<rparr>" by auto
  show ?thesis
    by (intro exI [of _ e]) (simp add: e stringToObject_def decodeURI_IOR del: lit_simps)
qed

text \<open>C20. The URL of the documentation finds the object bound under its name: \<open>stringToObject\<close> opens a
  connection to the host and port, or uses the one there is, asks the name service at its other end with
  \<open>resolve_str\<close>, and gets the reference of the servant the server has bound under the name.\<close>

theorem corbaname_resolved:
  assumes url: "host_ok hst" "key_ok name" "name \<noteq> []"
      "version_free (hst @ lit '':'' @ show_decimal (unat (p :: u16)) @ lit ''#'' @ name)"
    and conn: "getConnection uuid fresh hst p n = Inr (c, n')" "c_str hst = hst"
      "callable \<lparr>stub_key = lit ''NameService'', stub_conn = Some (connection_of n' c)\<rparr> (connection_of n' c) (lit ''resolve_str'')"
    and server: "servants (norb sv) (lit ''NameService'') = Some ns" "contexts (norb sv) ns = Some names"
      "names name = Some (ServantRef obj)" "protocol_local sc = Some a"
    and small: "length name < 2 ^ 28"
      "length (sk_rid (skels (norb sv) obj)) + length (host a) + length (sk_key (skels (norb sv) obj)) < 2 ^ 28"
  shows "\<exists>st. stringToObject (nhost cl) uuid fresh
      (lit ''corbaname::'' @ hst @ lit '':'' @ show_decimal (unat p) @ lit ''#'' @ name) n = Inr (AskNames st name, n') \<and>
    remote (the (stub_conn st)) = \<lparr>host = hst, port = p\<rparr> \<and>
    round_trip cl sv sc st (lit ''resolve_str'') (resolve_str_encode (nhost cl) name) (resolve_str_decode (nhost cl)) uc us =
      (Value \<lparr>oid = sk_rid (skels (norb sv) obj), ior_host = host a, ior_port = port a,
         objectKey = sk_key (skels (norb sv) obj)\<rparr>, us)"
proof -
  let ?st = "\<lparr>stub_key = lit ''NameService'', stub_conn = Some (connection_of n' c)\<rparr>"
  have "stringToObject (nhost cl) uuid fresh
      (lit ''corbaname::'' @ hst @ lit '':'' @ show_decimal (unat p) @ lit ''#'' @ name) n = Inr (AskNames ?st name, n')"
    unfolding stringToObject_def corbaname_decoded [OF url] Let_def by (simp add: conn(1))
  moreover have "remote (connection_of n' c) = \<lparr>host = hst, port = p\<rparr>"
    using gotten_connection [OF conn(1)] conn(2) by (simp add: connection_of_def)
  moreover have "round_trip cl sv sc ?st (lit ''resolve_str'') (resolve_str_encode (nhost cl) name)
      (resolve_str_decode (nhost cl)) uc us =
      (Value \<lparr>oid = sk_rid (skels (norb sv) obj), ior_host = host a, ior_port = port a,
         objectKey = sk_key (skels (norb sv) obj)\<rparr>, us)"
    by (rule name_resolved [OF conn(3) small(1) _ server(2-4) small(2)]) (simp add: server(1) del: lit_simps)
  ultimately show ?thesis by (intro exI [of _ ?st]) simp
qed


section \<open>Witnesses\<close>

text \<open>An ORB listening at the address of the sample connection, which has accepted one connection.\<close>

definition sample_net :: network where
  "sample_net = \<lparr>pool = [3], conn_at = (\<lambda>_. sample_connection), protocol_of = (\<lambda>_. Some 0),
     protos = (\<lambda>_. \<lparr>plocal = \<lparr>host = lit ''backend'', port = 2809\<rparr>, porb = True\<rparr>), protocols = [0]\<rparr>"

lemma sample_net_simps: "connection_of sample_net 3 = sample_connection" "pool sample_net = [3]"
    "conn_at sample_net c = sample_connection" "protocols sample_net = [0]" "host (plocal (protos sample_net p)) = lit ''backend''"
    "remote sample_connection = \<lparr>host = lit ''frontend'', port = 9001\<rparr>"
  by (simp_all add: sample_net_def connection_of_def sample_connection_def conn_init_def)

definition sample_outgoing :: network where
  "sample_outgoing = (connectOutgoing 5 0 (lit ''server'') 2809 sample_net)\<lparr>pool := [3, 5]\<rparr>"

lemma sample_gets:
  "getConnection uuid 5 (lit ''server'') 2809 sample_net = Inr (5, sample_outgoing)"
  by (simp add: getConnection_def findByRemote_def sample_net_simps c_str_def Let_def sample_outgoing_def
      connectOutgoing_def pool_insert_def)

lemma connection_reused_witness:
  "getConnection (lit ''1b4e28ba'') 9 (lit ''server'') 2809 sample_outgoing = Inr (5, sample_outgoing)"
  using connection_reused [OF sample_gets] by blast

lemma callback_reuses_connection_witness:
  "\<exists>n'. getConnection [] 5 (host \<lparr>host = lit ''backend'', port = 2809\<rparr>) (port \<lparr>host = lit ''backend'', port = 2809\<rparr>) n' =
     Inr (3, n') \<and> pool n' = [3]"
proof -
  let ?encode = "wr_ok (on_buf (writeUlong LE 41))" and ?args = "cdr_ulong (native LE) 41"
  let ?st = "sample_stub (lit ''OID:2'')" and ?c = sample_connection and ?op = "lit ''next''"
  note call = sample_callable [of "lit ''OID:2''" ?op]
  have call: "callable ?st ?c ?op" by (rule sample_callable) simp
  then have st: "stub_conn ?st = Some ?c" "sendable (Some ?c) (stub_key ?st) ?op" by (simp_all add: callable_def)
  let ?msg = "request_layout (native LE) 1 2 (Some ?c) (stub_key ?st) ?op (requestId ?c) True ?args"
  have len: "length ?msg < 2 ^ 32"
    using call short_ulong [of "native LE" 41] by (intro request_fits) (simp_all add: callable_def short_def)
  have two: "(2 :: u32) < 256" by simp
  have sent: "twowayCall (nhost (sample_node LE)) ?st ?op ?encode = Inr (requestId ?c, ?msg, Some (told (next_call ?c)))"
    using call_request_layout [OF st sample_args] by (simp add: twowayCall_def sample_node_def)
  obtain g where "receive (sample_node BE) (\<lambda>_. False) ?c ?msg 0 =
      (case handle_request (nhost (sample_node BE)) (nenv (sample_node BE)) (norb (sample_node BE)) (request_of ?st ?c ?op) g 0 of
         Inl err \<Rightarrow> Inl err | Inr (fx, u') \<Rightarrow> Inr (heard (Some ?c) ?c, fx, u'))"
    unfolding receive_def request_of_def by (rule request_received [OF two st(2) native_not_0 len])
  then obtain fx where received: "receive (sample_node BE) (\<lambda>_. False) (connection_of sample_net 3) ?msg 0 =
      Inr (Some (renamed \<lparr>host = lit ''backend'', port = 2809\<rparr> ?c), fx, 0)"
    using heard_first [of ?c _ ?c] sample_local
    by (simp add: handle_request_def request_of_def sample_simps sample_net_simps) (simp add: sample_connection_def conn_init_def)
  have no_nul: "0 \<notin> set (host \<lparr>host = lit ''backend'', port = 2809\<rparr>)" by simp
  let ?n' = "sample_net\<lparr>conn_at := (conn_at sample_net)
    (3 := renamed \<lparr>host = lit ''backend'', port = 2809\<rparr> ?c)\<rparr>"
  have first: "\<not> didSendBiDirIIOP ?c" by (simp add: sample_connection_def conn_init_def)
  have "if (host \<lparr>host = lit ''backend'', port = 2809\<rparr> \<noteq> host (remote (conn_at sample_net 3))) =
      (port \<lparr>host = lit ''backend'', port = 2809\<rparr> \<noteq> port (remote (conn_at sample_net 3)))
    then getConnection [] 5 (host \<lparr>host = lit ''backend'', port = 2809\<rparr>) (port \<lparr>host = lit ''backend'', port = 2809\<rparr>) ?n' = Inr (3, ?n')
    else \<forall>c2 n2. getConnection [] 5 (host \<lparr>host = lit ''backend'', port = 2809\<rparr>) (port \<lparr>host = lit ''backend'', port = 2809\<rparr>) ?n' =
      Inr (c2, n2) \<longrightarrow> c2 = 5"
    by (rule callback_reuses_connection [OF call first sample_local sample_args short_ulong sent received _ _ no_nul refl])
       (simp_all add: sample_net_simps)
  moreover have "host \<lparr>host = lit ''backend'', port = 2809\<rparr> \<noteq> host (remote (conn_at sample_net 3))"
    "port \<lparr>host = lit ''backend'', port = 2809\<rparr> \<noteq> port (remote (conn_at sample_net 3))" by (simp_all add: sample_net_simps)
  ultimately have "getConnection [] 5 (host \<lparr>host = lit ''backend'', port = 2809\<rparr>) (port \<lparr>host = lit ''backend'', port = 2809\<rparr>) ?n' =
      Inr (3, ?n')" by argo
  then show ?thesis by (intro exI [of _ ?n'] conjI, assumption) (simp add: sample_net_simps)
qed

lemma string_to_reference_witness:
  "\<exists>e. writeReference BE (lit ''IDL:A:1.0'') [1, 2] False
      (on_buf (writeEndian BE) (giop_enc_init (Some sample_connection))) = Inr e \<and>
    stringToObject LE [] 5 (lit ''IOR:'' @ show_blob (edata (reserve_all (ebuf e)))) sample_net =
      Inr (Reference \<lparr>oid = lit ''IDL:A:1.0'', ior_host = host \<lparr>host = lit ''backend'', port = 2809\<rparr>,
        ior_port = port \<lparr>host = lit ''backend'', port = 2809\<rparr>, objectKey = [1, 2]\<rparr>, sample_net)"
  by (rule string_to_reference [of False sample_connection])
     (simp_all add: reach_def sample_local referable_def fits_def)

lemma corbaname_resolved_witness:
  "\<exists>st. stringToObject (nhost (sample_node LE)) [] 5
      (lit ''corbaname::'' @ lit ''server'' @ lit '':'' @ show_decimal (unat (2809 :: u16)) @ lit ''#'' @ lit ''Backend'') sample_net =
      Inr (AskNames st (lit ''Backend''), sample_outgoing) \<and>
    remote (the (stub_conn st)) = \<lparr>host = lit ''server'', port = 2809\<rparr> \<and>
    round_trip (sample_node LE) (sample_node BE) sample_connection st (lit ''resolve_str'')
      (resolve_str_encode (nhost (sample_node LE)) (lit ''Backend'')) (resolve_str_decode (nhost (sample_node LE))) 0 7 =
      (Value \<lparr>oid = sk_rid (skels (norb (sample_node BE)) 1), ior_host = host \<lparr>host = lit ''backend'', port = 2809\<rparr>,
         ior_port = port \<lparr>host = lit ''backend'', port = 2809\<rparr>,
         objectKey = sk_key (skels (norb (sample_node BE)) 1)\<rparr>, 7)"
proof (rule corbaname_resolved [where ns = 0 and names = "[lit ''Backend'' \<mapsto> ServantRef 1]", OF _ _ _ _ sample_gets])
  show "callable \<lparr>stub_key = lit ''NameService'', stub_conn = Some (connection_of sample_outgoing 5)\<rparr>
      (connection_of sample_outgoing 5) (lit ''resolve_str'')"
    by (simp add: callable_def sendable_def fits_def connection_of_def sample_outgoing_def connectOutgoing_def conn_init_def
        sample_net_def listen_host_def)
  show "version_free (lit ''server'' @ lit '':'' @ show_decimal (unat (2809 :: u16)) @ lit ''#'' @ lit ''Backend'')"
    by (simp add: version_free_def is_digit_def)
  have "label_ok (lit ''server'')" by (simp add: label_ok_def label_char_def is_alnum_def is_digit_def)
  then show "host_ok (lit ''server'')"
    unfolding host_ok_def by (intro disjI1 exI [of _ "[lit ''server'']"]) (simp del: lit_simps)
  show "key_ok (lit ''Backend'')" "lit ''Backend'' \<noteq> []"
    by (simp_all add: key_ok_def uri_char_def is_alnum_def is_digit_def uri_punctuation_def)
qed (simp_all add: sample_simps sample_local c_str_def)

end
