(* ===== verification/Sockets.thy ===== *)
theory Sockets
  imports Exceptions "HOL-Library.Multiset"
begin

text \<open>
  Making sockets (src/corba/net/util/socket.cc) and listening (src/corba/net/tcp/protocol.cc).
  What the operating system answers is an argument; the effects are the descriptors that are
  opened and closed.
\<close>

section \<open>Descriptors\<close>

datatype fd_effect = Opened int | ClosedFd int

text \<open>The descriptors that are open after these effects.\<close>

fun open_after :: "int multiset \<Rightarrow> fd_effect list \<Rightarrow> int multiset" where
  "open_after fds [] = fds"
| "open_after fds (Opened fd # fx) = open_after (add_mset fd fds) fx"
| "open_after fds (ClosedFd fd # fx) = open_after (fds - {#fd#}) fx"

section \<open>Connecting\<close>

text \<open>
  An address of \<open>getaddrinfo\<close>: what \<open>socket\<close> returns for it, and what \<open>connect\<close> answers in
  turn. The results of \<open>set_non_block\<close> and \<open>set_no_delay\<close> are not looked at here.
\<close>

datatype connect_answer = Connected | InProgress | Interrupted | Refused_connect

record connect_attempt =
  csock :: int
  canswers :: "connect_answer list"

text \<open>The loop around \<open>connect\<close>; \<open>None\<close>: it has not come to an end with these answers.\<close>

fun connect_retry :: "connect_answer list \<Rightarrow> connect_answer option" where
  "connect_retry [] = None"
| "connect_retry (Interrupted # as) = connect_retry as"
| "connect_retry (a # as) = Some a"

fun connect_loop :: "connect_attempt list \<Rightarrow> (int \<times> fd_effect list) option" where
  "connect_loop [] = Some (-1, [])"
| "connect_loop (a # as) =
     (if csock a = -1 then connect_loop as
      else case connect_retry (canswers a) of
          None \<Rightarrow> None
        | Some r \<Rightarrow>
            if r = Connected \<or> r = InProgress then Some (csock a, [Opened (csock a)])
            else map_option (\<lambda>(fd, fx). (fd, Opened (csock a) # ClosedFd (csock a) # fx)) (connect_loop as))"

text \<open>\<open>None\<close> for the addresses: \<open>getaddrinfo\<close> fails.\<close>

definition connect_to :: "connect_attempt list option \<Rightarrow> (int \<times> fd_effect list) option" where
  "connect_to res = (case res of None \<Rightarrow> Some (-1, []) | Some as \<Rightarrow> connect_loop as)"

section \<open>Listening\<close>

record listen_attempt =
  lsock :: int
  reuse_ok :: bool
  bind_ok :: bool
  listen_ok :: bool

fun listen_loop :: "listen_attempt list \<Rightarrow> int list \<times> fd_effect list" where
  "listen_loop [] = ([], [])"
| "listen_loop (a # as) =
     (let (fds, fx) = listen_loop as in
      if lsock a = -1 then (fds, fx)
      else if \<not> reuse_ok a then (fds, Opened (lsock a) # ClosedFd (lsock a) # fx)
      else if \<not> bind_ok a then (fds, Opened (lsock a) # ClosedFd (lsock a) # fx)
      else if \<not> listen_ok a then (fds, Opened (lsock a) # ClosedFd (lsock a) # fx)
      else (lsock a # fds, Opened (lsock a) # fx))"

definition create_listen_socket :: "listen_attempt list option \<Rightarrow> int list \<times> fd_effect list" where
  "create_listen_socket res = (case res of None \<Rightarrow> ([], []) | Some as \<Rightarrow> listen_loop as)"

section \<open>Options\<close>

text \<open>
  \<open>fcntl\<close> until it is not interrupted: \<open>get\<close> and \<open>set\<close> are its answers, \<open>None\<close> for an error other than
  \<open>EINTR\<close>. \<open>nonblock\<close> is \<open>O_NONBLOCK\<close>. The result is what the function
  returns and the flags that have been set.
\<close>

datatype 'a fcntl_answer = FcntlInterrupted | FcntlFailed | FcntlOk 'a

fun fcntl_retry :: "'a fcntl_answer list \<Rightarrow> 'a option option" where
  "fcntl_retry [] = None"
| "fcntl_retry (FcntlInterrupted # as) = fcntl_retry as"
| "fcntl_retry (FcntlFailed # as) = Some None"
| "fcntl_retry (FcntlOk x # as) = Some (Some x)"

definition set_non_block :: "u32 \<Rightarrow> u32 fcntl_answer list \<Rightarrow> unit fcntl_answer list \<Rightarrow> (int \<times> u32 option) option" where
  "set_non_block nonblock get set1 =
     (case fcntl_retry get of
        None \<Rightarrow> None
      | Some None \<Rightarrow> Some (-1, None)
      | Some (Some flags) \<Rightarrow>
          (case fcntl_retry set1 of
             None \<Rightarrow> None
           | Some None \<Rightarrow> Some (-1, None)
           | Some (Some _) \<Rightarrow> Some (0, Some (or flags nonblock))))"

section \<open>Names of sockets\<close>

text \<open>
  A \<open>sockaddr_storage\<close> by its family, with the address and the port in network byte order.
  \<open>ntop4\<close> and \<open>ntop6\<close> are the two uses of \<open>inet_ntop\<close>.
\<close>

datatype sockaddr = Inet bytes bytes | Inet6 bytes bytes | OtherFamily

definition ntohs :: "bytes \<Rightarrow> u16" where
  "ntohs bs = (case bs of [hi, lo] \<Rightarrow> push_bit 8 (ucast hi) + ucast lo | _ \<Rightarrow> 0)"

fun addr2HostAndPort :: "(bytes \<Rightarrow> bytes) \<Rightarrow> (bytes \<Rightarrow> bytes) \<Rightarrow> sockaddr \<Rightarrow> HostAndPort" where
  "addr2HostAndPort ntop4 ntop6 (Inet ip prt) = \<lparr>host = ntop4 ip, port = ntohs prt\<rparr>"
| "addr2HostAndPort ntop4 ntop6 (Inet6 ip prt) = \<lparr>host = ntop6 ip, port = ntohs prt\<rparr>"
| "addr2HostAndPort ntop4 ntop6 OtherFamily = \<lparr>host = [], port = 0\<rparr>"

section \<open>The listening protocol\<close>

record listener =
  llocal :: HostAndPort
  listeners :: "int list"

text \<open>The host is a C string or the null pointer, which \<open>std::string\<close> does not take.\<close>

definition tcp_listen ::
    "bytes option \<Rightarrow> u32 \<Rightarrow> listen_attempt list option \<Rightarrow> listener \<Rightarrow> listener \<times> fd_effect list \<times> (error + system_exception) option" where
  "tcp_listen hst prt res p =
     (case hst of
        None \<Rightarrow> (p, [], Some (Inl NullDeref))
      | Some s \<Rightarrow>
          (let p1 = p\<lparr>llocal := \<lparr>host = takeWhile (\<lambda>c. c \<noteq> 0) s, port = ucast prt\<rparr>\<rparr>;
               (sockets, fx) = create_listen_socket res
           in if sockets = []
              then (p1, fx, Some (Inr \<lparr>sclass = INITIALIZE, sminor = 0x4154000d, scompleted = YES\<rparr>))
              else (p1\<lparr>listeners := listeners p1 @ sockets\<rparr>, fx, None)))"

definition tcp_shutdown :: "listener \<Rightarrow> listener \<times> fd_effect list" where
  "tcp_shutdown p = (p\<lparr>listeners := []\<rparr>, map ClosedFd (listeners p))"

end
