(* ===== verification/Sockets_Properties.thy ===== *)
theory Sockets_Properties
  imports Sockets
begin

text \<open>
  Properties of making sockets: which address is used, and that no descriptor is lost.
\<close>

section \<open>Connecting\<close>

definition usable :: "connect_attempt \<Rightarrow> bool" where
  "usable a \<longleftrightarrow> csock a \<noteq> -1 \<and> (connect_retry (canswers a) = Some Connected \<or> connect_retry (canswers a) = Some InProgress)"

lemma connect_retry_answer: "connect_retry as = Some r \<Longrightarrow> r \<noteq> Interrupted"
  by (induction as rule: connect_retry.induct) auto

lemma connect_loop_first:
  "connect_loop as = Some (fd, fx) \<Longrightarrow>
   open_after fds fx = (if fd = -1 then fds else add_mset fd fds) \<and>
   fd = (case find usable as of None \<Rightarrow> -1 | Some a \<Rightarrow> csock a)"
proof (induction as arbitrary: fd fx)
  case (Cons a as)
  show ?case
  proof (cases "usable a")
    case True
    then show ?thesis using Cons.prems by (auto simp: usable_def)
  next
    case False
    then have "(\<exists>fx'. connect_loop as = Some (fd, fx') \<and> open_after fds fx = open_after fds fx')"
      using Cons.prems by (auto simp: usable_def split: if_splits option.splits)
    then show ?thesis using Cons.IH False by auto
  qed
qed simp

text \<open>\<open>connect_to\<close> tries the addresses in their order and returns the socket of the first one that
  connects or is connecting, -1 when there is none, and leaves no other descriptor
  open.\<close>

theorem connect_to_first:
  assumes "connect_to (Some as) = Some (fd, fx)"
  shows "fd = (case find usable as of None \<Rightarrow> -1 | Some a \<Rightarrow> csock a) \<and>
    open_after fds fx = (if fd = -1 then fds else add_mset fd fds)"
  using connect_loop_first [of as fd fx fds] assms by (simp add: connect_to_def)

lemma connect_to_first_witness:
  "7 = (case find usable [\<lparr>csock = 5, canswers = [Interrupted, Refused_connect]\<rparr>, \<lparr>csock = -1, canswers = []\<rparr>,
      \<lparr>csock = 7, canswers = [Interrupted, InProgress]\<rparr>] of None \<Rightarrow> -1 | Some a \<Rightarrow> csock a) \<and>
    open_after {#0#} [Opened 5, ClosedFd 5, Opened 7] = add_mset (7 :: int) {#0#}"
  using connect_to_first [of "[\<lparr>csock = 5, canswers = [Interrupted, Refused_connect]\<rparr>, \<lparr>csock = -1, canswers = []\<rparr>,
      \<lparr>csock = 7, canswers = [Interrupted, InProgress]\<rparr>]" 7 "[Opened 5, ClosedFd 5, Opened 7]" "{#0#}"]
  by (simp add: connect_to_def)

section \<open>Listening\<close>

definition listens :: "listen_attempt \<Rightarrow> bool" where
  "listens a \<longleftrightarrow> lsock a \<noteq> -1 \<and> reuse_ok a \<and> bind_ok a \<and> listen_ok a"

lemma listen_loop_balance:
  "listen_loop as = (sockets, fx) \<Longrightarrow>
   sockets = map lsock (filter listens as) \<and> open_after fds fx = fds + mset sockets"
proof (induction as arbitrary: sockets fx fds)
  case (Cons a as)
  obtain ss fx' where l: "listen_loop as = (ss, fx')" by fastforce
  show ?case using Cons.IH [OF l] Cons.prems l by (auto simp: listens_def split: if_splits)
qed simp

lemma closing: "open_after (mset fds) (map ClosedFd fds) = {#}"
  by (induction fds) simp_all

lemma open_after_append: "open_after fds (fx @ fx') = open_after (open_after fds fx) fx'"
  by (induction fds fx rule: open_after.induct) simp_all

inductive listening :: "fd_effect list \<Rightarrow> listener \<Rightarrow> bool" where
  begins: "listening [] \<lparr>llocal = \<lparr>host = [], port = 0\<rparr>, listeners = []\<rparr>"
| listens: "listening fx p \<Longrightarrow> tcp_listen hst prt res p = (p', fx', e) \<Longrightarrow> listening (fx @ fx') p'"
| shuts_down: "listening fx p \<Longrightarrow> tcp_shutdown p = (p', fx') \<Longrightarrow> listening (fx @ fx') p'"

text \<open>Over any sequence of \<open>listen\<close> and \<open>shutdown\<close>, also where some addresses cannot be bound or
  \<open>listen\<close> throws, the descriptors that are open are those of the listeners, so a shutdown
  leaves none.\<close>

theorem listeners_are_open:
  assumes "listening fx p"
  shows "open_after {#} fx = mset (listeners p) \<and>
    open_after {#} (fx @ snd (tcp_shutdown p)) = {#}"
proof -
  have "open_after {#} fx = mset (listeners p)" using assms
  proof (induction rule: listening.induct)
    case (listens fx p hst prt res p' fx' e)
    obtain sockets fx2 where c: "create_listen_socket res = (sockets, fx2)" by fastforce
    then have "open_after fds fx2 = fds + mset sockets" for fds
      using listen_loop_balance [of _ sockets fx2 fds] by (cases res) (auto simp: create_listen_socket_def)
    then show ?case using listens c
      by (auto simp: tcp_listen_def open_after_append Let_def split: option.splits if_splits)
  next
    case (shuts_down fx p p' fx')
    then show ?case by (auto simp: tcp_shutdown_def open_after_append closing)
  qed simp
  then show ?thesis by (simp add: open_after_append tcp_shutdown_def closing)
qed

definition sample_addresses :: "listen_attempt list" where
  "sample_addresses = [\<lparr>lsock = 5, reuse_ok = True, bind_ok = False, listen_ok = True\<rparr>,
     \<lparr>lsock = 6, reuse_ok = True, bind_ok = True, listen_ok = True\<rparr>]"

lemma listeners_are_open_witness:
  "open_after {#} [Opened 5, ClosedFd 5, Opened 6] =
    mset (listeners (fst (tcp_listen (Some []) 2809 (Some sample_addresses) \<lparr>llocal = \<lparr>host = [], port = 0\<rparr>, listeners = []\<rparr>)))"
proof -
  let ?p = "\<lparr>llocal = \<lparr>host = [], port = 0\<rparr>, listeners = []\<rparr>"
  let ?r = "tcp_listen (Some []) 2809 (Some sample_addresses) ?p"
  have "?r = (fst ?r, [Opened 5, ClosedFd 5, Opened 6], None)"
    by (simp add: tcp_listen_def create_listen_socket_def sample_addresses_def Let_def)
  from listening.listens [OF begins this] have "listening [Opened 5, ClosedFd 5, Opened 6] (fst ?r)" by simp
  then show ?thesis using listeners_are_open by blast
qed

end
