(* ===== verification/Hexdump.thy ===== *)
theory Hexdump
  imports Text
begin

text \<open>
  What is printed for people: the dump of a buffer (src/corba/util/hexdump.cc) and the log
  (src/corba/util/logger.cc).
\<close>

section \<open>The dump of a buffer\<close>

text \<open>\<open>%04zx\<close> and \<open>%02x\<close>: at least so many digits.\<close>

definition pad_hex :: "nat \<Rightarrow> nat \<Rightarrow> bytes" where
  "pad_hex w n = replicate (w - length (show_hex n)) 0x30 @ show_hex n"

definition hex_cell :: "bytes \<Rightarrow> nat \<Rightarrow> bytes" where
  "hex_cell buffer pos = (if pos < length buffer then pad_hex 2 (unat (buffer ! pos)) @ lit '' '' else lit ''   '')"

definition char_cell :: "bytes \<Rightarrow> nat \<Rightarrow> bytes" where
  "char_cell buffer pos =
     (if pos < length buffer
      then (if 32 \<le> buffer ! pos \<and> buffer ! pos \<le> 127 then [buffer ! pos] else lit ''.'') else lit '' '')"

definition dump_row :: "bytes \<Rightarrow> nat \<Rightarrow> bytes" where
  "dump_row buffer pos =
     pad_hex 4 pos @ lit '' '' @ concat (map (\<lambda>x. hex_cell buffer (pos + x)) [0..<16]) @
     concat (map (\<lambda>x. char_cell buffer (pos + x)) [0..<16]) @ [10]"

function dump_rows :: "bytes \<Rightarrow> nat \<Rightarrow> bytes" where
  "dump_rows buffer pos = (if pos < length buffer then dump_row buffer pos @ dump_rows buffer (pos + 16) else [])"
  by auto
termination by (relation "measure (\<lambda>(buffer, pos). length buffer - pos)") auto

declare dump_rows.simps [simp del]

definition hexdump :: "bytes \<Rightarrow> bytes" where
  "hexdump buffer = dump_rows buffer 0"

lemma show_hex_byte: "n < 256 \<Longrightarrow> show_hex n = (if n < 16 then [hex_digit n] else [hex_digit (n div 16), hex_digit (n mod 16)])"
  by (simp add: show_hex.simps [of n] show_hex.simps [of "n div 16"])

lemma pad_hex_byte: "n < 256 \<Longrightarrow> pad_hex 2 n = [hex_digit (n div 16), hex_digit (n mod 16)]"
  by (simp add: pad_hex_def show_hex_byte) (simp add: hex_digit_def)

lemma hex_digit_inj: "m < 16 \<Longrightarrow> n < 16 \<Longrightarrow> hex_digit m = hex_digit n \<Longrightarrow> m = n"
  using hex_value_digit by (metis option.inject)

lemma byte_less: "unat (b :: byte) < 256"
  using unsigned_less [of b] by simp

lemma hex_cell_simps:
  "pos < length b \<Longrightarrow> hex_cell b pos = [hex_digit (unat (b ! pos) div 16), hex_digit (unat (b ! pos) mod 16), 32]"
  "length b \<le> pos \<Longrightarrow> hex_cell b pos = [32, 32, 32]"
  using byte_less [of "b ! pos"] by (simp_all add: hex_cell_def pad_hex_byte)

lemma length_cells [simp]: "length (hex_cell b pos) = 3" "length (char_cell b pos) = 1"
  by (cases "pos < length b"; simp add: hex_cell_simps char_cell_def)+

lemma hex_digit_not_space: "d < 16 \<Longrightarrow> hex_digit d \<noteq> 32"
  using unat_hex_digit [of d] by (auto split: if_splits)

lemma hex_cell_inj:
  assumes "hex_cell a pos = hex_cell b pos"
  shows "pos < length a \<longleftrightarrow> pos < length b" and "pos < length a \<Longrightarrow> a ! pos = b ! pos"
proof -
  show in_both: "pos < length a \<longleftrightarrow> pos < length b"
    using assms hex_digit_not_space [of "unat (a ! pos) mod 16"] hex_digit_not_space [of "unat (b ! pos) mod 16"]
    by (cases "pos < length a"; cases "pos < length b") (auto simp: hex_cell_simps)
  assume "pos < length a"
  with in_both assms have "unat (a ! pos) div 16 = unat (b ! pos) div 16" "unat (a ! pos) mod 16 = unat (b ! pos) mod 16"
    using hex_digit_inj [of "unat (a ! pos) div 16" "unat (b ! pos) div 16"]
      hex_digit_inj [of "unat (a ! pos) mod 16" "unat (b ! pos) mod 16"]
      byte_less [of "a ! pos"] byte_less [of "b ! pos"] by (simp_all add: hex_cell_simps less_mult_imp_div_less)
  then have "unat (a ! pos) = unat (b ! pos)" by (metis mult_div_mod_eq)
  then show "a ! pos = b ! pos" by (simp add: word_unat_eq_iff)
qed

lemma concat_cells_inj:
  "(\<And>x. length (f x) = n) \<Longrightarrow> (\<And>x. length (g x) = n) \<Longrightarrow> concat (map f xs) = concat (map g xs) \<Longrightarrow> x \<in> set xs \<Longrightarrow> f x = g x"
  by (induction xs) auto

lemma length_row: "length (dump_row b pos) = length (pad_hex 4 pos) + 66"
  by (simp add: dump_row_def upt_rec)

lemma dump_row_inj:
  assumes "dump_row a pos = dump_row b pos" and "x < 16"
  shows "hex_cell a (pos + x) = hex_cell b (pos + x)"
proof -
  let ?cells = "\<lambda>c. concat (map (\<lambda>x. hex_cell c (pos + x)) [0..<16])"
  have "length (?cells a) = length (?cells b)" by (simp add: upt_rec)
  then have "?cells a = ?cells b" using assms(1) by (simp add: dump_row_def)
  from concat_cells_inj [OF _ _ this, of 3 x] show ?thesis using assms(2) by simp
qed

lemma dump_rows_inj: "dump_rows a pos = dump_rows b pos \<Longrightarrow> drop pos a = drop pos b"
proof (induction a pos rule: dump_rows.induct)
  case (1 a pos)
  have ne: "dump_row c pos \<noteq> []" for c using length_row [of c pos] by auto
  show ?case
  proof (cases "pos < length a")
    case False
    then have "\<not> pos < length b" using "1.prems" ne by (auto simp: dump_rows.simps [of _ pos] split: if_splits)
    then show ?thesis using False by simp
  next
    case True
    then have b: "pos < length b" using "1.prems" ne by (auto simp: dump_rows.simps [of _ pos] split: if_splits)
    have rows: "dump_row a pos = dump_row b pos" "dump_rows a (pos + 16) = dump_rows b (pos + 16)"
      using "1.prems" True b length_row [of a pos] length_row [of b pos] by (simp_all add: dump_rows.simps [of _ pos])
    note cell = hex_cell_inj [OF dump_row_inj [OF rows(1)]]
    have tails: "drop (pos + 16) a = drop (pos + 16) b" using "1.IH" [OF True rows(2)] .
    have heads: "take 16 (drop pos a) = take 16 (drop pos b)"
    proof (rule nth_equalityI)
      have "min 16 (length a - pos) = min 16 (length b - pos)"
      proof (rule ccontr)
        assume ne: "min 16 (length a - pos) \<noteq> min 16 (length b - pos)"
        define x where "x = min (min 16 (length a - pos)) (min 16 (length b - pos))"
        have "x < 16" "(pos + x < length a) \<noteq> (pos + x < length b)" using ne by (auto simp: x_def min_def split: if_splits)
        then show False using cell(1) by blast
      qed
      then show "length (take 16 (drop pos a)) = length (take 16 (drop pos b))" by (simp add: min.commute)
      fix i
      assume "i < length (take 16 (drop pos a))"
      then show "take 16 (drop pos a) ! i = take 16 (drop pos b) ! i" using cell [of i] True b by (simp add: less_diff_conv add.commute)
    qed
    show ?thesis
      using heads tails append_take_drop_id [of 16 "drop pos a"] append_take_drop_id [of 16 "drop pos b"]
      by (simp add: add.commute [of 16 pos])
  qed
qed

text \<open>C40. A dump shows everything: buffers with the same dump are the same.\<close>

theorem hexdump_injective: "hexdump a = hexdump b \<longleftrightarrow> a = b"
  using dump_rows_inj [of a 0 b] by (auto simp: hexdump_def)

section \<open>The log\<close>

text \<open>
  A \<open>MemoryLogger\<close> keeps the messages, a \<open>SysLogger\<close> gives them to the log of the system; without a
  destination a line is printed. \<open>time\<close> is the text of the time, \<open>message\<close> the formatted message.
\<close>

record log_entry =
  lpriority :: nat
  ltime :: bytes
  lmessage :: bytes

datatype log_destination = MemoryLogger "log_entry list" | SysLogger "(nat \<times> bytes) list"

record logger =
  destination :: "log_destination option"
  maxLevel :: nat

definition logger_init :: logger where
  "logger_init = \<lparr>destination = None, maxLevel = 4\<rparr>"

definition setLevel :: "nat \<Rightarrow> logger \<Rightarrow> logger" where
  "setLevel level l = l\<lparr>maxLevel := level\<rparr>"

definition setDestination :: "log_destination option \<Rightarrow> logger \<Rightarrow> logger" where
  "setDestination d l = l\<lparr>destination := d\<rparr>"

definition priorityName :: "bytes list" where
  "priorityName = [lit ''EMERG '', lit ''ALERT '', lit ''CRIT  '', lit ''ERROR '', lit ''WARN  '', lit ''NOTICE'',
     lit ''INFO  '', lit ''DEBUG '']"

definition log_line :: "bytes \<Rightarrow> nat \<Rightarrow> bytes \<Rightarrow> error + bytes" where
  "log_line time priority message =
     (if priority < length priorityName then Inr (time @ lit '' '' @ priorityName ! priority @ lit '' '' @ message)
      else Inl BadRead)"

definition toString :: "log_entry \<Rightarrow> error + bytes" where
  "toString l = log_line (ltime l) (lpriority l) (lmessage l)"

fun destination_log :: "bytes \<Rightarrow> nat \<Rightarrow> bytes \<Rightarrow> log_destination \<Rightarrow> log_destination" where
  "destination_log time priority message (MemoryLogger logs) =
     MemoryLogger (logs @ [\<lparr>lpriority = priority, ltime = time, lmessage = message\<rparr>])"
| "destination_log time priority message (SysLogger logs) = SysLogger (logs @ [(priority, message)])"

definition log_message :: "bytes \<Rightarrow> nat \<Rightarrow> bytes \<Rightarrow> logger \<Rightarrow> error + bytes \<times> logger" where
  "log_message time level message l =
     (if maxLevel l < level then Inr ([], l)
      else case destination l of
          Some d \<Rightarrow> Inr ([], l\<lparr>destination := Some (destination_log time level message d)\<rparr>)
        | None \<Rightarrow> (case log_line time level message of Inl err \<Rightarrow> Inl err | Inr line \<Rightarrow> Inr (line @ [10], l)))"

text \<open>The members of \<open>Logger\<close>, with the priorities of syslog.h.\<close>

datatype log_call = Emerg bytes | Alert bytes | Crit bytes | Error bytes | Warn bytes | Notice bytes | Info bytes | Debug bytes

fun log_priority :: "log_call \<Rightarrow> nat \<times> bytes" where
  "log_priority (Emerg m) = (0, m)"
| "log_priority (Alert m) = (1, m)"
| "log_priority (Crit m) = (2, m)"
| "log_priority (Error m) = (3, m)"
| "log_priority (Warn m) = (4, m)"
| "log_priority (Notice m) = (5, m)"
| "log_priority (Info m) = (6, m)"
| "log_priority (Debug m) = (7, m)"

definition log_at :: "bytes \<Rightarrow> log_call \<Rightarrow> logger \<Rightarrow> error + bytes \<times> logger" where
  "log_at time k l = (case log_priority k of (level, message) \<Rightarrow> log_message time level message l)"

fun log_all :: "(bytes \<times> log_call) list \<Rightarrow> logger \<Rightarrow> error + bytes \<times> logger" where
  "log_all [] l = Inr ([], l)"
| "log_all ((time, k) # ks) l =
     (case log_at time k l of
        Inl err \<Rightarrow> Inl err
      | Inr (out, l') \<Rightarrow> (case log_all ks l' of Inl err \<Rightarrow> Inl err | Inr (out', l'') \<Rightarrow> Inr (out @ out', l'')))"

text \<open>A memory logger keeps the messages up to its level, in order, and prints nothing; so does the system's.\<close>

lemma memory_log:
  "log_all ks \<lparr>destination = Some (MemoryLogger logs), maxLevel = n\<rparr> =
     Inr ([], \<lparr>destination = Some (MemoryLogger (logs @
       map (\<lambda>(t, k). \<lparr>lpriority = fst (log_priority k), ltime = t, lmessage = snd (log_priority k)\<rparr>)
         (filter (\<lambda>(t, k). fst (log_priority k) \<le> n) ks))), maxLevel = n\<rparr>)"
  by (induction ks arbitrary: logs) (auto simp: log_at_def log_message_def split: prod.split)

lemma system_log:
  "log_all ks \<lparr>destination = Some (SysLogger logs), maxLevel = n\<rparr> =
     Inr ([], \<lparr>destination = Some (SysLogger (logs @
       map (\<lambda>(t, k). log_priority k) (filter (\<lambda>(t, k). fst (log_priority k) \<le> n) ks))), maxLevel = n\<rparr>)"
  by (induction ks arbitrary: logs) (auto simp: log_at_def log_message_def split: prod.split)

text \<open>Every member of \<open>Logger\<close> has a name for its priority, so that none reads behind the table.\<close>

lemma log_never_fails: "\<exists>out l'. log_all ks l = Inr (out, l')"
proof (induction ks arbitrary: l)
  case (Cons k ks)
  obtain time call where k: "k = (time, call)" by fastforce
  have "fst (log_priority call) < 8" by (cases call) simp_all
  then have "\<exists>out l'. log_at time call l = Inr (out, l')"
    by (cases "log_priority call"; cases "destination l")
      (simp_all add: log_at_def log_message_def log_line_def priorityName_def)
  then obtain out l' where "log_at time call l = Inr (out, l')" by blast
  moreover obtain out' l'' where "log_all ks l' = Inr (out', l'')" using Cons.IH by blast
  ultimately show ?case by (simp add: k)
qed simp

end
