(* ===== verification/Spec2Isabelle.thy ===== *)
theory Spec2Isabelle
  imports CDR_Properties Values ORB_Servants Sessions Breakdown Typed_Calls Lifetimes End_to_End Transports Connections_Properties WS_Properties Sockets_Properties Hexdump
begin

text \<open>
  Verification of corba.cc, a CORBA object request broker in C++.

  A client and a server talk GIOP over a byte stream. A stub asks the ORB to call an operation:
  the GIOP encoder writes a message header, a request header and the arguments in CDR, the
  connection sends the octets. At the other end the stream is cut into messages, the GIOP
  decoder reads the headers, the ORB finds the servant by its object key, and the servant's
  reply travels back the same way. References to objects are exchanged inside messages, as
  stringified references and as URLs.

  The theories and the code under src/src/corba they model:

    Corba_Prelude          machine types, errors as values, readers and writers, lists of octets
    CDR_Words              octets of integers and floating point values, byte order of the host
    CDR_Encoder            CDREncoder (cdr.cc, cdr.hh): the buffer, alignment, every write
    CDR_Decoder            CDRDecoder (cdr.cc, cdr.hh): every read and its check
    CDR_Codec              the layout of a value at an offset; what writers emit and readers parse
    CDR_Contracts          the contract between the two as locales, and their interpretations
    CDR_Properties         round trips, sizes filled in afterwards, bounds of the reads
    Values                 values of every type of the encoder and decoder (giop.hh), their sequences
                           and groups: round trip, and that reads stay inside the data
    GIOP_Types             message types, versions, connections as the codec sees them
    GIOP_Encoder           GIOPEncoder (giop.cc, giop.hh)
    GIOP_Decoder           GIOPDecoder (giop.cc, giop.hh)
    GIOP_Format            the layout of the messages and that the encoder emits it
    GIOP_Parse             that the decoder parses it
    GIOP_Messages          whole requests, replies and object references, end to end
    Stream2Packet          IIOPStream2Packet (net/stream2packet.cc): cutting the stream
    Text                   digits, decimal and hexadecimal numbers of format and from_chars
    IOR                    stringified references (ior.cc)
    URL, URL_Properties    corbaloc and corbaname URLs (url.cc, url.hh)
    Exceptions             the system exceptions (exception.hh), how a reply carries one and how
                           the client finds it again (orb.cc)
    Naming                 NamingContextExtImpl and its stub (naming.cc)
    ORB                    ORB (orb.cc): activation, bind, calls, dispatch of messages
    ORB_Properties         a call from stub to servant and back, every way it can end
    ORB_Servants           the ORBs that can be reached, shutdown included; keys, servants and names
    Remote_Calls           what each end makes of a call among others: values, exceptions, unknown
                           objects, _is_a (orb.cc)
    Sessions               many calls at a time over a connection, with servants that suspend
    Breakdown              the calls of a connection that breaks, noticed (canRead and timer of the
                           connections) or not, or cannot be made
    Typed_Calls            the same with arguments and results of every type, as an application
                           sees them
    Handlers               Object, the table of exception handlers, a call whose message cannot be
                           sent (orb.cc)
    Lifetimes              the destructors of connections; descriptors, watchers, connections that
                           are never made
    TCP                    TcpConnection (net/tcp/connection.cc): queue, states, handlers
    TCP_Properties         runs of a connection under the event loop
    TCP_Link               two connections and the octets between them: messages arrive, both ways
    WS_Link                the same for two WebSocket connections, from the handshake on
    End_to_End             what a call needs of a transport, as a locale; a call from stub to servant
                           and back over TCP and over WebSockets
    Transports             many calls at a time over the octets of TCP or WebSockets: the ORBs with their
                           connections refine the exchange of Sessions
    Connections            the pool (net/connection.cc), getConnection, stringToObject and
                           _narrow_servant (orb.cc), new connections (net/tcp/protocol.cc)
    Connections_Properties the contract of the pool, callbacks, objects behind URLs
    WS                     WsConnection (net/ws/connection.cc): handshake, queue, handlers; the keys
                           (net/util/createAcceptKey.cc)
    WS_Properties          the handshake comes to its end; states and order of messages
    Sockets                connecting and listening (net/util/socket.cc), TcpProtocol
                           (net/tcp/protocol.cc)
    Sockets_Properties     which address is used; no descriptor is lost
    Hexdump                the dump of a buffer (util/hexdump.cc) and the log (util/logger.cc,
                           util/logger.hh)

  Conventions. An object with state is a record and each method a function from the state to
  the new state; a method that can throw returns \<open>error + _\<close>, where the left side is the
  exception. Reading outside a buffer, using a variable that was never set and following a null
  pointer are errors of their own (\<open>BadRead\<close>, \<open>Uninitialised\<close>, \<open>NullDeref\<close>), so a theorem
  that a function returns says that none of them happens. Integers have the width of the
  source and wrap around; sizes and offsets (\<open>size_t\<close>) are natural numbers. The byte order
  of the machine (\<open>std::endian::native\<close>) is the argument \<open>host\<close> of every function that
  depends on it, so that the two ends of a connection can differ.

  What the lemmas show. Every write appends the layout of its value at the current offset,
  and every read takes that layout off, for both byte orders; both facts compose, and the
  contracts in CDR_Contracts turn them into round trips of single values, sequences and nested
  sequences. The same composition carries headers, service contexts, profiles and whole
  messages. The stream is cut into the messages that were sent whatever sizes the reads have.
  URLs and stringified references are read back. A call goes through two ORBs and returns what
  the servant returned or threw. Calls that are under way together do not mix, however each of them
  ends: with a value, an exception, the ORB's own answer to _is_a or for an object it does not know; also
  when the connection breaks and is made again. A servant is run at most once for a call. A servant that
  suspends and then throws is left out of these theorems: its handler uses locals that are gone
  (resumed_threw in ORB). In Breakdown whole messages are lost at any time, with or without
  a handler that fails the calls that wait, which otherwise wait for ever; calls may be made in between,
  and send may throw. The rest of a message cut by the loss goes to the next connection, where it is
  refused with all that follows (cut_message_refused), which is a loss of whole messages; left out
  is that it begins with GIOP and is taken for a message, and that the rest of a reply is completed by
  another one (broken_keeps_octets), which the code does not rule out. That a connection delivers what it
  is given is not claimed: TCP_Properties and Lifetimes have runs in which messages wait for ever. Signed
  numbers are read as unsigned ones with the same bits, as the decoder does (Values). A TCP connection gives the system what was queued and nothing
  else, it closes every descriptor it has opened once, and what one end sends is what the other end's
  ORB gets, so that a call over TCP refines a call of the servant; the same holds of WebSockets with the
  frames of wslay, and of many calls at a time over either. The handshake of WebSockets ends however it is cut up. Sockets that
  cannot be used are closed again. Where the code does not do this, the theorem states what it does.

  Bounds. Loops of the source that are bounded by a count are recursions on that count; the
  others have a termination proof, except the loop that fails the calls of a connection, which may
  not end: it is a partial function, and Breakdown shows when it ends and when it does not. There is
  no fuel. Request ids repeat after 2^31 calls of a connection, so the theorems about many calls at a
  time are about that many.

  What the environment decides is an argument: the answers of \<open>send\<close>, \<open>recv\<close> and
  \<open>connect\<close>, what a servant does with its arguments, and the names of C++ types in the texts of
  exceptions. The interlock in which calls wait belongs to the coroutine library: what it offers
  is an argument of fail_calls, and what is asked of it the locale interlock. The event loop is a
  relation that calls a handler while its watcher is active.

  Not modelled: libev and signal handlers, system calls (\<open>getaddrinfo\<close>, \<open>socket\<close> and the like),
  of which only the answers appear, the coroutine library (a submodule that is
  not in the tree), the frames of wslay, and SHA-1 and base64 of nettle. The files under src/old
  are earlier versions that are not built.
\<close>

end
